(* ===== verification/Prelude.thy ===== *)
theory Prelude
  imports Main "HOL-Library.Word"
begin

text \<open>
  Shared base of the development: the C integer types at their width, big-endian byte
  sequences, the utlist.h list operations (src/sim/sim/utlist.h) on HOL lists, and the
  collections of defining equations that the component theories fill.
\<close>

unbundle bit_operations_syntax

type_synonym u8 = "8 word"
type_synonym u16 = "16 word"
type_synonym u32 = "32 word"
type_synonym u64 = "64 word"

named_theorems bv_defs "operations of bitvec.c"
named_theorems rb_defs "operations of recv_buf.c"
named_theorems plan_defs "operations of debug_plan.c"
named_theorems rom_defs "straight-line operations of the ROM monitor"
named_theorems bus_defs "operations of mem_bus.c"
named_theorems sim_defs "operations of simulator.c"
named_theorems dbg_defs "operations of debug.c"

section \<open>Doubly and singly linked lists of utlist.h\<close>

text \<open>
  The clients only use a list through the macros and through its head pointer, so a list is
  modelled by the sequence of its elements. Deleting takes the element's identity.
\<close>

definition dl_append :: "'a list \<Rightarrow> 'a \<Rightarrow> 'a list" where
  "dl_append xs x = xs @ [x]"

definition dl_prepend :: "'a list \<Rightarrow> 'a \<Rightarrow> 'a list" where
  "dl_prepend xs x = x # xs"

definition dl_delete :: "'a list \<Rightarrow> 'a \<Rightarrow> 'a list" where
  "dl_delete xs x = remove1 x xs"

definition ll_append :: "'a list \<Rightarrow> 'a \<Rightarrow> 'a list" where
  "ll_append xs x = xs @ [x]"

section \<open>Big-endian bytes\<close>

definition be16 :: "u16 \<Rightarrow> u8 list" where
  "be16 v = [ucast (drop_bit 8 v), ucast v]"

definition be32 :: "u32 \<Rightarrow> u8 list" where
  "be32 v = [ucast (drop_bit 24 v), ucast (drop_bit 16 v), ucast (drop_bit 8 v), ucast v]"

definition be_join :: "u8 list \<Rightarrow> 'a::len word" where
  "be_join bs = foldl (\<lambda>v b. push_bit 8 v OR ucast b) 0 bs"

lemma length_be [simp]: "length (be16 v) = 2" "length (be32 w) = 4"
  by (simp_all add: be16_def be32_def)

lemma bit_shift_back: "k \<le> n \<Longrightarrow> bit v (k + (n - k)) = bit v n"
  by simp

lemma bit_u8_high [simp]: "8 \<le> n \<Longrightarrow> \<not> bit (b :: u8) n"
  by (auto dest: bit_imp_le_length)

lemma be_join_be32 [simp]: "be_join (be32 v) = v"
proof (rule bit_word_eqI)
  fix n assume "n < LENGTH(32)"
  then consider "n < 8" | "8 \<le> n" "n < 16" | "16 \<le> n" "n < 24" | "24 \<le> n" "n < 32"
    by fastforce
  then show "bit (be_join (be32 v) :: u32) n = bit v n"
    by cases (auto simp: be_join_def be32_def bit_simps bit_shift_back)
qed

lemma be_join_be16 [simp]: "be_join (be16 v) = v"
proof (rule bit_word_eqI)
  fix n assume "n < LENGTH(16)"
  then consider "n < 8" | "8 \<le> n" "n < 16"
    by fastforce
  then show "bit (be_join (be16 v) :: u16) n = bit v n"
    by cases (auto simp: be_join_def be16_def bit_simps bit_shift_back)
qed

lemma be32_be_join [simp]: "be32 (be_join [a, b, c, d]) = [a, b, c, d]"
  by (auto simp: be_join_def be32_def bit_simps intro!: bit_word_eqI)

lemma be16_be_join [simp]: "be16 (be_join [a, b]) = [a, b]"
  by (auto simp: be_join_def be16_def bit_simps intro!: bit_word_eqI)

section \<open>Updates at distinct addresses\<close>

lemma fold_fun_upd_in:
  "j \<in> set ks \<Longrightarrow> inj_on f (set ks) \<Longrightarrow> fold (\<lambda>k m. m(f k := g k)) ks m (f j) = g j"
proof (induction ks rule: rev_induct)
  case (snoc k ks)
  then show ?case
    by (cases "j = k") (auto simp: inj_on_def)
qed simp

lemma fold_fun_upd_out: "x \<notin> f ` set ks \<Longrightarrow> fold (\<lambda>k m. m(f k := g k)) ks m x = m x"
  by (induction ks arbitrary: m) auto

lemma of_nat_u32_inj: "i < 2 ^ 32 \<Longrightarrow> j < 2 ^ 32 \<Longrightarrow> (of_nat i :: u32) = of_nat j \<longleftrightarrow> i = j"
  by (auto dest: arg_cong [where f = unat] simp: unat_of_nat)

lemma word_offset_inj:
  assumes "i < 2 ^ 30" "j < 2 ^ 30"
  shows "(a :: u32) + 4 * of_nat i = a + 4 * of_nat j \<longleftrightarrow> i = j"
proof -
  have "(a + 4 * of_nat i = a + 4 * of_nat j) \<longleftrightarrow> (of_nat (4 * i) :: u32) = of_nat (4 * j)"
    by simp
  also have "\<dots> \<longleftrightarrow> 4 * i = 4 * j"
    using assms by (intro of_nat_u32_inj) auto
  finally show ?thesis by simp
qed

section \<open>Signed values\<close>

lemma sint_u32: "sint (w :: u32) = (if unat w < 2 ^ 31 then int (unat w) else int (unat w) - 2 ^ 32)"
proof -
  define n where "n = unat w"
  have b: "n < 2 ^ 32" using unsigned_less [of w] by (simp add: n_def)
  have "sint w = (int n + 2 ^ 31) mod 2 ^ 32 - 2 ^ 31"
    by (simp add: sint_uint signed_take_bit_eq_take_bit_shift take_bit_eq_mod n_def)
  moreover have "(int n + 2 ^ 31) mod 2 ^ 32 = (if n < 2 ^ 31 then int n + 2 ^ 31 else int n - 2 ^ 31)"
  proof (cases "n < 2 ^ 31")
    case True
    then show ?thesis by simp
  next
    case False
    have "(int n + 2 ^ 31) mod 2 ^ 32 = (int n - 2 ^ 31 + 2 ^ 32) mod 2 ^ 32" by (simp add: add.commute)
    also have "\<dots> = (int n - 2 ^ 31) mod 2 ^ 32" by (rule mod_add_self2)
    also have "\<dots> = int n - 2 ^ 31" using False b by (intro mod_pos_pos_trivial) auto
    finally show ?thesis using False by simp
  qed
  ultimately show ?thesis by (auto simp: n_def)
qed

lemma sint_u32_nonneg: "0 \<le> sint (w :: u32) \<longleftrightarrow> unat w < 2 ^ 31"
proof -
  define n where "n = unat w"
  have "n < 2 ^ 32" using unsigned_less [of w] by (simp add: n_def)
  then have "int n - 2 ^ 32 < 0" by simp
  moreover have "sint w = (if n < 2 ^ 31 then int n else int n - 2 ^ 32)" unfolding n_def by (rule sint_u32)
  ultimately show ?thesis by (simp add: n_def [symmetric])
qed

lemma sint_u32_unat: "0 \<le> sint (w :: u32) \<Longrightarrow> sint w = int (unat w)"
  unfolding sint_u32_nonneg by (simp only: sint_u32) simp

lemma sint_u32_eq_nat:
  assumes "sint (w :: u32) = int n"
  shows "unat w = n" "n < 2 ^ 31"
proof -
  have nn: "0 \<le> sint w" using assms by linarith
  have "int (unat w) = int n" using sint_u32_unat [OF nn] assms by (rule trans [OF sym])
  then show "unat w = n" by (rule int_int_eq [THEN iffD1])
  then show "n < 2 ^ 31" using nn sint_u32_nonneg [of w] by blast
qed

end
