(* ===== verification/Bitvec.thy ===== *)
theory Bitvec
  imports Prelude
begin

text \<open>
  Fixed-capacity bit vectors (src/sim/sim/bitvec.c and bitvec.h): which signals a hook watches
  and which signals had an event. The vector is abstracted by the set of its members, and the
  locale \<open>event_set\<close> is the contract that simulator.c relies on.
\<close>

section \<open>Data and operations\<close>

definition BITVEC_SIZE :: nat where
  "BITVEC_SIZE = 4"

record bv =
  bv_n :: nat
  bv_max_i :: nat
  bv_vals :: "u32 list"

text \<open>An uninitialised vector holds arbitrary words; \<open>memset\<close> clears them only on success.\<close>

definition bv_init :: "bv \<Rightarrow> nat \<Rightarrow> int \<times> bv" where
  "bv_init b n =
     (let b' = b\<lparr>bv_n := n, bv_max_i := ((n + 31) mod 2 ^ 32) div 32\<rparr>
      in if bv_max_i b' > BITVEC_SIZE then (-1, b')
         else (0, b'\<lparr>bv_vals := replicate BITVEC_SIZE 0\<rparr>))"

definition bv_set :: "bv \<Rightarrow> nat \<Rightarrow> bool \<Rightarrow> bv" where
  "bv_set b i v =
     (if i \<ge> bv_n b then b
      else let w = bv_vals b ! (i div 32) in
        if v then b\<lparr>bv_vals := (bv_vals b)[i div 32 := w OR push_bit (i mod 32) 1]\<rparr>
        else b\<lparr>bv_vals := (bv_vals b)[i div 32 := w AND NOT (push_bit (i mod 32) 1)]\<rparr>)"

definition bv_get :: "bv \<Rightarrow> nat \<Rightarrow> bool" where
  "bv_get b i =
     (if i \<ge> bv_n b then False
      else bv_vals b ! (i div 32) AND push_bit (i mod 32) 1 \<noteq> 0)"

definition bv_clear :: "bv \<Rightarrow> bv" where
  "bv_clear b = b\<lparr>bv_vals := map (\<lambda>_. 0) [0..<BITVEC_SIZE]\<rparr>"

definition bv_and_reduce :: "bv \<Rightarrow> bv \<Rightarrow> bool" where
  "bv_and_reduce a b =
     (let n = (if bv_max_i a < bv_max_i b then bv_max_i a else bv_max_i b)
      in list_ex (\<lambda>i. bv_vals a ! i AND bv_vals b ! i \<noteq> 0) [0..<n])"

text \<open>
  \<open>bv_print\<close> writes character \<open>i * 32 + j\<close> of a 33 byte buffer and prints the buffer after
  every word; \<open>None\<close> is a write outside the buffer.
\<close>

definition bv_print_word :: "bv \<Rightarrow> string \<Rightarrow> nat \<Rightarrow> string option" where
  "bv_print_word b buf i =
     (if \<forall>j \<in> set [0..<32]. i * 32 + j < length buf
      then Some (fold (\<lambda>j s. s[i * 32 + j := (if bv_get b (i * 32 + j) then CHR ''1'' else CHR ''0'')])
                   [0..<32] buf)
      else None)"

fun bv_print_from :: "bv \<Rightarrow> string \<Rightarrow> nat list \<Rightarrow> string list option" where
  "bv_print_from b buf [] = Some []"
| "bv_print_from b buf (i # is) =
     (case bv_print_word b buf i of None \<Rightarrow> None
      | Some buf' \<Rightarrow> map_option ((#) (take 32 buf')) (bv_print_from b buf' is))"

definition bv_print :: "string \<Rightarrow> bv \<Rightarrow> string list option" where
  "bv_print buf b = bv_print_from b (buf[32 := CHR 0x00]) [0..<bv_max_i b]"

lemmas [bv_defs] = bv_init_def bv_set_def bv_get_def bv_clear_def bv_and_reduce_def
  bv_print_def bv_print_word_def BITVEC_SIZE_def

section \<open>Well-formedness and abstraction\<close>

text \<open>
  A vector that \<open>bv_init\<close> accepted: the word count covers the bits, it fits the array, and no
  bit at or above \<open>n\<close> is set.
\<close>

definition bv_wf :: "bv \<Rightarrow> bool" where
  "bv_wf b \<longleftrightarrow> length (bv_vals b) = BITVEC_SIZE \<and> bv_n b \<le> 32 * BITVEC_SIZE \<and>
     bv_max_i b = (bv_n b + 31) div 32 \<and>
     (\<forall>i < 32 * BITVEC_SIZE. bit (bv_vals b ! (i div 32)) (i mod 32) \<longrightarrow> i < bv_n b)"

definition bv_members :: "bv \<Rightarrow> nat set" where
  "bv_members b = {i. i < bv_n b \<and> bit (bv_vals b ! (i div 32)) (i mod 32)}"

lemma and_push_bit_one: "(w :: u32) AND push_bit k 1 \<noteq> 0 \<longleftrightarrow> bit w k"
  by (simp add: and_exp_eq_0_iff_not_bit)

lemma word_and_nonzero: "(a :: u32) AND b \<noteq> 0 \<longleftrightarrow> (\<exists>k<32. bit a k \<and> bit b k)"
  by (auto simp: bit_eq_iff bit_simps dest: bit_imp_le_length)

lemma div_mod_32: "(i::nat) = j \<longleftrightarrow> i div 32 = j div 32 \<and> i mod 32 = j mod 32"
  by (metis div_mod_decomp)

lemma bv_in_bounds: "bv_wf b \<Longrightarrow> i < bv_n b \<Longrightarrow> i div 32 < length (bv_vals b)"
  by (auto simp: bv_wf_def BITVEC_SIZE_def)

lemma bv_max_i_le: "bv_wf b \<Longrightarrow> bv_max_i b \<le> BITVEC_SIZE"
  by (auto simp: bv_wf_def BITVEC_SIZE_def)

lemma bv_word_index: "bv_wf b \<Longrightarrow> i < bv_n b \<Longrightarrow> i div 32 < bv_max_i b"
  by (simp add: bv_wf_def)

lemma bv_get_members: "bv_get b i \<longleftrightarrow> i \<in> bv_members b"
  by (simp add: bv_get_def bv_members_def and_exp_eq_0_iff_not_bit not_le)

lemma bv_init_ok:
  "bv_init b n = (0, b') \<Longrightarrow> n < 2 ^ 31 \<Longrightarrow> bv_wf b' \<and> bv_n b' = n \<and> bv_members b' = {}"
  by (auto simp: bv_init_def bv_wf_def bv_members_def BITVEC_SIZE_def Let_def nth_Cons'
      split: if_splits)

lemma bv_init_fails: "n < 2 ^ 31 \<Longrightarrow> fst (bv_init b n) = -1 \<longleftrightarrow> 128 < n"
  by (auto simp: bv_init_def BITVEC_SIZE_def Let_def)

lemma bv_set_bit:
  assumes "bv_wf b" "i < bv_n b" "j < 32 * BITVEC_SIZE"
  shows "bit (bv_vals (bv_set b i v) ! (j div 32)) (j mod 32) \<longleftrightarrow>
     (if j = i then v else bit (bv_vals b ! (j div 32)) (j mod 32))"
proof -
  have "i div 32 < length (bv_vals b)" "j div 32 < length (bv_vals b)"
    using assms by (auto simp: bv_wf_def BITVEC_SIZE_def)
  then show ?thesis
    using assms(2) by (cases "i div 32 = j div 32")
      (auto simp: bv_set_def Let_def bit_simps nth_list_update div_mod_32 [of i j] div_mod_32 [of j i])
qed

lemma bv_set_simps [simp]: "bv_n (bv_set b i v) = bv_n b" "bv_max_i (bv_set b i v) = bv_max_i b"
  "length (bv_vals (bv_set b i v)) = length (bv_vals b)"
  by (simp_all add: bv_set_def Let_def)

lemma bv_set_wf: "bv_wf b \<Longrightarrow> bv_wf (bv_set b i v)"
proof (cases "i < bv_n b")
  case True
  assume wf: "bv_wf b"
  then show ?thesis
    using True by (auto simp: bv_wf_def bv_set_bit [OF wf True])
qed (simp add: bv_set_def)

lemma bv_set_members:
  assumes "bv_wf b"
  shows "bv_members (bv_set b i v) =
     (if i < bv_n b then (if v then insert i (bv_members b) else bv_members b - {i}) else bv_members b)"
proof (cases "i < bv_n b")
  case True
  have "j < 32 * BITVEC_SIZE" if "j < bv_n b" for j
    using that assms by (simp add: bv_wf_def)
  then show ?thesis
    using True by (auto simp: bv_members_def bv_set_bit [OF assms True] split: if_splits)
qed (simp add: bv_set_def)

lemma bv_clear_wf: "bv_wf b \<Longrightarrow> bv_wf (bv_clear b)"
  by (auto simp: bv_wf_def bv_clear_def)

lemma bv_clear_members: "bv_wf b \<Longrightarrow> bv_members (bv_clear b) = {}"
  by (auto simp: bv_wf_def bv_clear_def bv_members_def BITVEC_SIZE_def)

lemma bv_and_reduce_iff:
  assumes "bv_wf a" "bv_wf b"
  shows "bv_and_reduce a b \<longleftrightarrow> bv_members a \<inter> bv_members b \<noteq> {}"
proof
  let ?n = "min (bv_max_i a) (bv_max_i b)"
  assume "bv_and_reduce a b"
  then have "\<exists>w<?n. \<exists>k<32. bit (bv_vals a ! w) k \<and> bit (bv_vals b ! w) k"
    by (auto simp: bv_and_reduce_def list_ex_iff Let_def word_and_nonzero min_def split: if_splits)
  then obtain w k where wk: "w < ?n" "k < 32" "bit (bv_vals a ! w) k" "bit (bv_vals b ! w) k"
    by blast
  moreover have "w * 32 + k < 32 * BITVEC_SIZE"
    using wk bv_max_i_le [OF assms(1)] by auto
  ultimately have "w * 32 + k \<in> bv_members a \<inter> bv_members b"
    using assms by (auto simp: bv_members_def bv_wf_def)
  then show "bv_members a \<inter> bv_members b \<noteq> {}" by blast
next
  assume "bv_members a \<inter> bv_members b \<noteq> {}"
  then obtain i where "i < bv_n a" "i < bv_n b" "bit (bv_vals a ! (i div 32)) (i mod 32)"
    "bit (bv_vals b ! (i div 32)) (i mod 32)"
    by (auto simp: bv_members_def)
  moreover have "i div 32 < bv_max_i a" "i div 32 < bv_max_i b"
    using assms calculation(1,2) by (simp_all add: bv_word_index)
  ultimately show "bv_and_reduce a b"
    by (auto simp: bv_and_reduce_def list_ex_iff Let_def word_and_nonzero
        intro!: bexI [of _ "i div 32"] exI [of _ "i mod 32"])
qed

section \<open>The contract the simulator relies on\<close>

locale event_set =
  fixes get :: "'b \<Rightarrow> nat \<Rightarrow> bool"
    and set_bit :: "'b \<Rightarrow> nat \<Rightarrow> bool \<Rightarrow> 'b"
    and clear :: "'b \<Rightarrow> 'b"
    and meets :: "'b \<Rightarrow> 'b \<Rightarrow> bool"
    and cap :: "'b \<Rightarrow> nat"
    and inv :: "'b \<Rightarrow> bool"
  assumes get_set: "inv b \<Longrightarrow> get (set_bit b i v) j = (if i = j \<and> i < cap b then v else get b j)"
    and get_clear: "inv b \<Longrightarrow> \<not> get (clear b) j"
    and meets_iff: "inv a \<Longrightarrow> inv b \<Longrightarrow> meets a b \<longleftrightarrow> (\<exists>i. get a i \<and> get b i)"
    and inv_set: "inv b \<Longrightarrow> inv (set_bit b i v)"
    and inv_clear: "inv b \<Longrightarrow> inv (clear b)"
    and cap_set: "cap (set_bit b i v) = cap b"
begin

lemma meets_after_set:
  assumes "inv a" "inv b" "i < cap a"
  shows "get b i \<Longrightarrow> meets (set_bit a i True) b"
  using assms by (auto simp: meets_iff inv_set get_set intro!: exI [of _ i])

lemma no_meet_after_clear: "inv a \<Longrightarrow> inv b \<Longrightarrow> \<not> meets (clear a) b"
  by (simp add: meets_iff inv_clear get_clear)

lemma inv_fold_set: "inv b \<Longrightarrow> inv (fold (\<lambda>i b. set_bit b i v) is b)"
  by (induction "is" arbitrary: b) (simp_all add: inv_set)

lemma get_fold_set:
  "inv b \<Longrightarrow> \<forall>i \<in> set is. i < cap b \<Longrightarrow>
   get (fold (\<lambda>i b. set_bit b i True) is b) j \<longleftrightarrow> j \<in> set is \<or> get b j"
  by (induction "is" arbitrary: b) (auto simp: inv_set get_set cap_set)

end

interpretation bvset: event_set bv_get bv_set bv_clear bv_and_reduce bv_n bv_wf
proof
  fix a b :: bv and i j :: nat and v :: bool
  show "bv_get (bv_set b i v) j = (if i = j \<and> i < bv_n b then v else bv_get b j)" if "bv_wf b"
    using that by (auto simp: bv_get_members bv_set_members)
  show "\<not> bv_get (bv_clear b) j" if "bv_wf b"
    using that by (simp add: bv_get_members bv_clear_members)
  show "bv_and_reduce a b \<longleftrightarrow> (\<exists>i. bv_get a i \<and> bv_get b i)" if "bv_wf a" "bv_wf b"
    using that by (auto simp: bv_and_reduce_iff bv_get_members)
qed (simp_all add: bv_set_wf bv_clear_wf)

section \<open>Properties\<close>

text \<open>
  two vectors of up to 128 bits, built by setting any bits after \<open>bv_init\<close>, have a common member
  exactly when \<open>bv_and_reduce\<close> says so; this is the test that decides whether a hook fires.
\<close>

theorem bv_and_reduce_common:
  assumes "n \<le> 128" "\<forall>i\<in>set xs. i < n" "\<forall>i\<in>set ys. i < n"
  shows "bv_and_reduce (fold (\<lambda>i b. bv_set b i True) xs (snd (bv_init a n)))
      (fold (\<lambda>i b. bv_set b i True) ys (snd (bv_init b n))) \<longleftrightarrow> set xs \<inter> set ys \<noteq> {}"
proof -
  have i: "bv_wf (snd (bv_init x n))" "bv_n (snd (bv_init x n)) = n" "\<not> bv_get (snd (bv_init x n)) k" for x k
  proof -
    have "bv_init x n = (0, snd (bv_init x n))"
      using assms(1) by (auto simp: bv_init_def BITVEC_SIZE_def Let_def)
    from bv_init_ok [OF this] assms(1)
    show "bv_wf (snd (bv_init x n))" "bv_n (snd (bv_init x n)) = n" "\<not> bv_get (snd (bv_init x n)) k"
      by (simp_all add: bv_get_members)
  qed
  show ?thesis
    using assms i by (simp add: bvset.meets_iff bvset.inv_fold_set bvset.get_fold_set) blast
qed

theorem bv_and_reduce_common_witness:
  "bv_and_reduce (fold (\<lambda>i b. bv_set b i True) [3, 77] (snd (bv_init undefined 100)))
     (fold (\<lambda>i b. bv_set b i True) [77] (snd (bv_init undefined 100)))"
  using bv_and_reduce_common [of 100 "[3, 77]" "[77]" undefined undefined] by simp

text \<open>
  \<open>bv_print\<close> writes outside its 33 byte buffer for every vector of more than one word, and
  prints the bits of a vector of at most 32 bits.
\<close>

theorem bv_print_overruns:
  assumes "length buf = 33" "0 < bv_max_i b"
  shows "bv_print buf b = None \<longleftrightarrow> 1 < bv_max_i b"
proof -
  have w0: "\<exists>buf'. bv_print_word b (buf[32 := CHR 0x00]) 0 = Some buf' \<and> length buf' = 33"
  proof -
    have "length (fold (\<lambda>j s. s[f j := c j]) js x) = length x" for f :: "nat \<Rightarrow> nat" and c :: "nat \<Rightarrow> char" and js x
      by (induction js arbitrary: x) auto
    then show ?thesis using assms(1) by (simp add: bv_print_word_def)
  qed
  then obtain buf' where b: "bv_print_word b (buf[32 := CHR 0x00]) 0 = Some buf'" "length buf' = 33" by blast
  have over: "bv_print_word b x (Suc k) = None" if "length x = 33" for x k
  proof -
    have "\<not> (\<forall>j\<in>set [0..<32]. Suc k * 32 + j < length x)"
      using that by (auto intro!: bexI [of _ 31])
    then show ?thesis by (simp add: bv_print_word_def)
  qed
  obtain m where m: "bv_max_i b = Suc m" using assms(2) by (cases "bv_max_i b") auto
  have u: "[0..<Suc m] = 0 # map Suc [0..<m]" by (rule upt_conv_Cons [THEN trans]) (simp_all add: map_Suc_upt)
  show ?thesis
  proof (cases m)
    case 0
    then show ?thesis using b m u by (simp add: bv_print_def del: upt_Suc)
  next
    case (Suc k)
    then have "map Suc [0..<m] = Suc 0 # map Suc [Suc 0..<m]" by (simp add: upt_conv_Cons del: upt_Suc)
    then show ?thesis using b m u Suc over [OF b(2)] by (simp add: bv_print_def del: upt_Suc)
  qed
qed

end
