(* ===== verification/Recv_Buf.thy ===== *)
theory Recv_Buf
  imports Prelude
begin

text \<open>
  The contiguous receive buffer of the debug socket (src/sim/recv_buf.c and recv_buf.h). The
  pointers \<open>head\<close> and \<open>tail\<close> are offsets into \<open>buf\<close>. The buffer refines a bounded byte queue:
  the locale \<open>byte_queue\<close> is what debug_skt.c relies on.
\<close>

section \<open>Data and operations\<close>

definition RECV_BUF_LEN :: nat where
  "RECV_BUF_LEN = 1024"

record recv_buf =
  rb_head :: nat
  rb_tail :: nat
  rb_buf :: "u8 list"

definition recv_buf_init :: "recv_buf \<Rightarrow> recv_buf" where
  "recv_buf_init b = b\<lparr>rb_head := 0, rb_tail := 0\<rparr>"

definition recv_buf_len :: "recv_buf \<Rightarrow> nat" where
  "recv_buf_len b = rb_tail b - rb_head b"

definition memmove :: "u8 list \<Rightarrow> nat \<Rightarrow> nat \<Rightarrow> nat \<Rightarrow> u8 list" where
  "memmove buf dst src len =
     take dst buf @ take len (drop src buf) @ drop (dst + len) buf"

text \<open>Returns the state, and the offset and length of the empty region.\<close>

definition recv_buf_get_empty_buf :: "recv_buf \<Rightarrow> recv_buf \<times> nat \<times> nat" where
  "recv_buf_get_empty_buf b =
     (let b' = (if rb_tail b = RECV_BUF_LEN \<and> rb_head b > 0
                then b\<lparr>rb_buf := memmove (rb_buf b) 0 (rb_head b) (recv_buf_len b),
                       rb_tail := rb_tail b - rb_head b, rb_head := 0\<rparr>
                else b)
      in (b', rb_tail b', RECV_BUF_LEN - rb_tail b'))"

definition recv_buf_added :: "recv_buf \<Rightarrow> nat \<Rightarrow> recv_buf" where
  "recv_buf_added b len = b\<lparr>rb_tail := rb_tail b + len\<rparr>"

definition recv_buf_take :: "recv_buf \<Rightarrow> nat \<Rightarrow> recv_buf" where
  "recv_buf_take b len = b\<lparr>rb_head := rb_head b + len\<rparr>"

text \<open>
  What a client does with the region: \<open>recv\<close> stores bytes at the returned offset, then
  \<open>recv_buf_added\<close> records them (src/sim/debug_skt.c).
\<close>

definition buf_store :: "u8 list \<Rightarrow> nat \<Rightarrow> u8 list \<Rightarrow> u8 list" where
  "buf_store buf off xs = take off buf @ xs @ drop (off + length xs) buf"

definition recv_into :: "recv_buf \<Rightarrow> u8 list \<Rightarrow> recv_buf" where
  "recv_into b xs =
     (let (b', off, _) = recv_buf_get_empty_buf b
      in recv_buf_added (b'\<lparr>rb_buf := buf_store (rb_buf b') off xs\<rparr>) (length xs))"

definition recv_space :: "recv_buf \<Rightarrow> nat" where
  "recv_space b = (case recv_buf_get_empty_buf b of (_, _, len) \<Rightarrow> len)"

lemmas [rb_defs] = recv_buf_init_def recv_buf_len_def memmove_def recv_buf_get_empty_buf_def
  recv_buf_added_def recv_buf_take_def buf_store_def recv_into_def recv_space_def

section \<open>Invariant and abstraction\<close>

definition rb_wf :: "recv_buf \<Rightarrow> bool" where
  "rb_wf b \<longleftrightarrow> rb_head b \<le> rb_tail b \<and> rb_tail b \<le> RECV_BUF_LEN \<and> length (rb_buf b) = RECV_BUF_LEN + 1"

definition rb_contents :: "recv_buf \<Rightarrow> u8 list" where
  "rb_contents b = take (rb_tail b - rb_head b) (drop (rb_head b) (rb_buf b))"

lemma rb_init_wf: "length (rb_buf b) = RECV_BUF_LEN + 1 \<Longrightarrow> rb_wf (recv_buf_init b)"
  by (simp add: rb_wf_def recv_buf_init_def)

lemma rb_init_contents: "rb_contents (recv_buf_init b) = []"
  by (simp add: rb_contents_def recv_buf_init_def)

lemma rb_len_contents: "rb_wf b \<Longrightarrow> recv_buf_len b = length (rb_contents b)"
  by (auto simp: rb_wf_def recv_buf_len_def rb_contents_def)

lemma rb_take_wf: "rb_wf b \<Longrightarrow> len \<le> recv_buf_len b \<Longrightarrow> rb_wf (recv_buf_take b len)"
  by (auto simp: rb_wf_def recv_buf_len_def recv_buf_take_def)

lemma rb_take_contents: "rb_wf b \<Longrightarrow> rb_contents (recv_buf_take b len) = drop len (rb_contents b)"
  by (simp add: rb_contents_def recv_buf_take_def drop_take add.commute)

text \<open>Moving the occupied region to the left changes neither the contents nor the invariant.\<close>

lemma rb_get_empty_buf:
  assumes "rb_wf b" "recv_buf_get_empty_buf b = (b', off, len)"
  shows "rb_wf b'" "rb_contents b' = rb_contents b" "off = rb_tail b'" "off + len = RECV_BUF_LEN"
  using assms
  by (auto simp: rb_wf_def rb_contents_def rb_defs RECV_BUF_LEN_def Let_def split: if_splits)

lemma rb_store:
  assumes "rb_wf b" "rb_tail b + length xs \<le> RECV_BUF_LEN"
  shows "rb_wf (recv_buf_added (b\<lparr>rb_buf := buf_store (rb_buf b) (rb_tail b) xs\<rparr>) (length xs))"
    and "rb_contents (recv_buf_added (b\<lparr>rb_buf := buf_store (rb_buf b) (rb_tail b) xs\<rparr>) (length xs))
       = rb_contents b @ xs"
proof -
  have "rb_tail b + length xs - rb_head b = (rb_tail b - rb_head b) + length xs"
    using assms by (auto simp: rb_wf_def)
  then show "rb_contents (recv_buf_added (b\<lparr>rb_buf := buf_store (rb_buf b) (rb_tail b) xs\<rparr>) (length xs))
       = rb_contents b @ xs"
    using assms by (auto simp: rb_wf_def rb_contents_def recv_buf_added_def buf_store_def drop_take)
qed (use assms in \<open>auto simp: rb_wf_def recv_buf_added_def buf_store_def\<close>)

lemma recv_into:
  assumes "rb_wf b" "length xs \<le> recv_space b"
  shows "rb_wf (recv_into b xs)" "rb_contents (recv_into b xs) = rb_contents b @ xs"
proof -
  obtain b' off len where e: "recv_buf_get_empty_buf b = (b', off, len)"
    by (cases "recv_buf_get_empty_buf b") auto
  note g = rb_get_empty_buf [OF assms(1) e]
  have "rb_tail b' + length xs \<le> RECV_BUF_LEN"
    using assms(2) g(3,4) e by (simp add: recv_space_def)
  from rb_store [OF g(1) this] g show "rb_wf (recv_into b xs)"
    "rb_contents (recv_into b xs) = rb_contents b @ xs"
    by (simp_all add: recv_into_def e)
qed

text \<open>
  Space is only refused when the buffer is really full: as long as fewer than 1024 bytes are
  held there is room for at least one more.
\<close>

lemma recv_space_pos: "rb_wf b \<Longrightarrow> length (rb_contents b) < RECV_BUF_LEN \<Longrightarrow> 0 < recv_space b"
  by (auto simp: rb_wf_def rb_contents_def recv_space_def recv_buf_get_empty_buf_def Let_def)

section \<open>The queue contract\<close>

locale byte_queue =
  fixes contents :: "'q \<Rightarrow> u8 list"
    and put :: "'q \<Rightarrow> u8 list \<Rightarrow> 'q"
    and take_front :: "'q \<Rightarrow> nat \<Rightarrow> 'q"
    and space :: "'q \<Rightarrow> nat"
    and inv :: "'q \<Rightarrow> bool"
    and capacity :: nat
  assumes contents_put: "inv q \<Longrightarrow> length xs \<le> space q \<Longrightarrow> contents (put q xs) = contents q @ xs"
    and contents_take: "inv q \<Longrightarrow> n \<le> length (contents q) \<Longrightarrow> contents (take_front q n) = drop n (contents q)"
    and inv_put: "inv q \<Longrightarrow> length xs \<le> space q \<Longrightarrow> inv (put q xs)"
    and inv_take: "inv q \<Longrightarrow> n \<le> length (contents q) \<Longrightarrow> inv (take_front q n)"
    and space_pos: "inv q \<Longrightarrow> length (contents q) < capacity \<Longrightarrow> 0 < space q"
begin

lemma put_then_take:
  assumes "inv q" "length xs \<le> space q" "n \<le> length (contents q)"
  shows "contents (take_front (put q xs) n) = drop n (contents q) @ xs"
  using assms by (simp add: contents_take inv_put contents_put)

lemma fifo:
  assumes "inv q" "length xs \<le> space q"
  shows "contents (take_front (put q xs) (length (contents q))) = xs"
  using assms by (simp add: put_then_take)

end

interpretation rbq: byte_queue rb_contents recv_into recv_buf_take recv_space rb_wf RECV_BUF_LEN
  by unfold_locales
    (simp_all add: recv_into rb_take_contents rb_take_wf rb_len_contents recv_space_pos)

section \<open>Properties\<close>

text \<open>A run of the buffer: bytes arrive from the socket, and messages are taken from the front.\<close>

datatype rb_event = Received "u8 list" | Taken nat

fun rb_step :: "recv_buf \<Rightarrow> rb_event \<Rightarrow> recv_buf option" where
  "rb_step b (Received xs) = (if length xs \<le> recv_space b then Some (recv_into b xs) else None)"
| "rb_step b (Taken n) = (if n \<le> recv_buf_len b then Some (recv_buf_take b n) else None)"

fun rb_run :: "recv_buf \<Rightarrow> rb_event list \<Rightarrow> recv_buf option" where
  "rb_run b [] = Some b"
| "rb_run b (e # es) = (case rb_step b e of None \<Rightarrow> None | Some b' \<Rightarrow> rb_run b' es)"

fun stream_step :: "u8 list \<Rightarrow> rb_event \<Rightarrow> u8 list" where
  "stream_step xs (Received ys) = xs @ ys"
| "stream_step xs (Taken n) = drop n xs"

lemma rb_step_refines:
  "rb_wf b \<Longrightarrow> rb_step b e = Some b' \<Longrightarrow> rb_wf b' \<and> rb_contents b' = stream_step (rb_contents b) e"
  by (cases e) (auto simp: recv_into rb_take_wf rb_take_contents split: if_splits)

lemma rb_run_refines:
  "rb_wf b \<Longrightarrow> rb_run b es = Some b' \<Longrightarrow> rb_wf b' \<and> rb_contents b' = foldl stream_step (rb_contents b) es"
proof (induction es arbitrary: b)
  case (Cons e es)
  then obtain b1 where "rb_step b e = Some b1" "rb_run b1 es = Some b'" by (auto split: option.splits)
  with Cons.IH [of b1] Cons.prems show ?case using rb_step_refines [of b e b1] by simp
qed simp

text \<open>
  through any run of receptions and removals from an initialised buffer, the contiguous region
  the parser sees is the byte stream itself, the invariant holds, and there is room for another byte
  whenever fewer than 1024 are held, although bytes are moved to the left on the way.
\<close>

theorem recv_buf_is_stream:
  assumes "length (rb_buf b) = RECV_BUF_LEN + 1" "rb_run (recv_buf_init b) es = Some b'"
  shows "rb_wf b' \<and> rb_contents b' = foldl stream_step [] es \<and>
    (length (rb_contents b') < RECV_BUF_LEN \<longrightarrow> 0 < recv_space b')"
  using rb_run_refines [OF rb_init_wf [OF assms(1)] assms(2)] recv_space_pos by (simp add: rb_init_contents)

theorem recv_buf_is_stream_witness:
  "\<exists>b'. rb_run (recv_buf_init \<lparr>rb_head = 5, rb_tail = 9, rb_buf = replicate 1025 0\<rparr>) [Received [1, 2, 3], Taken 2] = Some b' \<and>
     rb_contents b' = [3]"
proof -
  let ?b = "\<lparr>rb_head = 5, rb_tail = 9, rb_buf = replicate 1025 0\<rparr>"
  have "\<exists>b'. rb_run (recv_buf_init ?b) [Received [1, 2, 3], Taken 2] = Some b'"
    by (simp add: rb_defs RECV_BUF_LEN_def Let_def)
  then obtain b' where b': "rb_run (recv_buf_init ?b) [Received [1, 2, 3], Taken 2] = Some b'" by blast
  with recv_buf_is_stream [OF _ b'] show ?thesis by (simp add: RECV_BUF_LEN_def del: rb_run.simps)
qed

end
