(* ===== verification/Debug_Plan.thy ===== *)
theory Debug_Plan
  imports Prelude
begin

text \<open>
  Debug plans (src/sim/debug_plan.c and debug_plan.h): sequences of debug requests that read or
  write all CPU registers or a block of memory. A plan is a state machine whose step takes the
  reply to the previous request and gives the next one. The register array or word buffer that
  the plan's pointer refers to is passed and returned as \<open>arr\<close>; a pointer is an offset into it.
\<close>

section \<open>Requests, replies and registers\<close>

datatype debug_cmd = DBG_CMD_BREAK | DBG_CMD_STEP | DBG_CMD_INSERT | DBG_CMD_CONTINUE

record debug_request =
  req_cmd :: debug_cmd
  req_instr :: u16
  req_data :: u32
  req_data_en :: int

type_synonym debug_reply = u32

definition REG_R0 :: nat where "REG_R0 = 0"
definition REG_PC :: nat where "REG_PC = 16"
definition REG_PR :: nat where "REG_PR = 17"
definition REG_GBR :: nat where "REG_GBR = 18"
definition REG_VBR :: nat where "REG_VBR = 19"
definition REG_MACH :: nat where "REG_MACH = 20"
definition REG_MACL :: nat where "REG_MACL = 21"
definition REG_SR :: nat where "REG_SR = 22"
definition REG_NUM_REGS :: nat where "REG_NUM_REGS = 23"

lemmas reg_ids = REG_R0_def REG_PC_def REG_PR_def REG_GBR_def REG_VBR_def REG_MACH_def
  REG_MACL_def REG_SR_def REG_NUM_REGS_def

text \<open>A request that inserts an instruction, with or without data driven by the debugger.\<close>

definition insert_instr :: "u16 \<Rightarrow> debug_request" where
  "insert_instr ir = \<lparr>req_cmd = DBG_CMD_INSERT, req_instr = ir, req_data = 0, req_data_en = 0\<rparr>"

definition insert_with_data :: "u16 \<Rightarrow> u32 \<Rightarrow> debug_request" where
  "insert_with_data ir d = \<lparr>req_cmd = DBG_CMD_INSERT, req_instr = ir, req_data = d, req_data_en = 1\<rparr>"

section \<open>Plan state\<close>

record debug_plan_mem =
  pm_i :: int
  pm_num_words :: int
  pm_addr :: u32
  pm_buf :: "int option"
  pm_r0 :: u32

datatype debug_plan =
    RegsRead int
  | RegsWrite int
  | MemRead debug_plan_mem
  | MemWrite debug_plan_mem

text \<open>A step gives the return value, the plan, the array and the request; \<open>None\<close> is an access
  outside the caller's array.\<close>

type_synonym plan_result = "(int \<times> debug_plan \<times> u32 list \<times> debug_request) option"

section \<open>Steps\<close>

definition regs_read_store :: "int \<Rightarrow> u32 list \<Rightarrow> u32 \<Rightarrow> u32 list" where
  "regs_read_store i regs rep =
     (if 6 \<le> i \<and> i < 22 then regs[nat (i - 6) := rep]
      else if i = 22 then regs[REG_SR := rep]
      else if i = 23 then regs[REG_GBR := rep]
      else if i = 24 then regs[REG_VBR := rep]
      else if i = 25 then regs[REG_MACH := rep]
      else if i = 26 then regs[REG_MACL := rep]
      else if i = 27 then regs[REG_PR := rep]
      else if i = 32 then regs[REG_PC := rep]
      else regs)"

definition regs_read_next :: "int \<Rightarrow> u32 list \<Rightarrow> u32 \<Rightarrow> plan_result" where
  "regs_read_next i regs0 rep =
     (if length regs0 < REG_NUM_REGS then None else
      let regs = regs_read_store i regs0 rep;
          more = (\<lambda>req. Some (1, RegsRead (i + 1), regs, req))
      in if i < 16 then more (insert_instr (0x6003 OR push_bit 8 (of_int i) OR push_bit 4 (of_int i)))
         else if i < 19 then more (insert_instr (0x0002 OR push_bit 4 (of_int (i - 16))))
         else if i < 22 then more (insert_instr (0x000A OR push_bit 4 (of_int (i - 19))))
         else if i < 25 then more (insert_instr 0x0009)
         else if i \<le> 36 then
           (if i = 25 then more (insert_instr 0xE000)
            else if i = 26 then more (insert_instr 0x400B)
            else if i = 27 then more (insert_instr 0x002A)
            else if i = 28 then more (insert_instr 0x000B)
            else if i = 29 then more (insert_with_data 0x6003 (regs ! REG_PR))
            else if i = 30 then more (insert_instr 0x402A)
            else if i = 31 then more (insert_with_data 0x6003 (regs ! REG_R0))
            else if i = 36 then Some (0, RegsRead i, regs, insert_instr 0x0009)
            else more (insert_instr 0x0009))
         else more (insert_instr 0x0009))"

definition regs_write_request :: "int \<Rightarrow> u32 list \<Rightarrow> debug_request" where
  "regs_write_request i regs =
     (if 9 \<le> i \<and> i < 25 then
        insert_with_data (0x6003 OR push_bit 8 (of_int (i - 9)) OR push_bit 4 (of_int (i - 9)))
          (regs ! nat (i - 9))
      else if i = 0 then insert_with_data 0x402a (regs ! REG_PC)
      else if i = 1 then insert_instr 0x000B
      else if i = 2 then insert_instr 0x0009
      else if i = 3 then insert_with_data 0x400a (regs ! REG_MACH)
      else if i = 4 then insert_with_data 0x401a (regs ! REG_MACL)
      else if i = 5 then insert_with_data 0x402a (regs ! REG_PR)
      else if i = 6 then insert_with_data 0x400e (regs ! REG_SR)
      else if i = 7 then insert_with_data 0x401e (regs ! REG_GBR)
      else if i = 8 then insert_with_data 0x402e (regs ! REG_VBR)
      else insert_instr 0x0009)"

definition regs_write_next :: "int \<Rightarrow> u32 list \<Rightarrow> u32 \<Rightarrow> plan_result" where
  "regs_write_next i regs rep =
     (if length regs < REG_NUM_REGS then None
      else if i = 26 then Some (0, RegsWrite i, regs, regs_write_request i regs)
      else Some (1, RegsWrite (i + 1), regs, regs_write_request i regs))"

definition mem_read_copy :: "debug_plan_mem \<Rightarrow> u32 list \<Rightarrow> u32 \<Rightarrow> (debug_plan_mem \<times> u32 list) option" where
  "mem_read_copy mem arr rep =
     (if pm_i mem \<ge> 6 then
        (case pm_buf mem of
           Some p \<Rightarrow> (if 0 \<le> p \<and> p < int (length arr)
                      then Some (mem\<lparr>pm_buf := Some (p + 1)\<rparr>, arr[nat p := rep]) else None)
         | None \<Rightarrow> Some (mem, arr))
      else Some (mem, arr))"

definition pm_advance :: "debug_plan_mem \<Rightarrow> debug_plan_mem" where
  "pm_advance mem = mem\<lparr>pm_i := pm_i mem + 1, pm_num_words := pm_num_words mem - 1\<rparr>"

definition mem_read_next :: "debug_plan_mem \<Rightarrow> u32 list \<Rightarrow> u32 \<Rightarrow> plan_result" where
  "mem_read_next mem0 arr0 rep =
     (case mem_read_copy mem0 arr0 rep of
        None \<Rightarrow> None
      | Some (mem, arr) \<Rightarrow>
          (if pm_num_words mem > 0 then
             Some (1, MemRead (pm_advance (mem\<lparr>pm_addr := pm_addr mem + 4\<rparr>)), arr,
                   insert_with_data 0x6012 (pm_addr mem))
           else if pm_num_words mem = -2 then
             Some (1, MemRead (pm_advance mem), arr, insert_with_data 0x6003 (pm_r0 mem))
           else if pm_num_words mem = -5 then
             Some (0, MemRead mem, arr, insert_instr 0x0009)
           else Some (1, MemRead (pm_advance mem), arr, insert_instr 0x0009)))"

definition mem_write_next :: "debug_plan_mem \<Rightarrow> u32 list \<Rightarrow> u32 \<Rightarrow> plan_result" where
  "mem_write_next mem arr rep =
     (if pm_i mem = 0 then
        Some (1, MemWrite (pm_advance mem), arr, insert_with_data 0x6003 (pm_addr mem))
      else if pm_num_words mem \<ge> 0 then
        (case pm_buf mem of
           Some p \<Rightarrow> (if 0 \<le> p \<and> p < int (length arr)
                      then Some (1, MemWrite (pm_advance (mem\<lparr>pm_buf := Some (p - 1)\<rparr>)), arr,
                                 insert_with_data 0x2016 (arr ! nat p))
                      else None)
         | None \<Rightarrow> None)
      else if pm_num_words mem = -1 then
        Some (1, MemWrite (pm_advance mem), arr, insert_with_data 0x6003 (pm_r0 mem))
      else if pm_num_words mem = -3 then
        Some (0, MemWrite mem, arr, insert_instr 0x0009)
      else Some (1, MemWrite (pm_advance mem), arr, insert_instr 0x0009))"

section \<open>Plan construction and dispatch\<close>

definition debug_plan_init_regs_read :: debug_plan where
  "debug_plan_init_regs_read = RegsRead 0"

definition debug_plan_init_regs_write :: debug_plan where
  "debug_plan_init_regs_write = RegsWrite 0"

definition debug_plan_init_mem_read :: "u32 \<Rightarrow> u32 \<Rightarrow> int option \<Rightarrow> u32 \<Rightarrow> debug_plan" where
  "debug_plan_init_mem_read addr num_words buf r0 =
     MemRead \<lparr>pm_i = 0, pm_num_words = sint num_words, pm_addr = addr, pm_buf = buf, pm_r0 = r0\<rparr>"

definition debug_plan_init_mem_write :: "u32 \<Rightarrow> u32 \<Rightarrow> int \<Rightarrow> u32 \<Rightarrow> debug_plan" where
  "debug_plan_init_mem_write addr num_words buf r0 =
     MemWrite \<lparr>pm_i = 0, pm_num_words = sint num_words, pm_addr = addr + num_words * 4,
               pm_buf = Some (buf + uint num_words - 1), pm_r0 = r0\<rparr>"

fun debug_plan_next :: "debug_plan \<Rightarrow> u32 list \<Rightarrow> debug_reply \<Rightarrow> plan_result" where
  "debug_plan_next (RegsRead i) arr rep = regs_read_next i arr rep"
| "debug_plan_next (RegsWrite i) arr rep = regs_write_next i arr rep"
| "debug_plan_next (MemRead m) arr rep = mem_read_next m arr rep"
| "debug_plan_next (MemWrite m) arr rep = mem_write_next m arr rep"

lemmas [plan_defs] = regs_read_store_def regs_read_next_def regs_write_request_def
  regs_write_next_def mem_read_copy_def mem_read_next_def mem_write_next_def pm_advance_def
  debug_plan_init_regs_read_def debug_plan_init_regs_write_def debug_plan_init_mem_read_def
  debug_plan_init_mem_write_def

text \<open>
  Running a plan against the successive replies, as debug_rdy in cpu_ctb.c does: the requests
  issued, the array at the end and the replies not consumed. \<open>None\<close> if the replies run out before
  the plan returns 0, or on an access outside the array.
\<close>

fun plan_exec :: "debug_plan \<Rightarrow> u32 list \<Rightarrow> debug_reply list \<Rightarrow>
    (debug_request list \<times> u32 list \<times> debug_reply list) option" where
  "plan_exec p arr [] = None"
| "plan_exec p arr (r # rs) =
     (case debug_plan_next p arr r of
        None \<Rightarrow> None
      | Some (ret, p', arr', q) \<Rightarrow>
          (if ret = 0 then Some ([q], arr', rs)
           else map_option (\<lambda>(qs, a, rest). (q # qs, a, rest)) (plan_exec p' arr' rs)))"

section \<open>Memory plans\<close>

definition array_write :: "'a list \<Rightarrow> nat \<Rightarrow> 'a list \<Rightarrow> 'a list" where
  "array_write m off xs = take off m @ xs @ drop (off + length xs) m"

lemma array_write_Nil [simp]: "array_write m off [] = m"
  by (simp add: array_write_def)

lemma array_write_Cons:
  "off < length m \<Longrightarrow> array_write m off (x # xs) = array_write (m[off := x]) (Suc off) xs"
  by (simp add: array_write_def take_Suc_conv_app_nth)

lemma array_write_in: "off + length xs \<le> length m \<Longrightarrow> k < length xs \<Longrightarrow> array_write m off xs ! (off + k) = xs ! k"
  by (simp add: array_write_def nth_append)

lemma length_array_write [simp]: "off + length xs \<le> length m \<Longrightarrow> length (array_write m off xs) = length m"
  by (simp add: array_write_def)

definition mem_read_request :: "u32 \<Rightarrow> u32 \<Rightarrow> nat \<Rightarrow> nat \<Rightarrow> debug_request" where
  "mem_read_request addr r0 n i =
     (if i < n then insert_with_data 0x6012 (addr + 4 * of_nat i)
      else if i = n + 2 then insert_with_data 0x6003 r0
      else insert_instr 0x0009)"

definition mem_write_plan_request :: "u32 \<Rightarrow> u32 \<Rightarrow> u32 list \<Rightarrow> nat \<Rightarrow> debug_request" where
  "mem_write_plan_request addr r0 ws i =
     (let n = length ws in
      if i = 0 then insert_with_data 0x6003 (addr + 4 * of_nat n)
      else if i \<le> n then insert_with_data 0x2016 (ws ! (n - i))
      else if i = n + 1 then insert_with_data 0x6003 r0
      else insert_instr 0x0009)"

definition read_state :: "u32 \<Rightarrow> u32 \<Rightarrow> nat \<Rightarrow> nat \<Rightarrow> nat \<Rightarrow> debug_plan_mem" where
  "read_state addr r0 off n i =
     \<lparr>pm_i = int i, pm_num_words = int n - int i, pm_addr = addr + 4 * of_nat (min i n),
      pm_buf = Some (int (off + (i - 6))), pm_r0 = r0\<rparr>"

lemma mem_read_step:
  assumes "i < n + 6" "off + n \<le> length arr"
  shows "mem_read_next (read_state addr r0 off n i) arr rep =
    Some (if i = n + 5 then 0 else 1,
          MemRead (if i = n + 5
             then (read_state addr r0 off n i)\<lparr>pm_buf := Some (int (off + (Suc i - 6)))\<rparr>
             else read_state addr r0 off n (Suc i)),
          if 6 \<le> i then arr[off + (i - 6) := rep] else arr, mem_read_request addr r0 n i)"
proof -
  have b: "off + (i - 6) < length arr" if "6 \<le> i" using assms that by linarith
  have s: "Suc i - 6 = Suc (i - 6)" if "6 \<le> i" using that by simp
  have t: "nat (int i + int off - 6) = i + off - 6" by arith
  show ?thesis
    using assms(1) b s t
    by (auto simp: mem_read_next_def mem_read_copy_def read_state_def pm_advance_def
        mem_read_request_def min_def algebra_simps nat_int_add)
qed

lemma mem_read_exec:
  assumes "length rs = n + 6 - i" "i < n + 6" "off + n \<le> length arr"
  shows "plan_exec (MemRead (read_state addr r0 off n i)) arr rs =
    Some (map (mem_read_request addr r0 n) [i..<n + 6],
          array_write arr (off + (i - 6)) (drop (6 - i) rs), [])"
  using assms
proof (induction rs arbitrary: i arr)
  case Nil
  then show ?case by simp
next
  case (Cons r rs)
  show ?case
  proof (cases "i = n + 5")
    case True
    with Cons.prems show ?thesis
      by (cases "6 \<le> i") (auto simp: mem_read_step array_write_Cons upt_rec [of "n + 5"])
  next
    case False
    let ?arr = "if 6 \<le> i then arr[off + (i - 6) := r] else arr"
    have IH: "plan_exec (MemRead (read_state addr r0 off n (Suc i))) ?arr rs =
      Some (map (mem_read_request addr r0 n) [Suc i..<n + 6],
            array_write ?arr (off + (Suc i - 6)) (drop (6 - Suc i) rs), [])"
      using Cons.prems False by (intro Cons.IH) auto
    have "array_write ?arr (off + (Suc i - 6)) (drop (6 - Suc i) rs) =
      array_write arr (off + (i - 6)) (drop (6 - i) (r # rs))"
    proof (cases "6 \<le> i")
      case True
      then obtain k where "i = 6 + k" using le_Suc_ex by blast
      moreover with Cons.prems have "off + k < length arr" by linarith
      ultimately show ?thesis by (simp add: array_write_Cons)
    next
      case False
      then have "6 - i = Suc (6 - Suc i)" by linarith
      with False show ?thesis by simp
    qed
    with IH False Cons.prems show ?thesis
      by (simp add: mem_read_step upt_conv_Cons)
  qed
qed

definition write_state :: "u32 \<Rightarrow> u32 \<Rightarrow> nat \<Rightarrow> nat \<Rightarrow> nat \<Rightarrow> debug_plan_mem" where
  "write_state addr r0 off n i =
     \<lparr>pm_i = int i, pm_num_words = int n - int i, pm_addr = addr + 4 * of_nat n,
      pm_buf = Some (int off + int n - 1 - (if i = 0 then 0 else int (min (i - 1) n))), pm_r0 = r0\<rparr>"

lemma mem_write_step:
  assumes "i < n + 4" "off + n \<le> length arr"
  shows "mem_write_next (write_state addr r0 off n i) arr rep =
    Some (if i = n + 3 then 0 else 1,
          MemWrite (write_state addr r0 off n (if i = n + 3 then i else Suc i)), arr,
          mem_write_plan_request addr r0 (take n (drop off arr)) i)"
proof -
  have t: "nat (int n + int off - int i) = n + off - i" if "i \<le> n" using that by arith
  have u: "off + (n - i) = n + off - i" if "i \<le> n" using that by arith
  define ws where "ws = take n (drop off arr)"
  have ws: "length ws = n" "\<And>k. k < n \<Longrightarrow> ws ! k = arr ! (off + k)"
    using assms(2) by (auto simp: ws_def)
  consider "i = 0" | "0 < i" "i \<le> n" | "i = n + 1" | "i = n + 2" | "i = n + 3"
    using assms(1) by linarith
  then show ?thesis
    unfolding ws_def [symmetric] using assms t u ws
    by cases (auto simp: mem_write_next_def write_state_def pm_advance_def
        mem_write_plan_request_def min_def algebra_simps)
qed

lemma mem_write_exec:
  assumes "length rs = n + 4 - i" "i < n + 4" "off + n \<le> length arr"
  shows "plan_exec (MemWrite (write_state addr r0 off n i)) arr rs =
    Some (map (mem_write_plan_request addr r0 (take n (drop off arr))) [i..<n + 4], arr, [])"
  using assms
proof (induction rs arbitrary: i)
  case Nil
  then show ?case by simp
next
  case (Cons r rs)
  show ?case
  proof (cases "i = n + 3")
    case True
    with Cons.prems show ?thesis by (simp add: mem_write_step upt_rec [of "n + 3"])
  next
    case False
    with Cons.prems have IH: "plan_exec (MemWrite (write_state addr r0 off n (Suc i))) arr rs =
      Some (map (mem_write_plan_request addr r0 (take n (drop off arr))) [Suc i..<n + 4], arr, [])"
      by (intro Cons.IH) auto
    from IH False Cons.prems show ?thesis by (simp add: mem_write_step upt_conv_Cons)
  qed
qed

section \<open>What the CPU does with the requests\<close>

text \<open>
  The effect of the inserted instructions as the comments of debug_plan.c state it: with
  \<open>data_en\<close> set the debugger drives the source operand. \<open>MOV R0,R0\<close> loads R0 with the data,
  \<open>MOV.L @R1,R0\<close> loads R0 with the word at the address given as data,
  \<open>MOV.L R1,@-R0\<close> stores the data below R0, the \<open>LDS\<close>, \<open>LDC\<close> and \<open>MOV Ri,Ri\<close> forms load a
  register, and \<open>RTS\<close> moves PR to PC.
\<close>

record plan_cpu =
  pc_regs :: "u32 list"
  pc_mem :: "u32 \<Rightarrow> u32"

definition plan_cpu_step :: "debug_request \<Rightarrow> plan_cpu \<Rightarrow> plan_cpu" where
  "plan_cpu_step q c =
     (let ir = req_instr q; d = req_data q;
          rn = unat (drop_bit 8 ir AND 0xF); rm = unat (drop_bit 4 ir AND 0xF);
          src = (\<lambda>k. if req_data_en q \<noteq> 0 then d else pc_regs c ! k);
          set_reg = (\<lambda>k v. c\<lparr>pc_regs := (pc_regs c)[k := v]\<rparr>)
      in if ir AND 0xF00F = 0x6003 then set_reg rn (src rm)
         else if ir AND 0xF00F = 0x6002 then set_reg rn (pc_mem c (src rm))
         else if ir AND 0xF00F = 0x2006 then
           (let a = pc_regs c ! rn - 4
            in c\<lparr>pc_regs := (pc_regs c)[rn := a], pc_mem := (pc_mem c)(a := src rm)\<rparr>)
         else if ir AND 0xF0FF = 0x402A then set_reg REG_PR (src rn)
         else if ir AND 0xF0FF = 0x400A then set_reg REG_MACH (src rn)
         else if ir AND 0xF0FF = 0x401A then set_reg REG_MACL (src rn)
         else if ir AND 0xF0FF = 0x400E then set_reg REG_SR (src rn)
         else if ir AND 0xF0FF = 0x401E then set_reg REG_GBR (src rn)
         else if ir AND 0xF0FF = 0x402E then set_reg REG_VBR (src rn)
         else if ir = 0x000B then set_reg REG_PC (pc_regs c ! REG_PR)
         else c)"

lemma plan_cpu_simps [simp]:
  "plan_cpu_step (insert_with_data 0x6003 d) c = c\<lparr>pc_regs := (pc_regs c)[0 := d]\<rparr>"
  "plan_cpu_step (insert_with_data 0x6012 d) c = c\<lparr>pc_regs := (pc_regs c)[0 := pc_mem c d]\<rparr>"
  "plan_cpu_step (insert_with_data 0x2016 d) c =
     c\<lparr>pc_regs := (pc_regs c)[0 := pc_regs c ! 0 - 4], pc_mem := (pc_mem c)(pc_regs c ! 0 - 4 := d)\<rparr>"
  "plan_cpu_step (insert_instr 0x0009) c = c"
  by (simp_all add: plan_cpu_step_def insert_with_data_def insert_instr_def Let_def)

text \<open>The stores of a write plan, last word first, walk R0 down to the start address.\<close>

lemma plan_stores:
  assumes "0 < length (pc_regs c)" "pc_regs c ! 0 = a + 4 * of_nat (length ws)"
  shows "fold plan_cpu_step (map (insert_with_data 0x2016) (rev ws)) c =
     c\<lparr>pc_regs := (pc_regs c)[0 := a],
        pc_mem := fold (\<lambda>k m. m(a + 4 * of_nat k := ws ! k)) (rev [0..<length ws]) (pc_mem c)\<rparr>"
  using assms
proof (induction ws arbitrary: c rule: rev_induct)
  case Nil
  then have "(pc_regs c)[0 := a] = pc_regs c" by auto
  then show ?case by simp
next
  case (snoc w ws)
  let ?a = "a + 4 * of_nat (length ws)"
  let ?c = "c\<lparr>pc_regs := (pc_regs c)[0 := ?a], pc_mem := (pc_mem c)(?a := w)\<rparr>"
  have step: "plan_cpu_step (insert_with_data 0x2016 w) c = ?c"
    using snoc.prems by (simp add: algebra_simps)
  have IH: "fold plan_cpu_step (map (insert_with_data 0x2016) (rev ws)) ?c =
     ?c\<lparr>pc_regs := (pc_regs ?c)[0 := a],
        pc_mem := fold (\<lambda>k m. m(a + 4 * of_nat k := ws ! k)) (rev [0..<length ws]) (pc_mem ?c)\<rparr>"
    using snoc.prems by (intro snoc.IH) simp_all
  let ?upd = "\<lambda>ws k m. m(a + 4 * of_nat k := ws ! k)"
  have upd: "fold (?upd ws) (rev [0..<length ws]) m = fold (?upd (ws @ [w])) (rev [0..<length ws]) m"
    for m :: "u32 \<Rightarrow> u32"
    by (rule fold_cong) (simp_all add: nth_append)
  have last: "fold (?upd (ws @ [w])) (rev [0..<length (ws @ [w])]) m =
      fold (?upd (ws @ [w])) (rev [0..<length ws]) (m(?a := w))" for m :: "u32 \<Rightarrow> u32"
    by simp
  have "fold plan_cpu_step (map (insert_with_data 0x2016) (rev (ws @ [w]))) c =
      fold plan_cpu_step (map (insert_with_data 0x2016) (rev ws)) ?c"
    using step by (simp del: plan_cpu_simps)
  then show ?case
    unfolding IH last upd by simp
qed

lemma mem_write_requests:
  "map (mem_write_plan_request addr r0 ws) [0..<length ws + 4] =
   insert_with_data 0x6003 (addr + 4 * of_nat (length ws)) # map (insert_with_data 0x2016) (rev ws) @
   [insert_with_data 0x6003 r0, insert_instr 0x0009, insert_instr 0x0009]"
proof (rule nth_equalityI)
  fix i assume "i < length (map (mem_write_plan_request addr r0 ws) [0..<length ws + 4])"
  then consider "i = 0" | j where "i = Suc j" "j < length ws" | "i = length ws + 1"
    | "i = length ws + 2" | "i = length ws + 3"
    by (cases i) fastforce+
  then show "map (mem_write_plan_request addr r0 ws) [0..<length ws + 4] ! i =
    (insert_with_data 0x6003 (addr + 4 * of_nat (length ws)) # map (insert_with_data 0x2016) (rev ws) @
      [insert_with_data 0x6003 r0, insert_instr 0x0009, insert_instr 0x0009]) ! i"
    by cases (auto simp: mem_write_plan_request_def nth_append rev_nth)
qed simp

lemma sint_of_nat_u32: "n < 2 ^ 31 \<Longrightarrow> sint (of_nat n :: u32) = int n"
  by (simp add: signed_of_nat signed_take_bit_int_eq_self_iff signed_take_bit_int_eq_self)

lemma uint_of_nat_u32: "n < 2 ^ 32 \<Longrightarrow> uint (of_nat n :: u32) = int n"
  by (simp add: unsigned_of_nat take_bit_nat_eq_self)

lemma write_plan_init:
  "n < 2 ^ 31 \<Longrightarrow> debug_plan_init_mem_write addr (of_nat n) (int off) r0 =
     MemWrite (write_state addr r0 off n 0)"
  by (simp add: debug_plan_init_mem_write_def write_state_def sint_of_nat_u32 uint_of_nat_u32)

lemma read_plan_init:
  "n < 2 ^ 31 \<Longrightarrow> debug_plan_init_mem_read addr (of_nat n) (Some (int off)) r0 =
     MemRead (read_state addr r0 off n 0)"
  by (simp add: debug_plan_init_mem_read_def read_state_def sint_of_nat_u32)

section \<open>Properties of the plans\<close>

lemma upt_from_0: "2 < n \<Longrightarrow> [0..<n] = 0 # 1 # [2..<n]"
  by (simp add: upt_conv_Cons numeral_2_eq_2)

text \<open>
  The values that a CPU writes back: the reply to a request carries the value that its instruction
  writes to a register, and comes with the sixth request after it (\<open>regs_read_next\<close> and
  \<open>mem_read_next\<close> store what comes six requests later). Here the requests are those that load R0.
\<close>

definition written_back :: "debug_request list \<Rightarrow> plan_cpu \<Rightarrow> nat \<Rightarrow> u32" where
  "written_back qs c k = pc_regs (fold plan_cpu_step (take (Suc k) qs) c) ! REG_R0"

definition replies_late :: "debug_request list \<Rightarrow> plan_cpu \<Rightarrow> nat \<Rightarrow> debug_reply list \<Rightarrow> bool" where
  "replies_late qs c n rs \<longleftrightarrow> (\<forall>k<n. rs ! (k + 6) = written_back qs c k)"

lemma plan_loads:
  "fold plan_cpu_step (map (\<lambda>i. insert_with_data 0x6012 (f i)) [0..<n]) c =
   (if n = 0 then c else c\<lparr>pc_regs := (pc_regs c)[0 := pc_mem c (f (n - 1))]\<rparr>)"
  by (induction n) auto

text \<open>
  C22: reading memory. The plan for \<open>n\<close> words issues \<open>n\<close> loads \<open>MOV.L @R1,R0\<close> at consecutive
  word addresses and the restoring of R0, and finishes after exactly \<open>n + 6\<close> requests. Executing them leaves
  the CPU as it was, memory and all, but for R0, which gets the value the plan was given for it. The buffer then
  holds the last \<open>n\<close> replies, in order, and nothing else of it has changed: when each reply carries what the
  instruction six requests earlier wrote to R0, these are the words of the memory at the addresses from \<open>addr\<close> on.
\<close>

theorem mem_read_plan:
  assumes n: "n < 2 ^ 31" and rs: "length rs = n + 6" and arr: "off + n \<le> length arr" and c: "0 < length (pc_regs c)"
  shows "\<exists>qs. plan_exec (debug_plan_init_mem_read addr (of_nat n) (Some (int off)) r0) arr rs =
      Some (qs, array_write arr off (drop 6 rs), []) \<and>
    qs = map (\<lambda>i. insert_with_data 0x6012 (addr + 4 * of_nat i)) [0..<n] @
      [insert_instr 0x0009, insert_instr 0x0009, insert_with_data 0x6003 r0, insert_instr 0x0009, insert_instr 0x0009, insert_instr 0x0009] \<and>
    fold plan_cpu_step qs c = c\<lparr>pc_regs := (pc_regs c)[REG_R0 := r0]\<rparr> \<and>
    (replies_late qs c n rs \<longrightarrow> drop 6 rs = map (\<lambda>k. pc_mem c (addr + 4 * of_nat k)) [0..<n])"
proof (intro exI conjI impI)
  let ?loads = "map (\<lambda>i. insert_with_data 0x6012 (addr + 4 * of_nat i)) [0..<n]"
  let ?qs = "?loads @ [insert_instr 0x0009, insert_instr 0x0009, insert_with_data 0x6003 r0,
    insert_instr 0x0009, insert_instr 0x0009, insert_instr 0x0009]"
  have "[0..<n + 6] = [0..<n] @ [n..<n + 6]"
    using upt_add_eq_append [of 0 n 6] by simp
  moreover have "[n..<n + 6] = [n, n + 1, n + 2, n + 3, n + 4, n + 5]"
    by (simp add: upt_conv_Cons)
  ultimately have "map (mem_read_request addr r0 n) [0..<n + 6] = ?qs" by (simp add: mem_read_request_def)
  then show "plan_exec (debug_plan_init_mem_read addr (of_nat n) (Some (int off)) r0) arr rs = Some (?qs, array_write arr off (drop 6 rs), [])"
    using n rs arr mem_read_exec [of rs n 0 off arr addr r0] by (simp add: read_plan_init)
  show "?qs = ?qs" ..
  show "fold plan_cpu_step ?qs c = c\<lparr>pc_regs := (pc_regs c)[REG_R0 := r0]\<rparr>"
    by (simp add: plan_loads REG_R0_def)
  assume late: "replies_late ?qs c n rs"
  have "written_back ?qs c k = pc_mem c (addr + 4 * of_nat k)" if "k < n" for k
  proof -
    have "take (Suc k) ?qs = map (\<lambda>i. insert_with_data 0x6012 (addr + 4 * of_nat i)) [0..<Suc k]"
      using that by (simp add: take_map take_upt del: upt_Suc)
    then show ?thesis using c plan_loads [of _ "Suc k" c] by (simp add: written_back_def REG_R0_def del: upt_Suc)
  qed
  then show "drop 6 rs = map (\<lambda>k. pc_mem c (addr + 4 * of_nat k)) [0..<n]"
    using late rs by (intro nth_equalityI) (auto simp: replies_late_def add.commute)
qed

theorem mem_read_plan_witness:
  "\<exists>qs. plan_exec (debug_plan_init_mem_read 0x100 1 (Some 0) 7) [0] [1, 2, 3, 4, 5, 6, 0x100] = Some (qs, [0x100], []) \<and>
     fold plan_cpu_step qs \<lparr>pc_regs = [5], pc_mem = (\<lambda>a. a)\<rparr> = \<lparr>pc_regs = [7], pc_mem = (\<lambda>a. a)\<rparr>"
proof -
  let ?c = "\<lparr>pc_regs = [5], pc_mem = (\<lambda>a. a)\<rparr>"
  have "(1 :: nat) < 2 ^ 31" "length [1, 2, 3, 4, 5, 6, 0x100 :: u32] = 1 + 6" "(0 :: nat) + 1 \<le> length [0 :: u32]" "0 < length (pc_regs ?c)"
    by simp_all
  from mem_read_plan [OF this, of "0x100" 7] show ?thesis
    by (auto simp: array_write_def REG_R0_def)
qed

text \<open>
  C4: writing memory. Executing the requests of the plan for the words \<open>ws\<close> leaves \<open>ws\<close> at
  consecutive word addresses from \<open>addr\<close>, changes no other word, and ends with R0 restored; the
  plan finishes after \<open>length ws + 4\<close> requests and only reads the caller's buffer.
\<close>

theorem mem_write_plan:
  assumes n: "length ws \<le> 2 ^ 30" and rs: "length rs = length ws + 4"
    and c: "0 < length (pc_regs c)" and arr: "off + length ws \<le> length arr"
    and ws: "take (length ws) (drop off arr) = ws"
  shows "\<exists>qs c'. plan_exec (debug_plan_init_mem_write addr (of_nat (length ws)) (int off) r0) arr rs =
      Some (qs, arr, []) \<and> fold plan_cpu_step qs c = c' \<and>
    (\<forall>k<length ws. pc_mem c' (addr + 4 * of_nat k) = ws ! k) \<and>
    (\<forall>x. (\<forall>k<length ws. x \<noteq> addr + 4 * of_nat k) \<longrightarrow> pc_mem c' x = pc_mem c x) \<and>
    pc_regs c' = (pc_regs c)[0 := r0]"
proof -
  let ?qs = "map (mem_write_plan_request addr r0 ws) [0..<length ws + 4]"
  let ?f = "\<lambda>k. addr + 4 * of_nat k :: u32"
  let ?m = "fold (\<lambda>k m. m(?f k := ws ! k)) (rev [0..<length ws]) (pc_mem c)"
  have ex: "plan_exec (debug_plan_init_mem_write addr (of_nat (length ws)) (int off) r0) arr rs =
      Some (?qs, arr, [])"
    using mem_write_exec [of rs "length ws" 0 off arr addr r0] assms by (simp add: write_plan_init)
  have st: "fold plan_cpu_step ?qs c = c\<lparr>pc_regs := (pc_regs c)[0 := r0], pc_mem := ?m\<rparr>"
    using c plan_stores [of "c\<lparr>pc_regs := (pc_regs c)[0 := addr + 4 * of_nat (length ws)]\<rparr>" addr ws]
    by (simp add: mem_write_requests)
  have inj: "inj_on ?f (set (rev [0..<length ws]))"
  proof (rule inj_onI)
    fix i j assume "i \<in> set (rev [0..<length ws])" "j \<in> set (rev [0..<length ws])" "?f i = ?f j"
    then show "i = j" using n word_offset_inj [of i j addr] by simp
  qed
  have "?m (?f k) = ws ! k" if "k < length ws" for k
    using that inj by (intro fold_fun_upd_in) auto
  moreover have "?m x = pc_mem c x" if "\<forall>k<length ws. x \<noteq> ?f k" for x
    using that by (intro fold_fun_upd_out) auto
  ultimately show ?thesis
    using ex st by auto
qed

theorem mem_write_plan_witness:
  "\<exists>qs c'. plan_exec (debug_plan_init_mem_write 0x100 1 0 7) [42] [0, 0, 0, 0, 0] = Some (qs, [42], []) \<and>
     fold plan_cpu_step qs \<lparr>pc_regs = [5], pc_mem = (\<lambda>_. 0)\<rparr> = c' \<and> pc_mem c' 0x100 = 42"
  using mem_write_plan [of "[42]" "[0, 0, 0, 0, 0]" "\<lparr>pc_regs = [5], pc_mem = (\<lambda>_. 0)\<rparr>" 0 "[42]" "0x100" 7]
  by auto

text \<open>
  reading the registers. The plan takes exactly 37 requests; whatever the previous contents
  of the array, every one of the 23 registers is then the reply of its position, and the two
  registers the plan itself uses, PR and R0, are driven back with the values just read.
\<close>

theorem regs_read_plan:
  assumes "length rs = 37" "length regs = REG_NUM_REGS"
  shows "\<exists>qs. plan_exec debug_plan_init_regs_read regs rs =
      Some (qs, map ((!) rs) ([6..<22] @ [32, 27, 23, 24, 25, 26, 22]), []) \<and>
    length qs = 37 \<and> qs ! 29 = insert_with_data 0x6003 (rs ! 27) \<and>
    qs ! 30 = insert_instr 0x402A \<and> qs ! 31 = insert_with_data 0x6003 (rs ! 6)"
proof -
  have "map ((!) rs) [0..<37] = rs" "map ((!) regs) [0..<23] = regs"
    using assms map_nth [of rs] map_nth [of regs] by (simp_all add: REG_NUM_REGS_def)
  moreover have "\<exists>qs. plan_exec debug_plan_init_regs_read (map ((!) regs) [0..<23]) (map ((!) rs) [0..<37]) =
      Some (qs, map ((!) rs) ([6..<22] @ [32, 27, 23, 24, 25, 26, 22]), []) \<and>
    length qs = 37 \<and> qs ! 29 = insert_with_data 0x6003 (rs ! 27) \<and>
    qs ! 30 = insert_instr 0x402A \<and> qs ! 31 = insert_with_data 0x6003 (rs ! 6)"
    by (simp add: plan_defs reg_ids upt_from_0)
  ultimately show ?thesis by simp
qed

theorem regs_read_plan_witness:
  "\<exists>qs. plan_exec debug_plan_init_regs_read (replicate 23 0) (map of_nat [0..<37]) =
     Some (qs, map of_nat ([6..<22] @ [32, 27, 23, 24, 25, 26, 22]), [])"
  using regs_read_plan [of "map of_nat [0..<37]" "replicate 23 0"]
  by (auto simp: REG_NUM_REGS_def)

text \<open>
  writing the registers. The plan takes exactly 27 requests, and executing them leaves all 23
  registers of the CPU (PC included, loaded through PR and RTS before PR itself) equal to the array.
\<close>

theorem regs_write_plan:
  assumes "length rs = 27" "length regs = REG_NUM_REGS" "length (pc_regs c) = REG_NUM_REGS"
  shows "\<exists>qs. plan_exec debug_plan_init_regs_write regs rs = Some (qs, regs, []) \<and>
    length qs = 27 \<and> fold plan_cpu_step qs c = c\<lparr>pc_regs := regs\<rparr>"
proof -
  let ?old = "map ((!) (pc_regs c)) [0..<23]"
  have "map ((!) rs) [0..<27] = rs" "map ((!) regs) [0..<23] = regs" "?old = pc_regs c"
    using assms map_nth [of rs] map_nth [of regs] map_nth [of "pc_regs c"]
    by (simp_all add: REG_NUM_REGS_def)
  moreover have "\<exists>qs. plan_exec debug_plan_init_regs_write (map ((!) regs) [0..<23]) (map ((!) rs) [0..<27]) =
      Some (qs, map ((!) regs) [0..<23], []) \<and> length qs = 27 \<and>
      fold plan_cpu_step qs (c\<lparr>pc_regs := ?old\<rparr>) = c\<lparr>pc_regs := map ((!) regs) [0..<23]\<rparr>"
    by (simp add: plan_defs reg_ids plan_cpu_step_def insert_with_data_def insert_instr_def upt_from_0)
  ultimately show ?thesis by simp
qed

theorem regs_write_plan_witness:
  "\<exists>qs. plan_exec debug_plan_init_regs_write (map of_nat [0..<23]) (replicate 27 0) =
      Some (qs, map of_nat [0..<23], []) \<and>
    fold plan_cpu_step qs \<lparr>pc_regs = replicate 23 0, pc_mem = (\<lambda>_. 0)\<rparr> =
      \<lparr>pc_regs = map of_nat [0..<23], pc_mem = (\<lambda>_. 0)\<rparr>"
  using regs_write_plan [of "replicate 27 0" "map of_nat [0..<23]" "\<lparr>pc_regs = replicate 23 0, pc_mem = (\<lambda>_. 0)\<rparr>"]
  by (auto simp: REG_NUM_REGS_def)

end
