(* ===== verification/C_String.thy ===== *)
theory C_String
  imports Prelude
begin

text \<open>
  What the sources use of the C string library: character classes, decimal and hexadecimal numbers
  and their parsers, \<open>snprintf\<close> into a bounded buffer and \<open>fgets\<close>. A string is its characters up to
  the terminating NUL; the "C" locale and 64 bit longs are assumed, as the simulator is built.
\<close>

section \<open>Number and string formatting\<close>

definition digit_char :: "nat \<Rightarrow> char" where
  "digit_char d = char_of (48 + d)"

fun dec_string :: "nat \<Rightarrow> string" where
  "dec_string n = (if n < 10 then [digit_char n] else dec_string (n div 10) @ [digit_char (n mod 10)])"

declare dec_string.simps [simp del]

text \<open>\<open>snprintf\<close> into a buffer of \<open>size\<close> bytes: what the buffer holds up to its terminating NUL.\<close>

definition snprintf_buf :: "string \<Rightarrow> nat \<Rightarrow> string \<Rightarrow> string" where
  "snprintf_buf old sz s = (if sz = 0 then old else take (sz - 1) s)"

text \<open>\<open>%d\<close> of a 32 bit number.\<close>

definition print_d :: "u32 \<Rightarrow> string" where
  "print_d v = (if sint v < 0 then CHR ''-'' # dec_string (nat (- sint v)) else dec_string (unat v))"

text \<open>
  \<open>fgets (buf, n, stdin)\<close>: at most \<open>n - 1\<close> characters, up to and with the first newline.
  \<open>atoi\<close>: white space, a sign and decimal digits; what follows them is ignored.
\<close>

definition fgets :: "nat \<Rightarrow> string \<Rightarrow> (string \<times> string) option" where
  "fgets n inp =
     (if inp = [] \<or> n < 2 then None
      else let l = takeWhile (\<lambda>c. c \<noteq> CHR 0x0A) inp;
               k = min (n - 1) (length l + 1)
           in Some (take k inp, drop k inp))"

definition c_isspace :: "char \<Rightarrow> bool" where
  "c_isspace c \<longleftrightarrow> c \<in> {CHR '' '', CHR 0x09, CHR 0x0A, CHR 0x0B, CHR 0x0C, CHR 0x0D}"

definition c_isdigit :: "char \<Rightarrow> bool" where
  "c_isdigit c \<longleftrightarrow> 48 \<le> (of_char c :: nat) \<and> (of_char c :: nat) \<le> 57"

definition dec_value :: "string \<Rightarrow> nat" where
  "dec_value s = foldl (\<lambda>v c. 10 * v + (of_char c - 48)) 0 s"

definition atoi :: "string \<Rightarrow> int" where
  "atoi s =
     (let t = dropWhile c_isspace s;
          neg = (t \<noteq> [] \<and> hd t = CHR ''-'');
          u = (if t \<noteq> [] \<and> hd t \<in> {CHR ''-'', CHR ''+''} then tl t else t);
          v = int (dec_value (takeWhile c_isdigit u))
      in if neg then - v else v)"

lemma fgets_shorter: "fgets n inp = Some (l, rest) \<Longrightarrow> length rest < length inp"
  by (auto simp: fgets_def Let_def split: if_splits)

lemma digit_char_value [simp]: "d < 10 \<Longrightarrow> c_isdigit (digit_char d) \<and> of_char (digit_char d) - 48 = d"
  by (simp add: c_isdigit_def digit_char_def)

lemma dec_string_digits: "\<forall>c\<in>set (dec_string n). c_isdigit c"
proof (induction n rule: dec_string.induct)
  case (1 n)
  then show ?case by (subst dec_string.simps) auto
qed

lemma dec_value_dec_string: "dec_value (dec_string n) = n"
proof (induction n rule: dec_string.induct)
  case (1 n)
  then show ?case by (subst dec_string.simps) (simp add: dec_value_def)
qed

lemma dec_string_ne: "dec_string n \<noteq> []"
  by (simp add: dec_string.simps [of n])

lemma digit_not_special: "c_isdigit c \<Longrightarrow> \<not> c_isspace c \<and> c \<noteq> CHR 0x0A \<and> c \<noteq> CHR ''-'' \<and> c \<noteq> CHR ''+''"
  by (auto simp: c_isdigit_def c_isspace_def)

lemma atoi_dec_line: "atoi (dec_string n @ [CHR 0x0A]) = int n"
proof -
  obtain c cs where s: "dec_string n = c # cs" using dec_string_ne by (cases "dec_string n") auto
  have "c_isdigit c" using dec_string_digits [of n] s by simp
  moreover have "takeWhile c_isdigit (dec_string n @ [CHR 0x0A]) = dec_string n"
    using dec_string_digits [of n] by (subst takeWhile_append2) (auto simp: c_isdigit_def)
  ultimately show ?thesis
    using s digit_not_special [of c] dec_value_dec_string [of n] by (auto simp: atoi_def)
qed

lemma dec_string_length: "n < 10 ^ Suc k \<Longrightarrow> length (dec_string n) \<le> Suc k"
proof (induction k arbitrary: n)
  case (Suc k)
  then have "n div 10 < 10 ^ Suc k" by auto
  from Suc.IH [OF this] show ?case by (subst dec_string.simps) auto
qed (subst dec_string.simps, simp)

lemma fgets_dec_line:
  "n < 65536 \<Longrightarrow> fgets 256 (dec_string n @ CHR 0x0A # rest) = Some (dec_string n @ [CHR 0x0A], rest)"
proof -
  assume "n < 65536"
  then have "length (dec_string n) \<le> 5" using dec_string_length [of n 4] by simp
  moreover have "takeWhile (\<lambda>c. c \<noteq> CHR 0x0A) (dec_string n @ CHR 0x0A # rest) = dec_string n"
    using dec_string_digits [of n] digit_not_special by (subst takeWhile_append2) auto
  ultimately show ?thesis by (simp add: fgets_def)
qed

section \<open>Numbers in a base\<close>

definition digit_value :: "char \<Rightarrow> nat" where
  "digit_value c =
     (let n = of_char c :: nat in
      if 48 \<le> n \<and> n \<le> 57 then n - 48
      else if 97 \<le> n \<and> n \<le> 122 then n - 87
      else if 65 \<le> n \<and> n \<le> 90 then n - 55
      else 36)"

definition base_value :: "nat \<Rightarrow> string \<Rightarrow> nat" where
  "base_value base ds = foldl (\<lambda>v c. base * v + digit_value c) 0 ds"

definition clamp_long :: "int \<Rightarrow> int" where
  "clamp_long v = max (- (2 ^ 63)) (min (2 ^ 63 - 1) v)"

text \<open>
  \<open>strtol\<close> (and \<open>strtoll\<close>) and \<open>strtoull\<close>: white space, a sign and digits, then the rest of the string.
  Without a digit the value is 0 and the rest is the whole string. Values out of range give the
  largest or smallest value; \<open>strtoull\<close> negates in 64 bits after a minus sign.
\<close>

definition scan_number :: "string \<Rightarrow> nat \<Rightarrow> bool \<times> string \<times> string" where
  "scan_number s base =
     (let t = dropWhile c_isspace s;
          neg = (t \<noteq> [] \<and> hd t = CHR ''-'');
          u = (if t \<noteq> [] \<and> hd t \<in> {CHR ''-'', CHR ''+''} then tl t else t);
          x = (if base = 16 \<and> 3 \<le> length u \<and> u ! 0 = CHR ''0'' \<and> u ! 1 \<in> {CHR ''x'', CHR ''X''} \<and> digit_value (u ! 2) < 16
               then drop 2 u else u);
          ds = takeWhile (\<lambda>c. digit_value c < base) x
      in if ds = [] then (False, [], s) else (neg, ds, dropWhile (\<lambda>c. digit_value c < base) x))"

definition strtol :: "string \<Rightarrow> nat \<Rightarrow> int \<times> string" where
  "strtol s base =
     (case scan_number s base of (neg, ds, rest) \<Rightarrow>
        (clamp_long (if neg then - int (base_value base ds) else int (base_value base ds)), rest))"

definition strtoull :: "string \<Rightarrow> nat \<Rightarrow> u64 \<times> string" where
  "strtoull s base =
     (case scan_number s base of (neg, ds, rest) \<Rightarrow>
        (if base_value base ds \<ge> 2 ^ 64 then - 1
         else if neg then - of_nat (base_value base ds) else of_nat (base_value base ds), rest))"

text \<open>The characters of a C string, up to its NUL.\<close>

definition cstr :: "string \<Rightarrow> string" where
  "cstr s = takeWhile (\<lambda>c. c \<noteq> CHR 0x00) s"

definition c_isblank :: "char \<Rightarrow> bool" where
  "c_isblank c \<longleftrightarrow> c = CHR '' '' \<or> c = CHR 0x09"

definition c_toupper :: "char \<Rightarrow> char" where
  "c_toupper c = (let n = of_char c :: nat in if 97 \<le> n \<and> n \<le> 122 then char_of (n - 32) else c)"

definition c_tolower :: "char \<Rightarrow> char" where
  "c_tolower c = (let n = of_char c :: nat in if 65 \<le> n \<and> n \<le> 90 then char_of (n + 32) else c)"

definition hex_char :: "nat \<Rightarrow> char" where
  "hex_char d = ''0123456789ABCDEF'' ! d"

text \<open>\<open>%X\<close>\<close>

fun hex_string :: "nat \<Rightarrow> string" where
  "hex_string n = (if n < 16 then [hex_char n] else hex_string (n div 16) @ [hex_char (n mod 16)])"

declare hex_string.simps [simp del]

lemma hex_char_table: "map digit_value ''0123456789ABCDEF'' = [0..<16]"
  by (simp add: digit_value_def upt_rec)

lemma digit_value_hex_char [simp]: "d < 16 \<Longrightarrow> digit_value (hex_char d) = d"
proof -
  assume "d < 16"
  then have "digit_value (hex_char d) = map digit_value ''0123456789ABCDEF'' ! d"
    unfolding hex_char_def by (subst nth_map) simp_all
  then show ?thesis using \<open>d < 16\<close> unfolding hex_char_table by simp
qed

lemma hex_string_digits: "\<forall>c\<in>set (hex_string n). digit_value c < 16"
proof (induction n rule: hex_string.induct)
  case (1 n)
  then show ?case by (subst hex_string.simps) auto
qed

lemma base_value_hex_string: "base_value 16 (hex_string n) = n"
proof (induction n rule: hex_string.induct)
  case (1 n)
  then show ?case by (subst hex_string.simps) (simp add: base_value_def)
qed

lemma hex_string_ne: "hex_string n \<noteq> []"
  by (simp add: hex_string.simps [of n])

lemma digit_value_dec: "c_isdigit c \<Longrightarrow> digit_value c = of_char c - 48 \<and> digit_value c < 10"
  by (auto simp: c_isdigit_def digit_value_def Let_def)

lemma base_value_dec_string: "base_value 10 (dec_string n) = n"
proof -
  have "foldl (\<lambda>v c. 10 * v + digit_value c) a ds = foldl (\<lambda>v c. 10 * v + (of_char c - 48)) a ds"
    if "\<forall>c\<in>set ds. c_isdigit c" for a ds
    using that by (induction ds arbitrary: a) (auto simp: digit_value_dec)
  then show ?thesis
    using dec_value_dec_string [of n] dec_string_digits [of n] by (simp add: base_value_def dec_value_def)
qed

text \<open>A number as written by \<open>%X\<close> or \<open>%u\<close>, followed by something that is not a digit, is read back.\<close>

lemma digit_not_sign:
  assumes "digit_value c < 16"
  shows "\<not> c_isspace c" "c \<noteq> CHR ''-''" "c \<noteq> CHR ''+''" "c \<noteq> CHR 0x0A" "c \<noteq> CHR ''x''" "c \<noteq> CHR ''X''"
    "c \<noteq> CHR '';''" "c \<noteq> CHR ''#''" "c \<noteq> CHR 0x00" "c \<noteq> CHR '' ''"
  using assms by (auto simp: c_isspace_def digit_value_def)

lemma scan_number_digits:
  assumes "ds \<noteq> []" "\<forall>c\<in>set ds. digit_value c < base" "base \<le> 16" "rest = [] \<or> \<not> digit_value (hd rest) < base"
    and "rest \<noteq> [] \<longrightarrow> hd rest \<noteq> CHR ''x'' \<and> hd rest \<noteq> CHR ''X''"
  shows "scan_number (ds @ rest) base = (False, ds, rest)"
proof -
  obtain c cs where ds: "ds = c # cs" using assms(1) by (cases ds) auto
  have lt: "\<forall>c\<in>set ds. digit_value c < 16" using assms(2,3) by auto
  then have c: "\<not> c_isspace c" "c \<noteq> CHR ''-''" "c \<noteq> CHR ''+''" using digit_not_sign [of c] ds by auto
  have nx: "\<not> (3 \<le> length (ds @ rest) \<and> (ds @ rest) ! 0 = CHR ''0'' \<and> (ds @ rest) ! 1 \<in> {CHR ''x'', CHR ''X''})"
  proof (cases cs)
    case Nil
    then show ?thesis using ds assms(5) by (cases rest) auto
  next
    case (Cons d es)
    then show ?thesis using ds lt digit_not_sign [of d] by auto
  qed
  have "takeWhile (\<lambda>c. digit_value c < base) (ds @ rest) = ds" "dropWhile (\<lambda>c. digit_value c < base) (ds @ rest) = rest"
    using assms(2,4) by (cases rest; auto simp: takeWhile_append2 dropWhile_append2)+
  then show ?thesis
    using c nx assms(1) ds by (auto simp: scan_number_def Let_def)
qed

lemma strtol_digits:
  assumes "ds \<noteq> []" "\<forall>c\<in>set ds. digit_value c < base" "base \<le> 16" "rest = [] \<or> \<not> digit_value (hd rest) < base"
    and "rest \<noteq> [] \<longrightarrow> hd rest \<noteq> CHR ''x'' \<and> hd rest \<noteq> CHR ''X''" "int (base_value base ds) < 2 ^ 63"
  shows "strtol (ds @ rest) base = (int (base_value base ds), rest)"
  using scan_number_digits [OF assms(1-5)] assms(6) by (simp add: strtol_def clamp_long_def)

lemma strtoull_dec:
  assumes "rest = [] \<or> hd rest = CHR ''.''" "n < 2 ^ 64"
  shows "strtoull (dec_string n @ rest) 10 = (of_nat n, rest)"
proof -
  have "\<forall>c\<in>set (dec_string n). digit_value c < 10" using dec_string_digits [of n] digit_value_dec by blast
  then have "scan_number (dec_string n @ rest) 10 = (False, dec_string n, rest)"
    using scan_number_digits [of "dec_string n" 10 rest] assms(1) by (auto simp: dec_string_ne digit_value_def)
  then show ?thesis using assms(2) by (simp add: strtoull_def base_value_dec_string)
qed

end
