(* ===== verification/Sh2_Instr.thy ===== *)
theory Sh2_Instr
  imports C_String
begin

text \<open>
  The instruction names of src/sim/sh2instr.c (used by the simulator's opcode log, by decodeop
  and by pinst). Each \<open>line\<close> function is a chain of mask tests on the opcode, modelled as the
  first match in the table of its tests, in source order.
\<close>

section \<open>Formats\<close>

text \<open>
  The format strings take no argument, the register of bits 8 to 11 (N), the register of bits 4
  to 7 (M), or first M and then N, each printed with \<open>%hu\<close>.
\<close>

datatype op_fmt = Fmt0 string | FmtN string string | FmtM string string | FmtMN string string string

definition reg_n :: "u16 \<Rightarrow> nat" where
  "reg_n instr = unat (drop_bit 8 instr AND 0xF)"

definition reg_m :: "u16 \<Rightarrow> nat" where
  "reg_m instr = unat (drop_bit 4 instr AND 0xF)"

fun render :: "op_fmt \<Rightarrow> u16 \<Rightarrow> string" where
  "render (Fmt0 s) instr = s"
| "render (FmtN a b) instr = a @ dec_string (reg_n instr) @ b"
| "render (FmtM a b) instr = a @ dec_string (reg_m instr) @ b"
| "render (FmtMN a b c) instr = a @ dec_string (reg_m instr) @ b @ dec_string (reg_n instr) @ c"

type_synonym op_pattern = "u16 \<times> u16 \<times> op_fmt"

fun matches :: "op_pattern \<Rightarrow> u16 \<Rightarrow> bool" where
  "matches (m, v, fmt) instr = (instr AND m = v)"

fun first_match :: "op_pattern list \<Rightarrow> u16 \<Rightarrow> string option" where
  "first_match [] instr = None"
| "first_match (p # ps) instr =
     (if matches p instr then Some (render (snd (snd p)) instr) else first_match ps instr)"

section \<open>The sixteen tables\<close>

definition line0_pats :: "op_pattern list" where
  "line0_pats =
    [(0xffff, 0x8, Fmt0 ''CLRT''),
     (0xffff, 0x28, Fmt0 ''CLRMAC''),
     (0xffff, 0x19, Fmt0 ''DIV0U''),
     (0xffff, 0x9, Fmt0 ''NOP''),
     (0xffff, 0x2b, Fmt0 ''RTE''),
     (0xffff, 0xb, Fmt0 ''RTS''),
     (0xffff, 0x18, Fmt0 ''SETT''),
     (0xffff, 0x1b, Fmt0 ''SLEEP''),
     (0xffff, 0x3b, Fmt0 ''BGND''),
     (0xf0ff, 0x29, FmtN ''MOVT R'' ''''),
     (0xf0ff, 0x2, FmtN ''STC SR, R'' ''''),
     (0xf0ff, 0x12, FmtN ''STC GBR, R'' ''''),
     (0xf0ff, 0x22, FmtN ''STC VBR, R'' ''''),
     (0xf0ff, 0xa, FmtN ''STS MACH, R'' ''''),
     (0xf0ff, 0x1a, FmtN ''STS MACL, R'' ''''),
     (0xf0ff, 0x2a, FmtN ''STS PR, R'' ''''),
     (0xf0ff, 0x5a, FmtN ''STS CPI_COM, R'' ''''),
     (0xf0ff, 0x23, FmtN ''BRAF R'' ''''),
     (0xf0ff, 0x3, FmtN ''BSRF R'' ''''),
     (0xf00f, 0x7, FmtMN ''MUL.L R'' '', R'' ''''),
     (0xf00f, 0xf, FmtMN ''MAC.L @R'' ''+, @R'' ''+''),
     (0xf00f, 0x4, FmtMN ''MOV.B R'' '', @(R0, R'' '')''),
     (0xf00f, 0x5, FmtMN ''MOV.W R'' '', @(R0, R'' '')''),
     (0xf00f, 0x6, FmtMN ''MOV.L R'' '', @(R0, R'' '')''),
     (0xf00f, 0xc, FmtMN ''MOV.B @(R0, R'' ''), R'' ''''),
     (0xf00f, 0xd, FmtMN ''MOV.W @(R0, R'' ''), R'' ''''),
     (0xf00f, 0xe, FmtMN ''MOV.L @(R0, R'' ''), R'' '''')]"

definition line1_pats :: "op_pattern list" where
  "line1_pats =
    [(0xf000, 0x1000, FmtMN ''MOV.L R'' '', @(disp, R'' '')'')]"

definition line2_pats :: "op_pattern list" where
  "line2_pats =
    [(0xf00f, 0x2009, FmtMN ''AND R'' '', R'' ''''),
     (0xf00f, 0x200c, FmtMN ''CMP /STR R'' '', R'' ''''),
     (0xf00f, 0x2003, FmtMN ''CAS.L R'' '', R'' '', @R0''),
     (0xf00f, 0x2007, FmtMN ''DIV0S R'' '', R'' ''''),
     (0xf00f, 0x200f, FmtMN ''MULS.W R'' '', R'' ''''),
     (0xf00f, 0x200e, FmtMN ''MULU.W R'' '', R'' ''''),
     (0xf00f, 0x200b, FmtMN ''OR R'' '', R'' ''''),
     (0xf00f, 0x2008, FmtMN ''TST R'' '', R'' ''''),
     (0xf00f, 0x200a, FmtMN ''XOR R'' '', R'' ''''),
     (0xf00f, 0x200d, FmtMN ''XTRACT R'' '', R'' ''''),
     (0xf00f, 0x2000, FmtMN ''MOV.B R'' '', @R'' ''''),
     (0xf00f, 0x2001, FmtMN ''MOV.W R'' '', @R'' ''''),
     (0xf00f, 0x2002, FmtMN ''MOV.L R'' '', @R'' ''''),
     (0xf00f, 0x2004, FmtMN ''MOV.B R'' '',@-R'' ''''),
     (0xf00f, 0x2005, FmtMN ''MOV.W R'' '',@-R'' ''''),
     (0xf00f, 0x2006, FmtMN ''MOV.L R'' '',@-R'' '''')]"

definition line3_pats :: "op_pattern list" where
  "line3_pats =
    [(0xf00f, 0x300c, FmtMN ''ADD R'' '', R'' ''''),
     (0xf00f, 0x300e, FmtMN ''ADDC R'' '', R'' ''''),
     (0xf00f, 0x300f, FmtMN ''ADDV R'' '', R'' ''''),
     (0xf00f, 0x3000, FmtMN ''CMP /EQ R'' '', R'' ''''),
     (0xf00f, 0x3002, FmtMN ''CMP /HS R'' '', R'' ''''),
     (0xf00f, 0x3003, FmtMN ''CMP /GE R'' '', R'' ''''),
     (0xf00f, 0x3006, FmtMN ''CMP /HI R'' '', R'' ''''),
     (0xf00f, 0x3007, FmtMN ''CMP /GT R'' '', R'' ''''),
     (0xf00f, 0x3004, FmtMN ''DIV1 R'' '', R'' ''''),
     (0xf00f, 0x300d, FmtMN ''DMULS.L R'' '', R'' ''''),
     (0xf00f, 0x3005, FmtMN ''DMULU.L R'' '', R'' ''''),
     (0xf00f, 0x3008, FmtMN ''SUB R'' '', R'' ''''),
     (0xf00f, 0x300a, FmtMN ''SUBC R'' '', R'' ''''),
     (0xf00f, 0x300b, FmtMN ''SUBV R'' '', R'' '''')]"

definition line4_pats :: "op_pattern list" where
  "line4_pats =
    [(0xf0ff, 0x4015, FmtN ''CMP/PL R'' ''''),
     (0xf0ff, 0x4011, FmtN ''CMP/PZ R'' ''''),
     (0xf0ff, 0x4010, FmtN ''DT R'' ''''),
     (0xf0ff, 0x4004, FmtN ''ROTL R'' ''''),
     (0xf0ff, 0x4005, FmtN ''ROTR R'' ''''),
     (0xf0ff, 0x4024, FmtN ''ROTCL R'' ''''),
     (0xf0ff, 0x4025, FmtN ''ROTCR R'' ''''),
     (0xf0ff, 0x4020, FmtN ''SHAL R'' ''''),
     (0xf0ff, 0x4021, FmtN ''SHAR R'' ''''),
     (0xf0ff, 0x4000, FmtN ''SHLL R'' ''''),
     (0xf0ff, 0x4001, FmtN ''SHLR R'' ''''),
     (0xf0ff, 0x4008, FmtN ''SHLL2 R'' ''''),
     (0xf0ff, 0x4009, FmtN ''SHLR2 R'' ''''),
     (0xf0ff, 0x4018, FmtN ''SHLL8 R'' ''''),
     (0xf0ff, 0x4019, FmtN ''SHLR8 R'' ''''),
     (0xf0ff, 0x4028, FmtN ''SHLL16 R'' ''''),
     (0xf0ff, 0x4029, FmtN ''SHLR16 R'' ''''),
     (0xf0ff, 0x401b, FmtN ''TAS.B @R'' ''''),
     (0xf0ff, 0x4003, FmtN ''STC.L SR, @-R'' ''''),
     (0xf0ff, 0x4013, FmtN ''STC.L GBR, @-R'' ''''),
     (0xf0ff, 0x4023, FmtN ''STC.L VBR, @-R'' ''''),
     (0xf0ff, 0x4002, FmtN ''STS.L MACH, @-R'' ''''),
     (0xf0ff, 0x4012, FmtN ''STS.L MACL, @-R'' ''''),
     (0xf0ff, 0x4022, FmtN ''STS.L PR, @-R'' ''''),
     (0xf0ff, 0x40c8, FmtN ''STS CP0_COM, R'' ''''),
     (0xf0ff, 0x40c9, FmtN ''CSTS CP0_COM, CP0_R'' ''''),
     (0xf0ff, 0x400e, FmtN ''LDC R'' '', SR''),
     (0xf0ff, 0x401e, FmtN ''LDC, R'' '', GBR''),
     (0xf0ff, 0x402e, FmtN ''LDC R'' '', VBR''),
     (0xf0ff, 0x400a, FmtN ''LDS R'' '', MACH''),
     (0xf0ff, 0x401a, FmtN ''LDS R'' '', MACL''),
     (0xf0ff, 0x402a, FmtN ''LDS R'' '', PR''),
     (0xf0ff, 0x402b, FmtN ''JMP @R'' ''''),
     (0xf0ff, 0x400b, FmtN ''JSR @R'' ''''),
     (0xf0ff, 0x4007, FmtN ''LDC.L @R'' ''+, SR''),
     (0xf0ff, 0x4017, FmtN ''LDC.L @R'' ''+, GBR''),
     (0xf0ff, 0x4027, FmtN ''LDC.L @R'' ''+, VBR''),
     (0xf0ff, 0x4006, FmtN ''LDS.L @R'' ''+, MACH''),
     (0xf0ff, 0x4016, FmtN ''LDS.L @R'' ''+, MACL''),
     (0xf0ff, 0x4026, FmtN ''LDS.L @R'' ''+, PR''),
     (0xf0ff, 0x4088, FmtN ''LDS R'' '', CP0_COM''),
     (0xf0ff, 0x4089, FmtN ''CLDS CP0_R'' '', CP0_COM''),
     (0xf0ff, 0x405a, FmtN ''LDS R'' '', CPI_COM''),
     (0xf00f, 0x400c, FmtMN ''SHAD R'' '', R'' ''''),
     (0xf00f, 0x400d, FmtMN ''SHLD R'' '', R'' ''''),
     (0xf00f, 0x400f, FmtMN ''MAC.W @R'' ''+, @R'' ''+'')]"

definition line5_pats :: "op_pattern list" where
  "line5_pats =
    [(0xf000, 0x5000, FmtMN ''MOV.L @(disp, R'' ''), R'' '''')]"

definition line6_pats :: "op_pattern list" where
  "line6_pats =
    [(0xf00f, 0x600e, FmtMN ''EXTS.B R'' '', R'' ''''),
     (0xf00f, 0x600f, FmtMN ''EXTS.W R'' '', R'' ''''),
     (0xf00f, 0x600c, FmtMN ''EXTU.B R'' '', R'' ''''),
     (0xf00f, 0x600d, FmtMN ''EXTU.W R'' '', R'' ''''),
     (0xf00f, 0x6003, FmtMN ''MOV R'' '', R'' ''''),
     (0xf00f, 0x600b, FmtMN ''NEG R'' '', R'' ''''),
     (0xf00f, 0x600a, FmtMN ''NEGC R'' '', R'' ''''),
     (0xf00f, 0x6007, FmtMN ''NOT R'' '', R'' ''''),
     (0xf00f, 0x6008, FmtMN ''SWAP.B R'' '', R'' ''''),
     (0xf00f, 0x6009, FmtMN ''SWAP.W R'' '', R'' ''''),
     (0xf00f, 0x6000, FmtMN ''MOV.B @R'' '', R'' ''''),
     (0xf00f, 0x6001, FmtMN ''MOV.W @R'' '', R'' ''''),
     (0xf00f, 0x6002, FmtMN ''MOV.L @R'' '', R'' ''''),
     (0xf00f, 0x6004, FmtMN ''MOV.B @R'' ''+, R'' ''''),
     (0xf00f, 0x6005, FmtMN ''MOV.W @R'' ''+, R'' ''''),
     (0xf00f, 0x6006, FmtMN ''MOV.L @R'' ''+, R'' '''')]"

definition line7_pats :: "op_pattern list" where
  "line7_pats =
    [(0xf000, 0x7000, FmtN ''ADD #imm, R'' '''')]"

definition line8_pats :: "op_pattern list" where
  "line8_pats =
    [(0xff00, 0x8400, FmtM ''MOV.B @(disp, R'' ''), R0''),
     (0xff00, 0x8500, FmtM ''MOV.W @(disp, R'' ''), R0''),
     (0xff00, 0x8000, FmtM ''MOV.B R0, @(disp, R'' '')''),
     (0xff00, 0x8100, FmtM ''MOV.W R0, @(disp, R'' '')''),
     (0xff00, 0x8b00, Fmt0 ''BF label''),
     (0xff00, 0x8f00, Fmt0 ''BF /S label''),
     (0xff00, 0x8900, Fmt0 ''BT label''),
     (0xff00, 0x8d00, Fmt0 ''BT /S label''),
     (0xff00, 0x8800, Fmt0 ''CMP /EQ #imm, R0'')]"

definition line9_pats :: "op_pattern list" where
  "line9_pats =
    [(0xf000, 0x9000, FmtN ''MOV.W @(disp, PC), R'' '''')]"

definition line10_pats :: "op_pattern list" where
  "line10_pats =
    [(0xf000, 0xa000, Fmt0 ''BRA label'')]"

definition line11_pats :: "op_pattern list" where
  "line11_pats =
    [(0xf000, 0xb000, Fmt0 ''BSR label'')]"

definition line12_pats :: "op_pattern list" where
  "line12_pats =
    [(0xff00, 0xc000, Fmt0 ''MOV.B R0, @(disp, GBR)''),
     (0xff00, 0xc100, Fmt0 ''MOV.W R0, @(disp, GBR)''),
     (0xff00, 0xc200, Fmt0 ''MOV.L R0, @(disp, GBR)''),
     (0xff00, 0xc400, Fmt0 ''MOV.B @(disp, GBR), R0''),
     (0xff00, 0xc500, Fmt0 ''MOV.W @(disp, GBR), R0''),
     (0xff00, 0xc600, Fmt0 ''MOV.L @(disp, GBR), R0''),
     (0xff00, 0xc700, Fmt0 ''MOVA @(disp, PC), R0''),
     (0xff00, 0xcd00, Fmt0 ''AND.B #imm, @(R0, GBR)''),
     (0xff00, 0xcf00, Fmt0 ''OR.B #imm, @(R0, GBR)''),
     (0xff00, 0xcc00, Fmt0 ''TST.B #imm, @(R0, GBR)''),
     (0xff00, 0xce00, Fmt0 ''XOR.B #imm, @(R0, GBR)''),
     (0xff00, 0xc900, Fmt0 ''AND #imm, R0''),
     (0xff00, 0xcb00, Fmt0 ''OR #imm, R0''),
     (0xff00, 0xc800, Fmt0 ''TST #imm, R0''),
     (0xff00, 0xca00, Fmt0 ''XOR #imm, R0''),
     (0xff00, 0xc300, Fmt0 ''TRAPA #imm'')]"

definition line13_pats :: "op_pattern list" where
  "line13_pats =
    [(0xf000, 0xd000, FmtN ''MOV.L @(disp, PC), R'' '''')]"

definition line14_pats :: "op_pattern list" where
  "line14_pats =
    [(0xf000, 0xe000, FmtN ''MOV #imm, R'' '''')]"

definition line15_pats :: "op_pattern list" where
  "line15_pats =
    [(0xf0ff, 0xf00d, FmtN ''CSTS CPI_COM, CPI_R'' ''''),
     (0xf0ff, 0xf01d, FmtN ''CLDS CPI_R'' '', CPI_COM'')]"

definition line0 :: "u16 \<Rightarrow> string option" where
  "line0 instr = first_match line0_pats instr"

definition line1 :: "u16 \<Rightarrow> string option" where
  "line1 instr = first_match line1_pats instr"

definition line2 :: "u16 \<Rightarrow> string option" where
  "line2 instr = first_match line2_pats instr"

definition line3 :: "u16 \<Rightarrow> string option" where
  "line3 instr = first_match line3_pats instr"

definition line4 :: "u16 \<Rightarrow> string option" where
  "line4 instr = first_match line4_pats instr"

definition line5 :: "u16 \<Rightarrow> string option" where
  "line5 instr = first_match line5_pats instr"

definition line6 :: "u16 \<Rightarrow> string option" where
  "line6 instr = first_match line6_pats instr"

definition line7 :: "u16 \<Rightarrow> string option" where
  "line7 instr = first_match line7_pats instr"

definition line8 :: "u16 \<Rightarrow> string option" where
  "line8 instr = first_match line8_pats instr"

definition line9 :: "u16 \<Rightarrow> string option" where
  "line9 instr = first_match line9_pats instr"

definition line10 :: "u16 \<Rightarrow> string option" where
  "line10 instr = first_match line10_pats instr"

definition line11 :: "u16 \<Rightarrow> string option" where
  "line11 instr = first_match line11_pats instr"

definition line12 :: "u16 \<Rightarrow> string option" where
  "line12 instr = first_match line12_pats instr"

definition line13 :: "u16 \<Rightarrow> string option" where
  "line13 instr = first_match line13_pats instr"

definition line14 :: "u16 \<Rightarrow> string option" where
  "line14 instr = first_match line14_pats instr"

definition line15 :: "u16 \<Rightarrow> string option" where
  "line15 instr = first_match line15_pats instr"

section \<open>Dispatch\<close>

definition line_fns :: "(u16 \<Rightarrow> string option) list" where
  "line_fns = [line0, line1, line2, line3, line4, line5, line6, line7, line8, line9, line10, line11, line12, line13, line14, line15]"

text \<open>\<open>op_name\<close> gives the return value and the buffer; \<open>str\<close> is what the buffer held before.\<close>

definition op_name :: "string \<Rightarrow> nat \<Rightarrow> u16 \<Rightarrow> int \<times> string" where
  "op_name str sz instr =
     (let err = snprintf_buf str sz ''ERR''
      in case (line_fns ! unat (drop_bit 12 instr AND 0xF)) instr of
           None \<Rightarrow> (-1, err)
         | Some s \<Rightarrow> (int (length s), snprintf_buf err sz s))"

definition print_instr :: "u16 \<Rightarrow> string" where
  "print_instr instr = snd (op_name [] 256 instr)"

section \<open>pinst.c\<close>

text \<open>
  The loop of \<open>main\<close>: every line read is replaced in \<open>buf\<close> by the name of the instruction with
  the number of the line (converted to an unsigned short), and printed with a newline.
\<close>

function pinst_main :: "string \<Rightarrow> string" where
  "pinst_main inp =
     (case fgets 256 inp of
        None \<Rightarrow> []
      | Some (buf, rest) \<Rightarrow> snd (op_name buf 256 (of_int (atoi buf))) @ [CHR 0x0A] @ pinst_main rest)"
  by pat_completeness auto
termination
  by (relation "measure length") (auto dest: fgets_shorter)

declare pinst_main.simps [simp del]

section \<open>The table as a whole\<close>

definition op_tables :: "op_pattern list list" where
  "op_tables = [line0_pats, line1_pats, line2_pats, line3_pats, line4_pats, line5_pats, line6_pats, line7_pats, line8_pats, line9_pats, line10_pats, line11_pats, line12_pats, line13_pats, line14_pats, line15_pats]"

definition op_table :: "op_pattern list" where
  "op_table = concat op_tables"

lemmas pats_defs = line0_pats_def line1_pats_def line2_pats_def line3_pats_def line4_pats_def line5_pats_def line6_pats_def line7_pats_def line8_pats_def line9_pats_def line10_pats_def line11_pats_def line12_pats_def line13_pats_def line14_pats_def line15_pats_def
lemmas line_defs = line0_def line1_def line2_def line3_def line4_def line5_def line6_def line7_def line8_def line9_def line10_def line11_def line12_def line13_def line14_def line15_def

fun pats_exclusive :: "op_pattern list \<Rightarrow> bool" where
  "pats_exclusive [] = True"
| "pats_exclusive (p # ps) =
     (list_all (\<lambda>q. (fst (snd p) XOR fst (snd q)) AND (fst p AND fst q) \<noteq> 0) ps \<and> pats_exclusive ps)"

lemma line_pats_exclusive: "list_all pats_exclusive op_tables"
  by code_simp

definition in_line :: "nat \<Rightarrow> op_pattern \<Rightarrow> bool" where
  "in_line k p \<longleftrightarrow> fst p AND 0xf000 = 0xf000 \<and> fst (snd p) AND 0xf000 = push_bit 12 (of_nat k)"

lemma line_pats_in_line: "list_all2 (\<lambda>k ps. list_all (in_line k) ps) [0..<16] op_tables"
  by code_simp

lemma matches_both:
  assumes "matches p x" "matches q x"
  shows "(fst (snd p) XOR fst (snd q)) AND (fst p AND fst q) = 0"
proof -
  have "fst (snd p) = x AND fst p" "fst (snd q) = x AND fst q"
    using assms by (cases p; cases q; simp)+
  then show ?thesis
    by (auto intro!: bit_word_eqI simp: bit_simps)
qed

lemma exclusive_filter: "pats_exclusive ps \<Longrightarrow> length (filter (\<lambda>p. matches p x) ps) \<le> 1"
proof (induction ps)
  case (Cons p ps)
  show ?case
  proof (cases "matches p x")
    case True
    then have "\<not> matches q x" if "q \<in> set ps" for q
      using Cons.prems that matches_both [OF True, of q] by (auto simp: list_all_iff)
    then have "filter (\<lambda>p. matches p x) ps = []" by (simp add: filter_empty_conv)
    then show ?thesis by simp
  qed (use Cons in simp)
qed simp

definition top_nibble :: "u16 \<Rightarrow> nat" where
  "top_nibble x = unat (drop_bit 12 x AND 0xF)"

lemma top_nibble_less: "top_nibble x < 16"
proof -
  have "drop_bit 12 x AND 0xF \<le> (0xF :: u16)" by (rule word_and_le1)
  then show ?thesis by (simp add: top_nibble_def word_le_nat_alt)
qed

lemma in_line_match:
  assumes "in_line k p" "matches p x" "k < 16"
  shows "top_nibble x = k"
proof -
  obtain m v f where p: "p = (m, v, f)" by (cases p)
  have "x AND 0xf000 = x AND (m AND 0xf000)" using assms(1) p by (simp add: in_line_def)
  also have "\<dots> = (x AND m) AND 0xf000" by (simp add: and.assoc)
  also have "\<dots> = push_bit 12 (of_nat k)" using assms(1,2) p by (simp add: in_line_def)
  finally have "drop_bit 12 (x AND 0xf000) = drop_bit 12 (push_bit 12 (of_nat k) :: u16)" by simp
  then have "top_nibble x = unat (drop_bit 12 (push_bit 12 (of_nat k) :: u16))"
    by (simp add: top_nibble_def drop_bit_and)
  moreover have "k \<in> set [0..<16]" using assms(3) by simp
  ultimately show ?thesis by (auto simp: upt_rec)
qed

lemma length_op_tables: "length op_tables = 16"
  by (simp add: op_tables_def)

lemma other_lines_silent:
  assumes "k < 16" "k \<noteq> top_nibble x" "p \<in> set (op_tables ! k)"
  shows "\<not> matches p x"
proof -
  have "list_all (in_line k) (op_tables ! k)"
    using line_pats_in_line assms(1) by (auto simp: list_all2_conv_all_nth)
  then show ?thesis using assms in_line_match [of k p x] by (auto simp: list_all_iff)
qed

lemma filter_concat_single:
  assumes "k < length ts" "\<forall>j<length ts. j \<noteq> k \<longrightarrow> filter P (ts ! j) = []"
  shows "filter P (concat ts) = filter P (ts ! k)"
  using assms
proof (induction ts arbitrary: k)
  case (Cons t ts)
  show ?case
  proof (cases k)
    case 0
    have "filter P u = []" if u: "u \<in> set ts" for u
    proof -
      from u obtain i where "i < length ts" "u = ts ! i" by (auto simp: in_set_conv_nth)
      then show ?thesis using Cons.prems(2) [rule_format, of "Suc i"] 0 by simp
    qed
    then have "filter P (concat ts) = []" by (auto simp: filter_empty_conv)
    with 0 show ?thesis by simp
  next
    case (Suc j)
    have "filter P t = []" using Cons.prems Suc by force
    moreover have "filter P (concat ts) = filter P (ts ! j)"
      using Cons.prems Suc by (intro Cons.IH) (auto dest: spec [of _ "Suc _"])
    ultimately show ?thesis using Suc by simp
  qed
qed simp

lemma op_table_filter: "filter (\<lambda>p. matches p x) op_table = filter (\<lambda>p. matches p x) (op_tables ! top_nibble x)"
  unfolding op_table_def
  by (rule filter_concat_single)
    (auto simp: length_op_tables top_nibble_less filter_empty_conv dest: other_lines_silent)

lemma first_match_filter:
  "first_match ps x = (case filter (\<lambda>p. matches p x) ps of [] \<Rightarrow> None | p # _ \<Rightarrow> Some (render (snd (snd p)) x))"
  by (induction ps) auto

lemma line_fns_tables: "line_fns = map first_match op_tables"
  by (simp add: line_fns_def op_tables_def line_defs fun_eq_iff)

lemma dispatch_first_match: "(line_fns ! top_nibble x) x = first_match op_table x"
  by (simp add: line_fns_tables length_op_tables top_nibble_less first_match_filter op_table_filter)

lemma op_name_by_table:
  "op_name str sz instr =
     (case first_match op_table instr of
        None \<Rightarrow> (-1, snprintf_buf str sz ''ERR'')
      | Some s \<Rightarrow> (int (length s), if sz = 0 then str else take (sz - 1) s))"
  using dispatch_first_match [of instr]
  by (simp add: op_name_def top_nibble_def snprintf_buf_def split: option.split)

lemma first_match_in:
  "first_match ps x = Some s \<Longrightarrow> \<exists>p\<in>set ps. matches p x \<and> s = render (snd (snd p)) x"
  by (induction ps) (auto split: if_splits)

section \<open>Properties\<close>

text \<open>
  The instruction encoding is unambiguous: no 16-bit opcode matches two of the 154 patterns,
  so the order of the tests does not matter.
\<close>

theorem op_decode_unambiguous: "length (filter (\<lambda>p. matches p instr) op_table) \<le> 1"
proof -
  have "pats_exclusive (op_tables ! top_nibble instr)"
    using line_pats_exclusive by (simp add: list_all_length length_op_tables top_nibble_less)
  then show ?thesis
    unfolding op_table_filter by (rule exclusive_filter)
qed

text \<open>
  C28: dispatching on the top nibble loses no name: \<open>op_name\<close> gives the name of the first matching
  pattern of the whole table, cut to the buffer, and -1 with ERR exactly for the opcodes that match none.
\<close>

theorem op_name_first_match:
  "op_name str sz instr =
     (case first_match op_table instr of
        None \<Rightarrow> (-1, snprintf_buf str sz ''ERR'')
      | Some s \<Rightarrow> (int (length s), if sz = 0 then str else take (sz - 1) s))"
  by (rule op_name_by_table)

definition fmt_size :: "op_fmt \<Rightarrow> nat" where
  "fmt_size f = (case f of Fmt0 s \<Rightarrow> length s | FmtN a b \<Rightarrow> length a + 2 + length b
     | FmtM a b \<Rightarrow> length a + 2 + length b | FmtMN a b c \<Rightarrow> length a + 2 + length b + 2 + length c)"

lemma fmt_sizes: "list_all (\<lambda>p. fmt_size (snd (snd p)) \<le> 27) op_table"
  by code_simp

lemma reg_nm_less: "reg_n x < 16" "reg_m x < 16"
proof -
  have "drop_bit 8 x AND 0xF \<le> (0xF :: u16)" "drop_bit 4 x AND 0xF \<le> (0xF :: u16)"
    by (rule word_and_le1)+
  then show "reg_n x < 16" "reg_m x < 16" by (simp_all add: reg_n_def reg_m_def word_le_nat_alt)
qed

lemma dec_string_reg: "n < 16 \<Longrightarrow> length (dec_string n) \<le> 2"
proof -
  assume "n < 16"
  then have "n div 10 < 10" by simp
  then show ?thesis by (simp add: dec_string.simps [of n] dec_string.simps [of "n div 10"])
qed

lemma render_size: "length (render f x) \<le> fmt_size f"
  using dec_string_reg [OF reg_nm_less(1), of x] dec_string_reg [OF reg_nm_less(2), of x]
  by (cases f) (auto simp: fmt_size_def)

text \<open>
  No name is ever cut by the 256 byte buffer of \<open>print_instr\<close>: every name has at most 27
  characters, and what is printed is the whole name, or ERR.
\<close>

theorem print_instr_whole:
  "print_instr instr = (case first_match op_table instr of None \<Rightarrow> ''ERR'' | Some s \<Rightarrow> s) \<and>
   length (print_instr instr) \<le> 27"
proof -
  have "length s \<le> 27" if fm: "first_match op_table instr = Some s" for s
  proof -
    obtain p where "p \<in> set op_table" "s = render (snd (snd p)) instr"
      using first_match_in [OF fm] by blast
    then show ?thesis
      using fmt_sizes render_size [of "snd (snd p)" instr] by (auto simp: list_all_iff)
  qed
  then show ?thesis
    by (auto simp: print_instr_def op_name_by_table snprintf_buf_def split: option.split)
qed

text \<open>
  C29: as a gtkwave filter, pinst answers the decimal numbers of any sequence of opcodes, one a
  line, with exactly their names, one a line and in order.
\<close>

theorem pinst_translates:
  "pinst_main (concat (map (\<lambda>x. dec_string (unat (x :: u16)) @ [CHR 0x0A]) xs)) =
   concat (map (\<lambda>x. print_instr x @ [CHR 0x0A]) xs)"
proof (induction xs)
  case Nil
  then show ?case by (simp add: pinst_main.simps fgets_def)
next
  case (Cons x xs)
  have "unat x < 65536" using unsigned_less [of x] by simp
  then show ?case
    using Cons.IH
    by (simp add: pinst_main.simps [of "dec_string (unat x) @ CHR 0x0A # _"] fgets_dec_line
        atoi_dec_line print_instr_def op_name_by_table snprintf_buf_def split: option.split)
qed

end
