(* ===== verification/Rom_World.thy ===== *)
theory Rom_World
  imports Prelude
begin

text \<open>
  The machine the ROM monitor of src/testrom runs on, as its C code sees it: the serial line (what
  the host has sent and not yet been read, and what has been sent to it), the memory, and the two
  statics of sh2.c. The monitor's own automatic variables (packet buffers, values whose address is
  taken) are values of the model and not part of \<open>mem\<close>. Memory is big-endian, as the SH-2 is, and
  a 16 or 32 bit access at a misaligned address is an address error.

  A routine of the monitor is a function of the world. It returns (\<open>Ret\<close>), or it stops
  (\<open>Stop\<close>) because it waits for a byte that never comes, reads or writes outside a buffer, takes an
  address error, resumes the interrupted program, restarts the machine or loops for ever.
\<close>

section \<open>State\<close>

record register_file_S =
  pr :: u32
  gbr :: u32
  vbr :: u32
  mach :: u32
  macl :: u32
  r :: "u32 list"
  pc :: u32
  sr :: u32

type_synonym memory = "u32 \<Rightarrow> u8"

record world =
  rx :: "u8 list"
  tx :: "u8 list"
  mem :: memory
  register_file :: register_file_S
  gdb_sh2_stepped_opcode :: u16

datatype stop = Blocked | Overrun | Address_Error | Resumed | Restarted | Endless

datatype 'a outcome = Ret 'a world | Stop stop world

definition gbind :: "'a outcome \<Rightarrow> ('a \<Rightarrow> world \<Rightarrow> 'b outcome) \<Rightarrow> 'b outcome" where
  "gbind m k = (case m of Ret x w \<Rightarrow> k x w | Stop s w \<Rightarrow> Stop s w)"

definition lift_stop :: "(stop + 'a) \<Rightarrow> world \<Rightarrow> 'a outcome" where
  "lift_stop v w = (case v of Inl s \<Rightarrow> Stop s w | Inr x \<Rightarrow> Ret x w)"

lemma gbind_simps [simp]:
  "gbind (Ret x w) k = k x w"
  "gbind (Stop s w) k = Stop s w"
  by (simp_all add: gbind_def)

lemma lift_stop_simps [simp]:
  "lift_stop (Inl s) w = Stop s w"
  "lift_stop (Inr x) w = Ret x w"
  by (simp_all add: lift_stop_def)

lemma gbind_Ret:
  "gbind m k = Ret y w' \<longleftrightarrow> (\<exists>x w. m = Ret x w \<and> k x w = Ret y w')"
  by (cases m) auto

lemma lift_stop_Ret: "lift_stop v w = Ret x w' \<longleftrightarrow> v = Inr x \<and> w' = w"
  by (cases v) auto

lemma gbind_cong [fundef_cong]:
  "m = m' \<Longrightarrow> (\<And>x w. m' = Ret x w \<Longrightarrow> k x w = k' x w) \<Longrightarrow> gbind m k = gbind m' k'"
  by (cases m') auto

definition sbind :: "stop + 'a \<Rightarrow> ('a \<Rightarrow> stop + 'b) \<Rightarrow> stop + 'b" where
  "sbind m k = (case m of Inl s \<Rightarrow> Inl s | Inr x \<Rightarrow> k x)"

lemma sbind_simps [simp]:
  "sbind (Inl s) k = Inl s"
  "sbind (Inr x) k = k x"
  by (simp_all add: sbind_def)

lemma sbind_Inr: "sbind m k = Inr y \<longleftrightarrow> (\<exists>x. m = Inr x \<and> k x = Inr y)"
  by (cases m) auto

lemma sbind_cong [fundef_cong]:
  "m = m' \<Longrightarrow> (\<And>x. m' = Inr x \<Longrightarrow> k x = k' x) \<Longrightarrow> sbind m k = sbind m' k'"
  by (cases m') auto

text \<open>Reading a C array through a pointer into it.\<close>

definition buf_get :: "u8 list \<Rightarrow> nat \<Rightarrow> stop + u8" where
  "buf_get buf i = (if i < length buf then Inr (buf ! i) else Inl Overrun)"

section \<open>Characters\<close>

text \<open>A C character of the monitor is a byte; \<open>ch\<close> and \<open>chs\<close> give the bytes of ASCII literals.\<close>

definition ch :: "char \<Rightarrow> u8" where
  "ch c = of_char c"

definition chs :: "string \<Rightarrow> u8 list" where
  "chs s = map ch s"

lemma ch_CHR [simp]:
  "ch CHR ''$'' = 0x24" "ch CHR ''#'' = 0x23" "ch CHR ''+'' = 0x2b" "ch CHR ''-'' = 0x2d"
  "ch CHR '','' = 0x2c" "ch CHR '':'' = 0x3a" "ch CHR '';'' = 0x3b" "ch CHR ''='' = 0x3d"
  "ch CHR ''/'' = 0x2f" "ch CHR ''?'' = 0x3f"
  by (simp_all add: ch_def)

lemma ch_upper [simp]:
  "ch CHR ''B'' = 0x42" "ch CHR ''D'' = 0x44" "ch CHR ''F'' = 0x46" "ch CHR ''G'' = 0x47"
  "ch CHR ''H'' = 0x48" "ch CHR ''K'' = 0x4b" "ch CHR ''M'' = 0x4d" "ch CHR ''O'' = 0x4f"
  "ch CHR ''P'' = 0x50" "ch CHR ''S'' = 0x53" "ch CHR ''T'' = 0x54" "ch CHR ''X'' = 0x58"
  "ch CHR ''A'' = 0x41"
  by (simp_all add: ch_def)

lemma ch_lower [simp]:
  "ch CHR ''a'' = 0x61" "ch CHR ''c'' = 0x63" "ch CHR ''f'' = 0x66" "ch CHR ''g'' = 0x67"
  "ch CHR ''k'' = 0x6b" "ch CHR ''m'' = 0x6d" "ch CHR ''q'' = 0x71" "ch CHR ''s'' = 0x73"
  "ch CHR ''0'' = 0x30" "ch CHR ''9'' = 0x39"
  by (simp_all add: ch_def)

lemma chs_simps [simp]: "chs [] = []" "chs (c # cs) = ch c # chs cs"
  by (simp_all add: chs_def)

section \<open>Loads and stores\<close>

definition bytes_at :: "memory \<Rightarrow> u32 \<Rightarrow> nat \<Rightarrow> u8 list" where
  "bytes_at m a n = map (\<lambda>i. m (a + of_nat i)) [0..<n]"

fun put_bytes :: "memory \<Rightarrow> u32 \<Rightarrow> u8 list \<Rightarrow> memory" where
  "put_bytes m a [] = m"
| "put_bytes m a (b # bs) = put_bytes (m(a := b)) (a + 1) bs"

definition load_long :: "memory \<Rightarrow> u32 \<Rightarrow> stop + u32" where
  "load_long m a = (if a mod 4 \<noteq> 0 then Inl Address_Error else Inr (be_join (bytes_at m a 4)))"

definition load_short :: "memory \<Rightarrow> u32 \<Rightarrow> stop + u16" where
  "load_short m a = (if a mod 2 \<noteq> 0 then Inl Address_Error else Inr (be_join (bytes_at m a 2)))"

definition store_long :: "memory \<Rightarrow> u32 \<Rightarrow> u32 \<Rightarrow> stop + memory" where
  "store_long m a v = (if a mod 4 \<noteq> 0 then Inl Address_Error else Inr (put_bytes m a (be32 v)))"

definition store_short :: "memory \<Rightarrow> u32 \<Rightarrow> u16 \<Rightarrow> stop + memory" where
  "store_short m a v = (if a mod 2 \<noteq> 0 then Inl Address_Error else Inr (put_bytes m a (be16 v)))"

lemma bytes_at_0 [simp]: "bytes_at m a 0 = []"
  by (simp add: bytes_at_def)

lemma length_bytes_at [simp]: "length (bytes_at m a n) = n"
  by (simp add: bytes_at_def)

lemma bytes_at_Suc: "bytes_at m a (Suc n) = m a # bytes_at m (a + 1) n"
  by (simp add: bytes_at_def map_upt_Suc add.assoc del: upt_Suc)

lemma bytes_at_add: "bytes_at m a (n + k) = bytes_at m a n @ bytes_at m (a + of_nat n) k"
  by (induction n arbitrary: a) (simp_all add: bytes_at_Suc add.assoc)

lemma bytes_at_small:
  "bytes_at m a 1 = [m a]"
  "bytes_at m a 2 = [m a, m (a + 1)]"
  "bytes_at m a 4 = [m a, m (a + 1), m (a + 2), m (a + 3)]"
  by (simp_all add: bytes_at_def eval_nat_numeral add.commute)

lemma put_bytes_append: "put_bytes m a (bs @ cs) = put_bytes (put_bytes m a bs) (a + of_nat (length bs)) cs"
  by (induction bs arbitrary: m a) (simp_all add: add.assoc)

lemma put_bytes_out:
  "(\<And>i. i < length bs \<Longrightarrow> x \<noteq> a + of_nat i) \<Longrightarrow> put_bytes m a bs x = m x"
proof (induction bs arbitrary: m a)
  case (Cons b bs)
  have "x \<noteq> a" using Cons.prems [of 0] by simp
  moreover have "x \<noteq> a + 1 + of_nat i" if "i < length bs" for i
    using Cons.prems [of "Suc i"] that by (simp add: add.assoc)
  ultimately show ?case using Cons.IH by simp
qed simp

lemma put_bytes_in:
  assumes "i < length bs" "length bs \<le> 2 ^ 32"
  shows "put_bytes m a bs (a + of_nat i) = bs ! i"
  using assms
proof (induction bs arbitrary: m a i)
  case (Cons b bs)
  show ?case
  proof (cases i)
    case 0
    have "a \<noteq> a + 1 + of_nat j" if "j < length bs" for j
    proof
      assume "a = a + 1 + of_nat j"
      then have "(of_nat (Suc j) :: u32) = of_nat 0" by (simp add: add.assoc)
      then show False using of_nat_u32_inj [of "Suc j" 0] that Cons.prems by simp
    qed
    then show ?thesis using 0 by (simp add: put_bytes_out)
  next
    case (Suc j)
    have "put_bytes (m(a := b)) (a + 1) bs (a + 1 + of_nat j) = bs ! j"
      using Cons.prems Suc by (intro Cons.IH) simp_all
    then show ?thesis using Suc by (simp add: add.assoc)
  qed
qed simp

lemma bytes_at_put_bytes [simp]:
  "length bs \<le> 2 ^ 32 \<Longrightarrow> bytes_at (put_bytes m a bs) a (length bs) = bs"
  by (rule nth_equalityI) (simp_all add: bytes_at_def put_bytes_in)

lemma put_bytes_same: "put_bytes m a (bytes_at m a n) = m"
  by (induction n arbitrary: a) (simp_all add: bytes_at_Suc)

lemma load_store_long: "store_long m a v = Inr m' \<Longrightarrow> load_long m' a = Inr v"
  using bytes_at_put_bytes [of "be32 v" m a] by (auto simp: store_long_def load_long_def split: if_splits)

lemma load_store_short: "store_short m a v = Inr m' \<Longrightarrow> load_short m' a = Inr v"
  using bytes_at_put_bytes [of "be16 v" m a] by (auto simp: store_short_def load_short_def split: if_splits)

lemma store_loaded_short: "load_short m a = Inr v \<Longrightarrow> store_short (put_bytes m a (be16 x)) a v = Inr m"
proof -
  assume l: "load_short m a = Inr v"
  have "be16 v = bytes_at m a 2"
    using l by (auto simp: load_short_def bytes_at_def numeral_2_eq_2 split: if_splits)
  moreover have "put_bytes (put_bytes m a (be16 x)) a (be16 v) = put_bytes m a (be16 v)"
    by (simp add: be16_def fun_upd_def fun_eq_iff)
  ultimately show ?thesis using l put_bytes_same [of m a 2] by (auto simp: load_short_def store_short_def split: if_splits)
qed

section \<open>The serial line (entry.c)\<close>

text \<open>\<open>gdb_putc\<close> sends the low byte and returns it; \<open>gdb_getc\<close> waits for the next byte.\<close>

definition gdb_putc :: "u8 \<Rightarrow> world \<Rightarrow> u8 outcome" where
  "gdb_putc c w = Ret c (w\<lparr>tx := tx w @ [c]\<rparr>)"

definition gdb_getc :: "world \<Rightarrow> u8 outcome" where
  "gdb_getc w = (case rx w of [] \<Rightarrow> Stop Blocked w | c # cs \<Rightarrow> Ret c (w\<lparr>rx := cs\<rparr>))"

lemma gdb_getc_shorter: "gdb_getc w = Ret c w' \<Longrightarrow> length (rx w') < length (rx w)"
  by (auto simp: gdb_getc_def split: list.splits)

definition out :: "u8 list \<Rightarrow> world \<Rightarrow> world" where
  "out bs w = w\<lparr>tx := tx w @ bs\<rparr>"

lemma out_out [simp]: "out bs (out as w) = out (as @ bs) w"
  by (simp add: out_def)

lemma out_Nil [simp]: "out [] w = w"
  by (simp add: out_def)

lemma gdb_putc_out [simp]: "gdb_putc c w = Ret c (out [c] w)"
  by (simp add: gdb_putc_def out_def)

lemma out_sel [simp]:
  "rx (out bs w) = rx w" "tx (out bs w) = tx w @ bs" "mem (out bs w) = mem w"
  "register_file (out bs w) = register_file w"
  "gdb_sh2_stepped_opcode (out bs w) = gdb_sh2_stepped_opcode w"
  by (simp_all add: out_def)

lemma out_upd [simp]:
  "(out bs w)\<lparr>rx := xs\<rparr> = out bs (w\<lparr>rx := xs\<rparr>)"
  "(out bs w)\<lparr>mem := m\<rparr> = out bs (w\<lparr>mem := m\<rparr>)"
  "(out bs w)\<lparr>register_file := rf\<rparr> = out bs (w\<lparr>register_file := rf\<rparr>)"
  "(out bs w)\<lparr>gdb_sh2_stepped_opcode := op\<rparr> = out bs (w\<lparr>gdb_sh2_stepped_opcode := op\<rparr>)"
  by (simp_all add: out_def)

end
