(* ===== verification/Gdb_Codec.thy ===== *)
theory Gdb_Codec
  imports Rom_World
begin

text \<open>
  The conversions of src/testrom/gdb.c between memory and the text of a packet: hex digits, the
  delimited numbers of the arguments, hex dumps of memory in the largest aligned units, and the
  escaped binary of the X packet. A pointer into the packet is an index into the buffer.

  The two routines that write memory share one loop over aligned units; the locale \<open>unit_writer\<close>
  states it for any source of bytes, and is interpreted for the hex and the escaped-binary routine.
\<close>

section \<open>Hex digits and arguments\<close>

definition hex_to_int :: "u8 \<Rightarrow> u32" where
  "hex_to_int h =
     (if ch CHR ''a'' \<le> h \<and> h \<le> ch CHR ''f'' then ucast h - ucast (ch CHR ''a'') + 10
      else if ch CHR ''0'' \<le> h \<and> h \<le> ch CHR ''9'' then ucast h - ucast (ch CHR ''0'')
      else if ch CHR ''A'' \<le> h \<and> h \<le> ch CHR ''F'' then ucast h - ucast (ch CHR ''A'') + 10
      else 0)"

definition lnibble_to_hex :: "u8 \<Rightarrow> u8" where
  "lnibble_to_hex i = chs ''0123456789abcdef'' ! unat (i AND 0xf)"

function parse_long_loop :: "u8 list \<Rightarrow> nat \<Rightarrow> u32 \<Rightarrow> u8 \<Rightarrow> stop + nat \<times> u32" where
  "parse_long_loop buf h l delim =
     sbind (buf_get buf h) (\<lambda>c.
       if c \<noteq> delim then parse_long_loop buf (h + 1) (push_bit 4 l + hex_to_int c) delim
       else Inr (h + 1, l))"
  by pat_completeness auto
termination
  by (relation "measure (\<lambda>(buf, h, _). length buf - h)") (auto simp: buf_get_def split: if_splits)

declare parse_long_loop.simps [simp del]

definition hargs_parse_long :: "u8 list \<Rightarrow> nat \<Rightarrow> u8 \<Rightarrow> stop + nat \<times> u32" where
  "hargs_parse_long buf hargs delim = parse_long_loop buf hargs 0 delim"

section \<open>Memory to hex\<close>

definition is_aligned_long :: "u32 \<Rightarrow> int \<Rightarrow> bool" where
  "is_aligned_long addr len \<longleftrightarrow> 4 \<le> len \<and> addr mod 4 = 0"

definition is_aligned_short :: "u32 \<Rightarrow> int \<Rightarrow> bool" where
  "is_aligned_short addr len \<longleftrightarrow> 2 \<le> len \<and> addr mod 2 = 0"

text \<open>The digits put into hbuf for the bytes of cbuf; only the low nibble of an argument counts.\<close>

definition hex_bytes :: "u8 list \<Rightarrow> u8 list" where
  "hex_bytes cbuf = concat (map (\<lambda>b. [lnibble_to_hex (drop_bit 4 b), lnibble_to_hex b]) cbuf)"

function mem_to_hexbuf :: "memory \<Rightarrow> u32 \<Rightarrow> int \<Rightarrow> stop + u8 list" where
  "mem_to_hexbuf m a len =
     (if len \<le> 0 then Inr []
      else if is_aligned_long a len then
        sbind (load_long m a) (\<lambda>lbuf. sbind (mem_to_hexbuf m (a + 4) (len - 4)) (\<lambda>hs. Inr (hex_bytes (be32 lbuf) @ hs)))
      else if is_aligned_short a len then
        sbind (load_short m a) (\<lambda>sbuf. sbind (mem_to_hexbuf m (a + 2) (len - 2)) (\<lambda>hs. Inr (hex_bytes (be16 sbuf) @ hs)))
      else
        sbind (mem_to_hexbuf m (a + 1) (len - 1)) (\<lambda>hs. Inr (hex_bytes [m a] @ hs)))"
  by pat_completeness auto
termination
  by (relation "measure (\<lambda>(m, a, len). nat len)") auto

declare mem_to_hexbuf.simps [simp del]

section \<open>Hex and escaped binary to memory\<close>

text \<open>One byte of cbuf from two digits; the loops that fill cbuf.\<close>

definition hex_pair :: "u8 list \<Rightarrow> nat \<Rightarrow> stop + u8 \<times> nat" where
  "hex_pair buf h =
     sbind (buf_get buf h) (\<lambda>c1. sbind (buf_get buf (h + 1)) (\<lambda>c2.
       Inr (ucast (push_bit 4 (hex_to_int c1)) + ucast (hex_to_int c2), h + 2)))"

definition xbin_to_bin :: "u8 list \<Rightarrow> nat \<Rightarrow> stop + u8 \<times> nat" where
  "xbin_to_bin buf x =
     sbind (buf_get buf x) (\<lambda>c.
       if c = 0x7d then sbind (buf_get buf (x + 1)) (\<lambda>d. Inr (d XOR 0x20, x + 2))
       else Inr (c, x + 1))"

fun fill_cbuf :: "(nat \<Rightarrow> stop + u8 \<times> nat) \<Rightarrow> nat \<Rightarrow> nat \<Rightarrow> stop + u8 list \<times> nat" where
  "fill_cbuf next h 0 = Inr ([], h)"
| "fill_cbuf next h (Suc n) =
     sbind (next h) (\<lambda>(b, h'). sbind (fill_cbuf next h' n) (\<lambda>(bs, h''). Inr (b # bs, h'')))"

function hexbuf_to_mem :: "u8 list \<Rightarrow> nat \<Rightarrow> memory \<Rightarrow> u32 \<Rightarrow> int \<Rightarrow> stop + memory \<times> u32" where
  "hexbuf_to_mem buf hbuf m a len =
     (if len \<le> 0 then Inr (m, a)
      else if is_aligned_long a len then
        sbind (fill_cbuf (hex_pair buf) hbuf 4) (\<lambda>(cbuf, hbuf').
          sbind (store_long m a (be_join cbuf)) (\<lambda>m'. hexbuf_to_mem buf hbuf' m' (a + 4) (len - 4)))
      else if is_aligned_short a len then
        sbind (fill_cbuf (hex_pair buf) hbuf 2) (\<lambda>(cbuf, hbuf').
          sbind (store_short m a (be_join cbuf)) (\<lambda>m'. hexbuf_to_mem buf hbuf' m' (a + 2) (len - 2)))
      else
        sbind (hex_pair buf hbuf) (\<lambda>(c, hbuf'). hexbuf_to_mem buf hbuf' (m(a := c)) (a + 1) (len - 1)))"
  by pat_completeness auto
termination
  by (relation "measure (\<lambda>(buf, h, m, a, len). nat len)") auto

declare hexbuf_to_mem.simps [simp del]

function xmem_to_mem :: "u8 list \<Rightarrow> nat \<Rightarrow> memory \<Rightarrow> u32 \<Rightarrow> int \<Rightarrow> stop + memory \<times> u32" where
  "xmem_to_mem buf xmem m a len =
     (if len \<le> 0 then Inr (m, a)
      else if is_aligned_long a len then
        sbind (fill_cbuf (xbin_to_bin buf) xmem 4) (\<lambda>(cbuf, xmem').
          sbind (store_long m a (be_join cbuf)) (\<lambda>m'. xmem_to_mem buf xmem' m' (a + 4) (len - 4)))
      else if is_aligned_short a len then
        sbind (fill_cbuf (xbin_to_bin buf) xmem 2) (\<lambda>(cbuf, xmem').
          sbind (store_short m a (be_join cbuf)) (\<lambda>m'. xmem_to_mem buf xmem' m' (a + 2) (len - 2)))
      else
        sbind (xbin_to_bin buf xmem) (\<lambda>(c, xmem'). xmem_to_mem buf xmem' (m(a := c)) (a + 1) (len - 1)))"
  by pat_completeness auto
termination
  by (relation "measure (\<lambda>(buf, h, m, a, len). nat len)") auto

declare xmem_to_mem.simps [simp del]

section \<open>Hex digits\<close>

lemma low_nibble_less: "unat ((b :: u8) AND 0xf) < 16"
proof -
  have "b AND 0xf \<le> (0xf :: u8)" by (rule word_and_le1)
  then show ?thesis by (simp add: word_le_nat_alt)
qed

lemma hex_table: "map hex_to_int (chs ''0123456789abcdef'') = map of_nat [0..<16]"
  by (simp add: hex_to_int_def ch_def upt_rec)

lemma hex_to_int_lnibble [simp]: "hex_to_int (lnibble_to_hex b) = ucast (b AND 0xf)"
proof -
  have "hex_to_int (lnibble_to_hex b) = map hex_to_int (chs ''0123456789abcdef'') ! unat (b AND 0xf)"
    using low_nibble_less [of b] unfolding lnibble_to_hex_def by (subst nth_map) (simp_all add: chs_def)
  also have "\<dots> = of_nat (unat (b AND 0xf))"
    unfolding hex_table using low_nibble_less [of b] by simp
  finally show ?thesis by simp
qed

lemma lnibble_in_table: "lnibble_to_hex b \<in> set (chs ''0123456789abcdef'')"
  unfolding lnibble_to_hex_def using low_nibble_less [of b] by (intro nth_mem) (simp add: chs_def)

lemma lnibble_ne [simp]:
  "lnibble_to_hex b \<noteq> 0x23" "lnibble_to_hex b \<noteq> 0x24" "lnibble_to_hex b \<noteq> 0x2c"
  "lnibble_to_hex b \<noteq> 0x3a" "lnibble_to_hex b \<noteq> 0x3d" "lnibble_to_hex b \<noteq> 0x2d"
  using lnibble_in_table [of b] by (auto simp: ch_def)

lemma low_nibble: "(b :: u8) AND 0xf = take_bit 4 b"
  by (simp add: take_bit_eq_mask mask_eq_exp_minus_1)

lemma nibbles_join [simp]:
  "ucast (push_bit 4 (ucast (drop_bit 4 b AND 0xf) :: u32)) + ucast (ucast (b AND 0xf) :: u32) = (b :: u8)"
proof -
  have "ucast (push_bit 4 (ucast (drop_bit 4 b AND 0xf) :: u32)) = push_bit 4 (drop_bit 4 b)"
    unfolding low_nibble by (rule bit_word_eqI) (auto simp: bit_simps)
  moreover have "ucast (ucast (b AND 0xf) :: u32) = take_bit 4 b"
    unfolding low_nibble by (rule bit_word_eqI) (auto simp: bit_simps)
  ultimately show ?thesis by (simp add: bits_ident)
qed

lemma hex_bytes_simps [simp]:
  "hex_bytes [] = []"
  "hex_bytes (b # bs) = lnibble_to_hex (drop_bit 4 b) # lnibble_to_hex b # hex_bytes bs"
  "hex_bytes (bs @ cs) = hex_bytes bs @ hex_bytes cs"
  by (simp_all add: hex_bytes_def)

lemma length_hex_bytes [simp]: "length (hex_bytes bs) = 2 * length bs"
  by (induction bs) auto

lemma hex_bytes_no_hash: "0x23 \<notin> set (hex_bytes bs)"
  by (induction bs) (auto dest: sym)

section \<open>Reading through a pointer\<close>

lemma buf_get_at [simp]: "buf_get (xs @ c # ys) (length xs) = Inr c"
  by (simp add: buf_get_def)

lemma buf_get_drop: "drop h buf = c # cs \<Longrightarrow> buf_get buf h = Inr c \<and> drop (h + 1) buf = cs"
proof -
  assume d: "drop h buf = c # cs"
  then have "h < length buf" by (metis drop_all list.distinct(1) not_less)
  then show ?thesis using d by (simp add: buf_get_def Cons_nth_drop_Suc [symmetric])
qed

lemma hex_pair_drop:
  "drop h buf = lnibble_to_hex (drop_bit 4 b) # lnibble_to_hex b # cs \<Longrightarrow>
   hex_pair buf h = Inr (b, h + 2) \<and> drop (h + 2) buf = cs"
  using buf_get_drop [of h buf] buf_get_drop [of "h + 1" buf] by (auto simp: hex_pair_def)

text \<open>The value of a delimited hex number, as the host writes it: any digits, most significant first.\<close>

definition hex_value :: "u8 list \<Rightarrow> u32" where
  "hex_value ds = foldl (\<lambda>l c. push_bit 4 l + hex_to_int c) 0 ds"

lemma parse_long_loop_digits:
  "drop h buf = ds @ delim # rest \<Longrightarrow> delim \<notin> set ds \<Longrightarrow>
   parse_long_loop buf h l delim =
     Inr (h + length ds + 1, foldl (\<lambda>l c. push_bit 4 l + hex_to_int c) l ds)"
proof (induction ds arbitrary: h l)
  case Nil
  then show ?case using buf_get_drop [of h buf delim rest] by (simp add: parse_long_loop.simps)
next
  case (Cons d ds)
  then show ?case
    using buf_get_drop [of h buf d] by (subst parse_long_loop.simps) auto
qed

lemma hargs_parse_long_digits:
  assumes "drop h buf = ds @ delim # rest" "delim \<notin> set ds"
  shows "hargs_parse_long buf h delim = Inr (h + length ds + 1, hex_value ds)"
    and "drop (h + length ds + 1) buf = rest"
proof -
  show "hargs_parse_long buf h delim = Inr (h + length ds + 1, hex_value ds)"
    using parse_long_loop_digits [OF assms] by (simp add: hargs_parse_long_def hex_value_def)
  have "drop (h + length ds + 1) buf = drop (length ds + 1) (drop h buf)"
    by (simp add: add.commute)
  then show "drop (h + length ds + 1) buf = rest" using assms(1) by simp
qed

section \<open>Memory to hex\<close>

lemma be_bytes_at [simp]:
  "be32 (be_join (bytes_at m a 4)) = bytes_at m a 4"
  "be16 (be_join (bytes_at m a 2)) = bytes_at m a 2"
  by (simp_all add: bytes_at_small)

lemma bytes_at_unit:
  assumes "int n \<le> len"
  shows "bytes_at m a (nat len) = bytes_at m a n @ bytes_at m (a + of_nat n) (nat (len - int n))"
proof -
  have "nat len = n + nat (len - int n)" using assms by simp
  then show ?thesis using bytes_at_add [of m a n "nat (len - int n)"] by simp
qed

lemma mem_to_hexbuf_eq: "mem_to_hexbuf m a len = Inr (hex_bytes (bytes_at m a (nat len)))"
proof (induction m a len rule: mem_to_hexbuf.induct)
  case (1 m a len)
  consider "len \<le> 0" | "0 < len" "is_aligned_long a len"
    | "0 < len" "\<not> is_aligned_long a len" "is_aligned_short a len"
    | "0 < len" "\<not> is_aligned_long a len" "\<not> is_aligned_short a len" by linarith
  then show ?case
  proof cases
    case 2
    then show ?thesis
      using 1(1) bytes_at_unit [of 4 len m a]
      by (subst mem_to_hexbuf.simps) (simp add: is_aligned_long_def load_long_def)
  next
    case 3
    then show ?thesis
      using 1(2) bytes_at_unit [of 2 len m a]
      by (subst mem_to_hexbuf.simps) (simp add: is_aligned_short_def load_short_def)
  next
    case 4
    then show ?thesis
      using 1(3) bytes_at_unit [of 1 len m a]
      by (subst mem_to_hexbuf.simps) (simp add: bytes_at_Suc)
  qed (simp add: mem_to_hexbuf.simps)
qed

section \<open>The loop over aligned units\<close>

lemma sbind_assoc [simp]: "sbind (sbind m k) f = sbind m (\<lambda>x. sbind (k x) f)"
  by (cases m) auto

lemma fill_cbuf_add:
  "fill_cbuf next h (n + k) =
     sbind (fill_cbuf next h n) (\<lambda>(ds, h1). sbind (fill_cbuf next h1 k) (\<lambda>(es, h2). Inr (ds @ es, h2)))"
proof (induction n arbitrary: h)
  case 0
  then show ?case by (cases "fill_cbuf next h k") auto
next
  case (Suc n)
  then show ?case by (cases "next h") (auto simp: split_def)
qed

lemma fill_cbuf_length: "fill_cbuf next h n = Inr (ds, h') \<Longrightarrow> length ds = n"
  by (induction n arbitrary: h ds) (auto simp: sbind_Inr)

lemma fill_cbuf_unit:
  assumes "int n \<le> len"
  shows "fill_cbuf next h (nat len) =
     sbind (fill_cbuf next h n) (\<lambda>(ds, h1).
       sbind (fill_cbuf next h1 (nat (len - int n))) (\<lambda>(es, h2). Inr (ds @ es, h2)))"
proof -
  have "nat len = n + nat (len - int n)" using assms by simp
  then show ?thesis using fill_cbuf_add [of "next" h n "nat (len - int n)"] by simp
qed

lemma be32_be_join_list [simp]: "length ds = 4 \<Longrightarrow> be32 (be_join ds) = ds"
  by (auto simp: length_Suc_conv eval_nat_numeral)

lemma be16_be_join_list [simp]: "length ds = 2 \<Longrightarrow> be16 (be_join ds) = ds"
  by (auto simp: length_Suc_conv eval_nat_numeral)

locale unit_writer =
  fixes "next" :: "nat \<Rightarrow> stop + u8 \<times> nat"
    and copy :: "nat \<Rightarrow> memory \<Rightarrow> u32 \<Rightarrow> int \<Rightarrow> stop + memory \<times> u32"
  assumes copy_rec:
    "copy h m a len =
       (if len \<le> 0 then Inr (m, a)
        else if is_aligned_long a len then
          sbind (fill_cbuf next h 4) (\<lambda>(cbuf, h').
            sbind (store_long m a (be_join cbuf)) (\<lambda>m'. copy h' m' (a + 4) (len - 4)))
        else if is_aligned_short a len then
          sbind (fill_cbuf next h 2) (\<lambda>(cbuf, h').
            sbind (store_short m a (be_join cbuf)) (\<lambda>m'. copy h' m' (a + 2) (len - 2)))
        else
          sbind (next h) (\<lambda>(c, h'). copy h' (m(a := c)) (a + 1) (len - 1)))"
begin

text \<open>One iteration: a unit of 4, 2 or 1 bytes is fetched and stored, never misaligned.\<close>

lemma copy_unit:
  assumes "0 < len"
  obtains n where "0 < n" "int n \<le> len"
    "copy h m a len =
       sbind (fill_cbuf next h n) (\<lambda>(ds, h'). copy h' (put_bytes m a ds) (a + of_nat n) (len - int n))"
proof -
  consider "is_aligned_long a len" | "\<not> is_aligned_long a len" "is_aligned_short a len"
    | "\<not> is_aligned_long a len" "\<not> is_aligned_short a len" by blast
  then show ?thesis
  proof cases
    case 1
    then have "copy h m a len =
        sbind (fill_cbuf next h 4) (\<lambda>(ds, h'). copy h' (put_bytes m a ds) (a + of_nat 4) (len - int 4))"
      using assms by (subst copy_rec)
        (auto simp: is_aligned_long_def store_long_def fill_cbuf_length intro!: sbind_cong)
    with 1 show ?thesis by (intro that [of 4]) (auto simp: is_aligned_long_def)
  next
    case 2
    then have "copy h m a len =
        sbind (fill_cbuf next h 2) (\<lambda>(ds, h'). copy h' (put_bytes m a ds) (a + of_nat 2) (len - int 2))"
      using assms by (subst copy_rec)
        (auto simp: is_aligned_short_def store_short_def fill_cbuf_length intro!: sbind_cong)
    with 2 show ?thesis by (intro that [of 2]) (auto simp: is_aligned_short_def)
  next
    case 3
    then have "copy h m a len =
        sbind (fill_cbuf next h 1) (\<lambda>(ds, h'). copy h' (put_bytes m a ds) (a + of_nat 1) (len - int 1))"
      using assms by (subst copy_rec) (cases "next h", auto)
    with assms show ?thesis by (intro that [of 1]) auto
  qed
qed

lemma copy_eq:
  "copy h m a len =
     sbind (fill_cbuf next h (nat len)) (\<lambda>(ds, _). Inr (put_bytes m a ds, a + of_nat (nat len)))"
proof (induction "nat len" arbitrary: h m a len rule: less_induct)
  case less
  show ?case
  proof (cases "0 < len")
    case False
    then show ?thesis by (subst copy_rec) simp
  next
    case True
    then obtain n where n: "0 < n" "int n \<le> len"
      and step: "copy h m a len =
        sbind (fill_cbuf next h n) (\<lambda>(ds, h'). copy h' (put_bytes m a ds) (a + of_nat n) (len - int n))"
      by (rule copy_unit)
    have len: "nat len = n + nat (len - int n)" using n by simp
    have IH: "copy h' m' (a + of_nat n) (len - int n) =
        sbind (fill_cbuf next h' (nat (len - int n))) (\<lambda>(ds, _). Inr (put_bytes m' (a + of_nat n) ds, a + of_nat (nat len)))"
      for h' m'
      using less [of "len - int n" h' m' "a + of_nat n"] n by (simp add: len add.assoc)
    show ?thesis
      unfolding step IH fill_cbuf_unit [OF n(2)]
      by (auto simp: split_def put_bytes_append fill_cbuf_length sbind_Inr intro!: sbind_cong)
  qed
qed

end

interpretation hexw: unit_writer "hex_pair buf" "hexbuf_to_mem buf" for buf
  by unfold_locales (rule hexbuf_to_mem.simps)

interpretation xbinw: unit_writer "xbin_to_bin buf" "xmem_to_mem buf" for buf
  by unfold_locales (rule xmem_to_mem.simps)

section \<open>What the two byte sources read\<close>

lemma fill_hex:
  "drop h buf = hex_bytes ds @ rest \<Longrightarrow>
   fill_cbuf (hex_pair buf) h (length ds) = Inr (ds, h + 2 * length ds)"
proof (induction ds arbitrary: h)
  case (Cons d ds)
  then show ?case using hex_pair_drop [of h buf d] by simp
qed simp

text \<open>The host's side of the escaped binary: the bytes with a meaning to the framing are escaped.\<close>

definition xescape1 :: "u8 \<Rightarrow> u8 list" where
  "xescape1 b = (if b = 0x23 \<or> b = 0x24 \<or> b = 0x7d then [0x7d, b XOR 0x20] else [b])"

definition xescape :: "u8 list \<Rightarrow> u8 list" where
  "xescape bs = concat (map xescape1 bs)"

lemma xescape_simps [simp]: "xescape [] = []" "xescape (b # bs) = xescape1 b @ xescape bs"
  by (simp_all add: xescape_def)

lemma xbin_drop:
  assumes "drop h buf = xescape1 b @ cs"
  shows "xbin_to_bin buf h = Inr (b, h + length (xescape1 b)) \<and> drop (h + length (xescape1 b)) buf = cs"
proof (cases "b = 0x23 \<or> b = 0x24 \<or> b = 0x7d")
  case True
  then have d: "drop h buf = 0x7d # (b XOR 0x20) # cs" using assms by (auto simp: xescape1_def)
  have "(b XOR 0x20) XOR 0x20 = b" by (simp add: xor.assoc)
  with True buf_get_drop [OF d] buf_get_drop [of "h + 1" buf "b XOR 0x20" cs] show ?thesis
    by (auto simp: xescape1_def xbin_to_bin_def)
next
  case False
  then have d: "drop h buf = b # cs" using assms by (auto simp: xescape1_def)
  from False buf_get_drop [OF d] show ?thesis by (auto simp: xescape1_def xbin_to_bin_def)
qed

lemma fill_xbin:
  "drop h buf = xescape ds @ rest \<Longrightarrow>
   fill_cbuf (xbin_to_bin buf) h (length ds) = Inr (ds, h + length (xescape ds))"
proof (induction ds arbitrary: h)
  case (Cons d ds)
  then show ?case using xbin_drop [of h buf d "xescape ds @ rest"] by (simp add: add.assoc)
qed simp

lemma xescape_no_hash: "0x23 \<notin> set (xescape bs)"
  by (induction bs) (auto simp: xescape1_def)

lemma hexbuf_to_mem_digits:
  "drop h buf = hex_bytes ds @ rest \<Longrightarrow>
   hexbuf_to_mem buf h m a (int (length ds)) = Inr (put_bytes m a ds, a + of_nat (length ds))"
  using fill_hex [of h buf ds rest] by (simp add: hexw.copy_eq)

lemma xmem_to_mem_escaped:
  "drop h buf = xescape ds @ rest \<Longrightarrow>
   xmem_to_mem buf h m a (int (length ds)) = Inr (put_bytes m a ds, a + of_nat (length ds))"
  using fill_xbin [of h buf ds rest] by (simp add: xbinw.copy_eq)

lemma hex_value_snoc: "hex_value (ds @ [c]) = push_bit 4 (hex_value ds) + hex_to_int c"
  by (simp add: hex_value_def)

lemma hex_value_wraps: "hex_value ds = of_nat (foldl (\<lambda>v c. 16 * v + unat (hex_to_int c)) 0 ds)"
  by (induction ds rule: rev_induct) (simp_all add: hex_value_snoc push_bit_eq_mult mult.commute, simp add: hex_value_def)

section \<open>Properties\<close>

text \<open>
  A memory dump is exact at every address and length: the loop over longs, shorts and bytes
  never takes an address error and yields two digits a byte, in address order.
\<close>

theorem mem_to_hexbuf_dump: "mem_to_hexbuf m a len = Inr (hex_bytes (bytes_at m a (nat len)))"
  by (rule mem_to_hexbuf_eq)

text \<open>
  What is dumped can be loaded back: the digits that \<open>mem_to_hexbuf\<close> makes of a region, found
  anywhere in a packet buffer, make \<open>hexbuf_to_mem\<close> store exactly these bytes, at any address, with no
  address error and nothing else changed.
\<close>

theorem hexbuf_to_mem_roundtrip:
  "sbind (mem_to_hexbuf m a (int n)) (\<lambda>hs. hexbuf_to_mem (pre @ hs @ rest) (length pre) m' b (int n)) =
   Inr (put_bytes m' b (bytes_at m a n), b + of_nat n)"
  using hexbuf_to_mem_digits [of "length pre" "pre @ hex_bytes (bytes_at m a n) @ rest" "bytes_at m a n" rest m' b]
  by (simp add: mem_to_hexbuf_eq)

text \<open>
  The escaped binary of an X packet, found anywhere in the buffer, is stored byte for byte.
\<close>

theorem xmem_to_mem_roundtrip:
  "xmem_to_mem (pre @ xescape ds @ rest) (length pre) m a (int (length ds)) =
   Inr (put_bytes m a ds, a + of_nat (length ds))"
  by (rule xmem_to_mem_escaped) simp

text \<open>
  \<open>hargs_parse_long\<close> reads the digits up to its delimiter as a base 16 number modulo \<open>2 ^ 32\<close>
  and leaves the pointer after the delimiter; other characters count as the digit 0.
\<close>

theorem hargs_parse_long_value:
  assumes "delim \<notin> set ds"
  shows "hargs_parse_long (pre @ ds @ delim # rest) (length pre) delim =
     Inr (length pre + length ds + 1, of_nat (foldl (\<lambda>v c. 16 * v + unat (hex_to_int c)) 0 ds))"
  using hargs_parse_long_digits(1) [of "length pre" "pre @ ds @ delim # rest" ds delim rest] assms
  by (simp add: hex_value_wraps)

end
