(* ===== verification/Gdb_Packets.thy ===== *)
theory Gdb_Packets
  imports Gdb_Codec
begin

text \<open>
  Packet transport of src/testrom/gdb.c: \<open>putbuf\<close>, \<open>putmsg\<close> and \<open>getmsg\<close>. The loops that wait for the
  host recurse on the input that is left, so a byte that never comes ends in \<open>Stop Blocked\<close>.

  Four routines send a packet again until the host acknowledges it. The locale \<open>acked_sender\<close> states
  this loop for any routine that sends the same bytes each time.
\<close>

section \<open>Sending\<close>

fun putbuf_loop :: "nat \<Rightarrow> u8 list \<Rightarrow> nat \<Rightarrow> u8 \<Rightarrow> world \<Rightarrow> u8 outcome" where
  "putbuf_loop 0 buf i csum w = Ret csum w"
| "putbuf_loop (Suc len) buf i csum w =
     gbind (lift_stop (buf_get buf i) w) (\<lambda>c w1.
     gbind (gdb_putc c w1) (\<lambda>_ w2. putbuf_loop len buf (i + 1) (csum + c) w2))"

definition putbuf :: "nat \<Rightarrow> u8 list \<Rightarrow> world \<Rightarrow> u8 outcome" where
  "putbuf len buf w = putbuf_loop len buf 0 0 w"

text \<open>The footer of every packet: the hash sign and the two digits of the checksum.\<close>

definition put_footer :: "u8 \<Rightarrow> world \<Rightarrow> unit outcome" where
  "put_footer csum w =
     gbind (gdb_putc (ch CHR ''#'') w) (\<lambda>_ w1.
     gbind (gdb_putc (lnibble_to_hex (drop_bit 4 csum)) w1) (\<lambda>_ w2.
     gbind (gdb_putc (lnibble_to_hex csum) w2) (\<lambda>_ w3. Ret () w3)))"

definition putmsg_send :: "u8 \<Rightarrow> u8 list \<Rightarrow> nat \<Rightarrow> world \<Rightarrow> unit outcome" where
  "putmsg_send c buf len w =
     gbind (gdb_putc (ch CHR ''$'') w) (\<lambda>_ w1.
     gbind (if c \<noteq> 0 then gdb_putc c w1 else Ret 0 w1) (\<lambda>_ w2.
     gbind (putbuf len buf w2) (\<lambda>s w3. put_footer (c + s) w3)))"

lemma putbuf_loop_rx: "putbuf_loop len buf i s w = Ret v w' \<Longrightarrow> rx w' = rx w"
  by (induction len buf i s w rule: putbuf_loop.induct) (auto simp: gbind_Ret lift_stop_Ret)

lemma putmsg_send_rx: "putmsg_send c buf len w = Ret v w' \<Longrightarrow> rx w' = rx w"
  by (auto simp: putmsg_send_def put_footer_def putbuf_def gbind_Ret dest!: putbuf_loop_rx split: if_splits)

function putmsg :: "u8 \<Rightarrow> u8 list \<Rightarrow> nat \<Rightarrow> world \<Rightarrow> unit outcome" where
  "putmsg c buf len w =
     gbind (putmsg_send c buf len w) (\<lambda>_ w1.
     gbind (gdb_getc w1) (\<lambda>a w2. if ch CHR ''+'' \<noteq> a then putmsg c buf len w2 else Ret () w2))"
  by pat_completeness auto
termination
  by (relation "measure (\<lambda>(c, buf, len, w). length (rx w))")
    (auto dest!: putmsg_send_rx gdb_getc_shorter)

declare putmsg.simps [simp del]

section \<open>Receiving\<close>

function wait_start :: "world \<Rightarrow> unit outcome" where
  "wait_start w = gbind (gdb_getc w) (\<lambda>c w1. if c \<noteq> ch CHR ''$'' then wait_start w1 else Ret () w1)"
  by pat_completeness auto
termination
  by (relation "measure (\<lambda>w. length (rx w))") (auto dest: gdb_getc_shorter)

declare wait_start.simps [simp del]

definition buf_set :: "u8 list \<Rightarrow> nat \<Rightarrow> u8 \<Rightarrow> stop + u8 list" where
  "buf_set buf i c = (if i < length buf then Inr (buf[i := c]) else Inl Overrun)"

function rx_data :: "u8 list \<Rightarrow> nat \<Rightarrow> u8 \<Rightarrow> world \<Rightarrow> (u8 list \<times> u8) outcome" where
  "rx_data rxbuf i csum w =
     gbind (gdb_getc w) (\<lambda>c w1.
     gbind (lift_stop (buf_set rxbuf i c) w1) (\<lambda>rxbuf1 w2.
       let csum1 = (if c \<noteq> ch CHR ''#'' then csum + c else csum) in
       gbind (lift_stop (buf_set rxbuf1 (i + 1) 0) w2) (\<lambda>rxbuf2 w3.
         if c \<noteq> ch CHR ''#'' then rx_data rxbuf2 (i + 1) csum1 w3 else Ret (rxbuf2, csum1) w3)))"
  by pat_completeness auto
termination
  by (relation "measure (\<lambda>(rxbuf, i, csum, w). length (rx w))")
    (auto simp: lift_stop_Ret dest: gdb_getc_shorter)

declare rx_data.simps [simp del]

definition rx_checksum :: "world \<Rightarrow> u8 outcome" where
  "rx_checksum w =
     gbind (gdb_getc w) (\<lambda>h1 w1.
     gbind (gdb_getc w1) (\<lambda>h2 w2.
       Ret (push_bit 4 (ucast (hex_to_int h1)) + ucast (hex_to_int h2)) w2))"

lemma wait_start_rx: "wait_start w = Ret v w' \<Longrightarrow> length (rx w') < length (rx w)"
  by (induction w rule: wait_start.induct)
    (subst (asm) (2) wait_start.simps, force simp: gbind_Ret split: if_splits dest: gdb_getc_shorter)

lemma rx_data_rx: "rx_data rxbuf i csum w = Ret v w' \<Longrightarrow> length (rx w') < length (rx w)"
proof (induction rxbuf i csum w rule: rx_data.induct)
  case (1 rxbuf i csum w)
  from 1(2) obtain c w1 where g: "gdb_getc w = Ret c w1"
    by (subst (asm) rx_data.simps) (auto simp: gbind_Ret)
  with 1 show ?case
    by (subst (asm) (2) rx_data.simps)
      (force simp: gbind_Ret lift_stop_Ret Let_def split: if_splits dest: gdb_getc_shorter)
qed

lemma rx_checksum_rx: "rx_checksum w = Ret v w' \<Longrightarrow> length (rx w') < length (rx w)"
  by (auto simp: rx_checksum_def gbind_Ret dest!: gdb_getc_shorter)

function getmsg :: "u8 list \<Rightarrow> world \<Rightarrow> u8 list outcome" where
  "getmsg rxbuf w =
     gbind (wait_start w) (\<lambda>_ w1.
     gbind (rx_data rxbuf 0 0 w1) (\<lambda>p w2.
     let rxbuf1 = fst p; csum = snd p in
     gbind (rx_checksum w2) (\<lambda>rx_sum w3.
       if csum \<noteq> rx_sum then gbind (gdb_putc (ch CHR ''-'') w3) (\<lambda>_ w4. getmsg rxbuf1 w4)
       else gbind (gdb_putc (ch CHR ''+'') w3) (\<lambda>_ w4. Ret rxbuf1 w4))))"
  by pat_completeness auto
termination
  by (relation "measure (\<lambda>(rxbuf, w). length (rx w))")
    (auto dest!: wait_start_rx rx_data_rx rx_checksum_rx)

declare getmsg.simps [simp del]

section \<open>Frames\<close>

text \<open>A packet as the protocol describes it, with the checksum of its data modulo 256.\<close>

definition packet :: "u8 list \<Rightarrow> u8 list" where
  "packet ds = ch CHR ''$'' # ds @ ch CHR ''#'' # hex_bytes [sum_list ds]"

lemma putbuf_loop_out:
  "i + n \<le> length buf \<Longrightarrow>
   putbuf_loop n buf i s w = Ret (s + sum_list (take n (drop i buf))) (out (take n (drop i buf)) w)"
proof (induction n arbitrary: i s w)
  case (Suc n)
  then have "take (Suc n) (drop i buf) = buf ! i # take n (drop (i + 1) buf)"
    by (simp add: Cons_nth_drop_Suc [symmetric])
  then show ?case using Suc by (simp add: buf_get_def add.assoc)
qed simp

lemma putbuf_out [simp]:
  "n \<le> length buf \<Longrightarrow> putbuf n buf w = Ret (sum_list (take n buf)) (out (take n buf) w)"
  by (simp add: putbuf_def putbuf_loop_out)

lemma put_footer_out [simp]: "put_footer s w = Ret () (out (ch CHR ''#'' # hex_bytes [s]) w)"
  by (simp add: put_footer_def)

definition msg_data :: "u8 \<Rightarrow> u8 list \<Rightarrow> nat \<Rightarrow> u8 list" where
  "msg_data c buf len = (if c \<noteq> 0 then [c] else []) @ take len buf"

lemma putmsg_send_out: "len \<le> length buf \<Longrightarrow> putmsg_send c buf len w = Ret () (out (packet (msg_data c buf len)) w)"
  by (simp add: putmsg_send_def packet_def msg_data_def)

section \<open>Sending until acknowledged\<close>

definition quiet :: "(world \<Rightarrow> 'a) \<Rightarrow> bool" where
  "quiet f \<longleftrightarrow> (\<forall>w bs xs. f (out bs (w\<lparr>rx := xs\<rparr>)) = f w)"

lemma quiet_const [simp]: "quiet (\<lambda>_. x)"
  by (simp add: quiet_def)

lemma quiet_rf: "quiet (\<lambda>w. f (register_file w))"
  by (simp add: quiet_def)

locale acked_sender =
  fixes send :: "world \<Rightarrow> unit outcome"
    and loop :: "world \<Rightarrow> unit outcome"
    and frame :: "world \<Rightarrow> u8 list"
  assumes send_out: "send w = Ret () (out (frame w) w)"
    and loop_rec: "loop w = gbind (send w) (\<lambda>_ w1.
        gbind (gdb_getc w1) (\<lambda>a w2. if ch CHR ''+'' \<noteq> a then loop w2 else Ret () w2))"
    and frame_quiet: "quiet frame"
begin

lemma frame_same [simp]: "frame (out bs (w\<lparr>rx := xs\<rparr>)) = frame w"
  using frame_quiet by (simp add: quiet_def)

text \<open>Every answer but a plus sign makes the same packet go out again.\<close>

lemma loop_acked:
  "rx w = naks @ ch CHR ''+'' # rest \<Longrightarrow> ch CHR ''+'' \<notin> set naks \<Longrightarrow>
   loop w = Ret () (out (concat (replicate (Suc (length naks)) (frame w))) (w\<lparr>rx := rest\<rparr>))"
proof (induction naks arbitrary: w)
  case Nil
  then show ?case by (subst loop_rec) (simp add: send_out gdb_getc_def)
next
  case (Cons a naks)
  have "loop (out (frame w) (w\<lparr>rx := naks @ ch CHR ''+'' # rest\<rparr>)) =
      Ret () (out (frame w @ concat (replicate (Suc (length naks)) (frame w))) (w\<lparr>rx := rest\<rparr>))"
    using Cons.IH [of "out (frame w) (w\<lparr>rx := naks @ ch CHR ''+'' # rest\<rparr>)"] Cons.prems by simp
  with Cons.prems show ?case by (subst loop_rec) (auto simp: send_out gdb_getc_def)
qed

lemma loop_blocked:
  "ch CHR ''+'' \<notin> set (rx w) \<Longrightarrow>
   loop w = Stop Blocked (out (concat (replicate (Suc (length (rx w))) (frame w))) (w\<lparr>rx := []\<rparr>))"
proof (induction "rx w" arbitrary: w)
  case Nil
  then have "w\<lparr>rx := []\<rparr> = w" by (cases w) simp
  with Nil show ?case by (subst loop_rec) (simp add: send_out gdb_getc_def)
next
  case (Cons a xs)
  have "loop (out (frame w) (w\<lparr>rx := xs\<rparr>)) =
      Stop Blocked (out (frame w @ concat (replicate (Suc (length xs)) (frame w))) (w\<lparr>rx := []\<rparr>))"
    using Cons(1) [of "out (frame w) (w\<lparr>rx := xs\<rparr>)"] Cons(3) by (simp add: Cons(2) [symmetric])
  with Cons(3) show ?case by (subst loop_rec) (auto simp: send_out gdb_getc_def Cons(2) [symmetric])
qed

lemma loop_rx: "loop w = Ret () w' \<Longrightarrow> length (rx w') \<le> length (rx w)"
proof -
  assume l: "loop w = Ret () w'"
  then have "ch CHR ''+'' \<in> set (rx w)" using loop_blocked [of w] by fastforce
  then obtain naks rest where "rx w = naks @ ch CHR ''+'' # rest" "ch CHR ''+'' \<notin> set naks"
    by (meson split_list_first)
  with l show ?thesis using loop_acked [of w naks rest] by auto
qed

end

definition msg_of :: "u8 \<Rightarrow> u8 list \<Rightarrow> u8 list" where
  "msg_of c buf = (if c \<noteq> 0 then [c] else []) @ buf"

interpretation msg: acked_sender "putmsg_send c buf (length buf)" "putmsg c buf (length buf)"
  "\<lambda>_. packet (msg_of c buf)" for c buf
proof unfold_locales
  show "putmsg_send c buf (length buf) w = Ret () (out (packet (msg_of c buf)) w)" for w
    by (simp add: putmsg_send_out msg_data_def msg_of_def)
  show "putmsg c buf (length buf) w = gbind (putmsg_send c buf (length buf) w) (\<lambda>_ w1.
      gbind (gdb_getc w1) (\<lambda>a w2. if ch CHR ''+'' \<noteq> a then putmsg c buf (length buf) w2 else Ret () w2))" for w
    by (rule putmsg.simps)
qed simp

section \<open>Receiving a frame\<close>

lemma wait_start_skip:
  "rx w = junk @ ch CHR ''$'' # rest \<Longrightarrow> ch CHR ''$'' \<notin> set junk \<Longrightarrow> wait_start w = Ret () (w\<lparr>rx := rest\<rparr>)"
proof (induction junk arbitrary: w)
  case Nil
  then show ?case by (subst wait_start.simps) (simp add: gdb_getc_def)
next
  case (Cons j junk)
  have "wait_start (w\<lparr>rx := junk @ ch CHR ''$'' # rest\<rparr>) = Ret () (w\<lparr>rx := rest\<rparr>)"
    using Cons.IH [of "w\<lparr>rx := junk @ ch CHR ''$'' # rest\<rparr>"] Cons.prems by simp
  with Cons.prems show ?case by (subst wait_start.simps) (auto simp: gdb_getc_def)
qed

lemma two_updates:
  assumes "Suc i < length xs"
  shows "xs[i := a, Suc i := b] = take i xs @ a # b # drop (Suc (Suc i)) xs"
proof -
  have "xs[i := a] = take i xs @ a # drop (Suc i) xs"
    using assms by (simp add: upd_conv_take_nth_drop)
  moreover have "drop (Suc i) xs = xs ! Suc i # drop (Suc (Suc i)) xs"
    using assms by (simp add: Cons_nth_drop_Suc)
  ultimately show ?thesis using assms by (simp add: list_update_append)
qed

lemma rx_data_frame:
  "rx w = ds @ ch CHR ''#'' # rest \<Longrightarrow> ch CHR ''#'' \<notin> set ds \<Longrightarrow> i + length ds + 2 \<le> length rxbuf \<Longrightarrow>
   rx_data rxbuf i s w =
     Ret (take i rxbuf @ ds @ ch CHR ''#'' # 0 # drop (i + length ds + 2) rxbuf, s + sum_list ds) (w\<lparr>rx := rest\<rparr>)"
proof (induction ds arbitrary: w i s rxbuf)
  case Nil
  then show ?case
    by (subst rx_data.simps) (simp add: gdb_getc_def buf_set_def Let_def two_updates)
next
  case (Cons d ds)
  define b where "b = rxbuf[i := d, i + 1 := 0]"
  have "take (i + 1) b = take i rxbuf @ [d]"
    using Cons.prems(3) by (simp add: b_def two_updates)
  moreover have "drop (i + 1 + length ds + 2) b = drop (i + length (d # ds) + 2) rxbuf"
    by (simp add: b_def)
  moreover note b = calculation
  have "rx_data b (i + 1) (s + d) (w\<lparr>rx := ds @ ch CHR ''#'' # rest\<rparr>) =
      Ret (take i rxbuf @ (d # ds) @ ch CHR ''#'' # 0 # drop (i + length (d # ds) + 2) rxbuf, s + sum_list (d # ds)) (w\<lparr>rx := rest\<rparr>)"
    using Cons.IH [of "w\<lparr>rx := ds @ ch CHR ''#'' # rest\<rparr>" "i + 1" b "s + d"] Cons.prems b
    by (simp add: b_def add.assoc)
  with Cons.prems show ?case
    by (subst rx_data.simps) (auto simp: gdb_getc_def buf_set_def Let_def b_def)
qed

lemma rx_data_overrun:
  "rx w = ds @ rest \<Longrightarrow> ch CHR ''#'' \<notin> set ds \<Longrightarrow> i < length rxbuf \<Longrightarrow> length rxbuf \<le> i + length ds \<Longrightarrow>
   \<exists>w'. rx_data rxbuf i s w = Stop Overrun w'"
proof (induction ds arbitrary: w i s rxbuf)
  case (Cons d ds)
  show ?case
  proof (cases "i + 1 < length rxbuf")
    case True
    have "\<exists>w'. rx_data (rxbuf[i := d, i + 1 := 0]) (i + 1) (s + d) (w\<lparr>rx := ds @ rest\<rparr>) = Stop Overrun w'"
      using Cons.prems True by (intro Cons.IH) auto
    then show ?thesis
      using Cons.prems True by (subst rx_data.simps) (auto simp: gdb_getc_def buf_set_def Let_def)
  next
    case False
    then show ?thesis
      using Cons.prems by (subst rx_data.simps) (auto simp: gdb_getc_def buf_set_def Let_def)
  qed
qed simp

definition rx_sum_of :: "u8 \<Rightarrow> u8 \<Rightarrow> u8" where
  "rx_sum_of h1 h2 = push_bit 4 (ucast (hex_to_int h1)) + ucast (hex_to_int h2)"

lemma rx_sum_of_hex: "rx_sum_of (lnibble_to_hex (drop_bit 4 b)) (lnibble_to_hex b) = b"
proof -
  have "push_bit 4 (ucast x :: u8) = ucast (push_bit 4 x)" for x :: u32
    by (rule bit_word_eqI) (auto simp: bit_simps)
  then show ?thesis using nibbles_join [of b] by (simp add: rx_sum_of_def)
qed

lemma rx_checksum_digits: "rx w = h1 # h2 # rest \<Longrightarrow> rx_checksum w = Ret (rx_sum_of h1 h2) (w\<lparr>rx := rest\<rparr>)"
  by (simp add: rx_checksum_def gdb_getc_def rx_sum_of_def)

text \<open>What \<open>getmsg\<close> does with the next frame, right or wrong, behind any noise.\<close>

lemma getmsg_frame:
  assumes "rx w = junk @ ch CHR ''$'' # ds @ ch CHR ''#'' # h1 # h2 # rest"
    and "ch CHR ''$'' \<notin> set junk" "ch CHR ''#'' \<notin> set ds" "length ds + 2 \<le> length rxbuf"
  shows "getmsg rxbuf w =
    (let rxbuf1 = ds @ ch CHR ''#'' # 0 # drop (length ds + 2) rxbuf; w1 = w\<lparr>rx := rest\<rparr>
     in if sum_list ds = rx_sum_of h1 h2 then Ret rxbuf1 (out [ch CHR ''+''] w1)
        else getmsg rxbuf1 (out [ch CHR ''-''] w1))"
proof -
  define w1 where "w1 = w\<lparr>rx := ds @ ch CHR ''#'' # h1 # h2 # rest\<rparr>"
  have a: "wait_start w = Ret () w1"
    using wait_start_skip assms(1,2) by (simp add: w1_def)
  have b: "rx_data rxbuf 0 0 w1 = Ret (ds @ ch CHR ''#'' # 0 # drop (length ds + 2) rxbuf, sum_list ds) (w\<lparr>rx := h1 # h2 # rest\<rparr>)"
    using rx_data_frame [of w1 ds "h1 # h2 # rest" 0 rxbuf 0] assms(3,4) by (simp add: w1_def)
  have c: "rx_checksum (w\<lparr>rx := h1 # h2 # rest\<rparr>) = Ret (rx_sum_of h1 h2) (w\<lparr>rx := rest\<rparr>)"
    by (simp add: rx_checksum_digits)
  show ?thesis by (subst getmsg.simps) (simp add: a b c Let_def)
qed

lemma getmsg_packet:
  assumes "rx w = junk @ packet ds @ rest"
    and "ch CHR ''$'' \<notin> set junk" "ch CHR ''#'' \<notin> set ds" "length ds + 2 \<le> length rxbuf"
  shows "getmsg rxbuf w =
    Ret (ds @ ch CHR ''#'' # 0 # drop (length ds + 2) rxbuf) (out [ch CHR ''+''] (w\<lparr>rx := rest\<rparr>))"
proof -
  have "rx w = junk @ ch CHR ''$'' # ds @ ch CHR ''#'' #
      lnibble_to_hex (drop_bit 4 (sum_list ds)) # lnibble_to_hex (sum_list ds) # rest"
    using assms(1) by (simp add: packet_def)
  from getmsg_frame [OF this assms(2-4)] show ?thesis by (simp add: rx_sum_of_hex Let_def)
qed

text \<open>Frames with a wrong checksum.\<close>

fun raw_frame :: "u8 list \<times> u8 \<times> u8 \<Rightarrow> u8 list" where
  "raw_frame (ds, h1, h2) = ch CHR ''$'' # ds @ ch CHR ''#'' # [h1, h2]"

fun bad_frame :: "nat \<Rightarrow> u8 list \<times> u8 \<times> u8 \<Rightarrow> bool" where
  "bad_frame n (ds, h1, h2) \<longleftrightarrow>
     ch CHR ''#'' \<notin> set ds \<and> sum_list ds \<noteq> rx_sum_of h1 h2 \<and> length ds + 2 \<le> n"

lemma getmsg_resyncs:
  assumes "rx w = concat (map raw_frame bads) @ junk @ packet ds @ rest"
    and "list_all (bad_frame (length rxbuf)) bads"
    and "ch CHR ''$'' \<notin> set junk" "ch CHR ''#'' \<notin> set ds" "length ds + 2 \<le> length rxbuf"
  shows "\<exists>tail. getmsg rxbuf w = Ret (ds @ ch CHR ''#'' # 0 # tail)
      (out (replicate (length bads) (ch CHR ''-'') @ [ch CHR ''+'']) (w\<lparr>rx := rest\<rparr>)) \<and>
    length ds + 2 + length tail = length rxbuf"
  using assms
proof (induction bads arbitrary: w rxbuf)
  case Nil
  then show ?case using getmsg_packet [of w junk ds rest rxbuf] by simp
next
  case (Cons f bads)
  obtain es h1 h2 where f: "f = (es, h1, h2)" by (cases f)
  let ?rest = "concat (map raw_frame bads) @ junk @ packet ds @ rest"
  define b where "b = es @ ch CHR ''#'' # 0 # drop (length es + 2) rxbuf"
  let ?w = "out [ch CHR ''-''] (w\<lparr>rx := ?rest\<rparr>)"
  have "rx w = [] @ ch CHR ''$'' # es @ ch CHR ''#'' # h1 # h2 # ?rest"
    using Cons.prems(1) f by simp
  then have "getmsg rxbuf w = getmsg b ?w"
    using getmsg_frame [of w "[]" es h1 h2 ?rest rxbuf] Cons.prems(2) f by (simp add: Let_def b_def)
  moreover have "length b = length rxbuf" using Cons.prems(2) f by (simp add: b_def, arith)
  ultimately show ?case using Cons.IH [of ?w b] Cons.prems by simp
qed

section \<open>Properties\<close>

text \<open>
  C23: \<open>putmsg\<close> sends the framed message, and sends the same frame again for every answer that is
  not a plus sign, until the plus sign comes; nothing after it is read.
\<close>

theorem putmsg_until_ack:
  assumes "rx w = naks @ ch CHR ''+'' # rest" "ch CHR ''+'' \<notin> set naks"
  shows "putmsg c buf (length buf) w =
    Ret () (out (concat (replicate (Suc (length naks)) (packet (msg_of c buf)))) (w\<lparr>rx := rest\<rparr>))"
  using assms by (rule msg.loop_acked)

definition empty_world :: "u8 list \<Rightarrow> world" where
  "empty_world input = \<lparr>rx = input, tx = [], mem = (\<lambda>_. 0),
     register_file = \<lparr>pr = 0, gbr = 0, vbr = 0, mach = 0, macl = 0, r = replicate 16 0, pc = 0, sr = 0\<rparr>,
     gdb_sh2_stepped_opcode = 0\<rparr>"

theorem putmsg_until_ack_witness:
  "putmsg 0 (chs ''OK'') (length (chs ''OK'')) (empty_world (chs ''-+'')) = Ret () (out (chs ''$OK#9a$OK#9a'') (empty_world []))"
  using putmsg_until_ack [of "empty_world (chs ''-+'')" "chs ''-''" "[]" 0 "chs ''OK''"]
  by (simp add: empty_world_def packet_def msg_of_def lnibble_to_hex_def ch_def)

text \<open>
  C3: the receiver resynchronises: after any number of frames with a wrong checksum, each answered
  with a minus sign, and any noise, the next correct packet that fits is delivered with its
  terminator and answered with a plus sign, and exactly the input up to its end is consumed.
\<close>

theorem getmsg_delivers:
  assumes "rx w = concat (map raw_frame bads) @ junk @ packet ds @ rest"
    and "list_all (bad_frame (length rxbuf)) bads"
    and "ch CHR ''$'' \<notin> set junk" "ch CHR ''#'' \<notin> set ds" "length ds + 2 \<le> length rxbuf"
  shows "\<exists>tail. getmsg rxbuf w = Ret (ds @ ch CHR ''#'' # 0 # tail)
      (out (replicate (length bads) (ch CHR ''-'') @ [ch CHR ''+'']) (w\<lparr>rx := rest\<rparr>)) \<and>
    length ds + 2 + length tail = length rxbuf"
  using assms by (rule getmsg_resyncs)

theorem getmsg_delivers_witness:
  "\<exists>tail. getmsg (replicate 200 0) (empty_world (chs ''$g#00+$g#67+'')) =
     Ret (chs ''g#'' @ 0 # tail) (out (chs ''-+'') (empty_world (chs ''+'')))"
  using getmsg_delivers [of "empty_world (chs ''$g#00+$g#67+'')" "[(chs ''g'', ch CHR ''0'', ch CHR ''0'')]"
      "chs ''+''" "chs ''g''" "chs ''+''" "replicate 200 0"]
  by (auto simp: empty_world_def packet_def lnibble_to_hex_def rx_sum_of_def hex_to_int_def ch_def)

text \<open>
  C36: the packet buffer has no bound check: a packet whose data does not end within the buffer
  makes \<open>getmsg\<close> write past its end, whatever follows.
\<close>

theorem getmsg_overruns:
  assumes "rx w = ch CHR ''$'' # ds @ rest" "ch CHR ''#'' \<notin> set ds" "rxbuf \<noteq> []" "length rxbuf \<le> length ds"
  shows "\<exists>w'. getmsg rxbuf w = Stop Overrun w'"
proof -
  have "wait_start w = Ret () (w\<lparr>rx := ds @ rest\<rparr>)"
    using wait_start_skip [of w "[]" "ds @ rest"] assms(1) by simp
  moreover obtain w' where "rx_data rxbuf 0 0 (w\<lparr>rx := ds @ rest\<rparr>) = Stop Overrun w'"
    using rx_data_overrun [of "w\<lparr>rx := ds @ rest\<rparr>" ds rest 0 rxbuf 0] assms by auto
  ultimately show ?thesis by (subst getmsg.simps) simp
qed

theorem getmsg_overruns_witness:
  "\<exists>w'. getmsg (replicate 200 0) (empty_world (ch CHR ''$'' # replicate 200 0x30)) = Stop Overrun w'"
  using getmsg_overruns [of "empty_world (ch CHR ''$'' # replicate 200 0x30)" "replicate 200 0x30" "[]" "replicate 200 0"]
  by (simp add: empty_world_def)

end
