(* ===== verification/Sh2_Stub.thy ===== *)
theory Sh2_Stub
  imports Rom_World
begin

text \<open>
  The C part of src/testrom/sh2.c: the register file the monitor edits, and single stepping by
  replacing the instruction the next step will reach with a trap. Resuming the program
  (\<open>gdb_return_from_exception\<close>) and the reset of kill and detach do not return; the assembly that
  performs them is in the theory \<open>Sh2_Context\<close>.
\<close>

section \<open>Decoding for a step\<close>

text \<open>\<open>op\<close> is the 16 bit opcode as a signed short, promoted to int by the macros.\<close>

definition OPCODE_BT :: "u32 \<Rightarrow> bool" where
  "OPCODE_BT op \<longleftrightarrow> op AND 0xff00 = 0x8900"

definition OPCODE_BF :: "u32 \<Rightarrow> bool" where
  "OPCODE_BF op \<longleftrightarrow> op AND 0xff00 = 0x8b00"

definition OPCODE_BTF_DISP :: "u32 \<Rightarrow> u32" where
  "OPCODE_BTF_DISP op =
     (if op AND 0x80 \<noteq> 0 then push_bit 1 (op OR 0xffffff80) else push_bit 1 (op AND 0x7f))"

definition OPCODE_BFS :: "u32 \<Rightarrow> bool" where
  "OPCODE_BFS op \<longleftrightarrow> op AND 0xff00 = 0x8f00"

definition OPCODE_BTS :: "u32 \<Rightarrow> bool" where
  "OPCODE_BTS op \<longleftrightarrow> op AND 0xff00 = 0x8d00"

definition OPCODE_BRA :: "u32 \<Rightarrow> bool" where
  "OPCODE_BRA op \<longleftrightarrow> op AND 0xf000 = 0xa000"

definition OPCODE_BRA_DISP :: "u32 \<Rightarrow> u32" where
  "OPCODE_BRA_DISP op =
     (if op AND 0x800 \<noteq> 0 then push_bit 1 (op OR 0xfffff800) else push_bit 1 (op AND 0x7ff))"

definition OPCODE_BRAF :: "u32 \<Rightarrow> bool" where
  "OPCODE_BRAF op \<longleftrightarrow> op AND 0xf0ff = 0x0023"

definition OPCODE_BRAF_REG :: "u32 \<Rightarrow> nat" where
  "OPCODE_BRAF_REG op = unat (drop_bit 8 (op AND 0x0f00))"

definition OPCODE_BSR :: "u32 \<Rightarrow> bool" where
  "OPCODE_BSR op \<longleftrightarrow> op AND 0xf000 = 0xb000"

definition OPCODE_BSR_DISP :: "u32 \<Rightarrow> u32" where
  "OPCODE_BSR_DISP op =
     (if op AND 0x800 \<noteq> 0 then push_bit 1 (op OR 0xfffff800) else push_bit 1 (op AND 0x7ff))"

definition OPCODE_BSRF :: "u32 \<Rightarrow> bool" where
  "OPCODE_BSRF op \<longleftrightarrow> op AND 0xf0ff = 0x0003"

definition OPCODE_BSRF_REG :: "u32 \<Rightarrow> nat" where
  "OPCODE_BSRF_REG op = unat (drop_bit 8 op AND 0xf)"

definition OPCODE_JMP :: "u32 \<Rightarrow> bool" where
  "OPCODE_JMP op \<longleftrightarrow> op AND 0xf0ff = 0x402b"

definition OPCODE_JMP_REG :: "u32 \<Rightarrow> nat" where
  "OPCODE_JMP_REG op = unat (drop_bit 8 op AND 0xf)"

definition OPCODE_JSR :: "u32 \<Rightarrow> bool" where
  "OPCODE_JSR op \<longleftrightarrow> op AND 0xf0ff = 0x400b"

definition OPCODE_JSR_REG :: "u32 \<Rightarrow> nat" where
  "OPCODE_JSR_REG op = unat (drop_bit 8 op AND 0xf)"

definition OPCODE_RTS :: "u32 \<Rightarrow> bool" where
  "OPCODE_RTS op \<longleftrightarrow> op = 0xb"

definition OPCODE_RTE :: "u32 \<Rightarrow> bool" where
  "OPCODE_RTE op \<longleftrightarrow> op = 0x2b"

definition OPCODE_TRAPA :: "u32 \<Rightarrow> bool" where
  "OPCODE_TRAPA op \<longleftrightarrow> op AND 0xff00 = 0xc300"

definition OPCODE_TRAPA_DISP :: "u32 \<Rightarrow> u32" where
  "OPCODE_TRAPA_DISP op = op AND 0x00ff"

definition SR_T_BIT_MASK :: u32 where
  "SR_T_BIT_MASK = 0x1"

definition STEP_OPCODE :: u16 where
  "STEP_OPCODE = 0xc320"

definition get_stepi_dest :: "world \<Rightarrow> stop + u32" where
  "get_stepi_dest w =
     (let rf = register_file w in
      sbind (load_short (mem w) (pc rf)) (\<lambda>op16.
        let op = scast op16 in
        if ((OPCODE_BT op \<or> OPCODE_BTS op) \<and> sr rf AND SR_T_BIT_MASK \<noteq> 0)
           \<or> ((OPCODE_BF op \<or> OPCODE_BFS op) \<and> sr rf AND SR_T_BIT_MASK = 0)
          then Inr (pc rf + 4 + OPCODE_BTF_DISP op)
        else if OPCODE_BRA op then Inr (pc rf + 4 + OPCODE_BRA_DISP op)
        else if OPCODE_BRAF op then Inr (pc rf + 4 + r rf ! OPCODE_BRAF_REG op)
        else if OPCODE_BSR op then Inr (pc rf + 4 + OPCODE_BSR_DISP op)
        else if OPCODE_BSRF op then Inr (pc rf + 4 + r rf ! OPCODE_BSRF_REG op)
        else if OPCODE_JMP op then Inr (r rf ! OPCODE_JMP_REG op)
        else if OPCODE_JSR op then Inr (r rf ! OPCODE_JSR_REG op)
        else if OPCODE_RTS op then Inr (pr rf)
        else if OPCODE_RTE op then load_long (mem w) (r rf ! 15)
        else if OPCODE_TRAPA op then load_long (mem w) (vbr rf + 4 * OPCODE_TRAPA_DISP op)
        else Inr (pc rf + 2)))"

section \<open>Resuming\<close>

definition gdb_return_from_exception :: "world \<Rightarrow> unit outcome" where
  "gdb_return_from_exception w = Stop Resumed w"

definition gdb_kill :: "world \<Rightarrow> unit outcome" where
  "gdb_kill w = Stop Restarted w"

definition gdb_detach :: "world \<Rightarrow> unit outcome" where
  "gdb_detach w = Stop Restarted w"

definition set_pc :: "u32 \<Rightarrow> world \<Rightarrow> world" where
  "set_pc a w = w\<lparr>register_file := (register_file w)\<lparr>pc := a\<rparr>\<rparr>"

definition gdb_step :: "u32 \<Rightarrow> world \<Rightarrow> unit outcome" where
  "gdb_step addr w =
     (let w1 = (if addr \<noteq> 0 then set_pc addr w else w) in
      gbind (lift_stop (get_stepi_dest w1) w1) (\<lambda>dest_addr w2.
      gbind (lift_stop (load_short (mem w2) dest_addr) w2) (\<lambda>op w3.
      gbind (lift_stop (store_short (mem w3) dest_addr STEP_OPCODE) (w3\<lparr>gdb_sh2_stepped_opcode := op\<rparr>)) (\<lambda>m w4.
        gdb_return_from_exception (w4\<lparr>mem := m\<rparr>)))))"

definition gdb_continue :: "u32 \<Rightarrow> world \<Rightarrow> unit outcome" where
  "gdb_continue addr w = gdb_return_from_exception (if addr \<noteq> 0 then set_pc addr w else w)"

definition gdb_monitor_onentry :: "world \<Rightarrow> unit outcome" where
  "gdb_monitor_onentry w =
     (if gdb_sh2_stepped_opcode w \<noteq> 0 then
        gbind (lift_stop (store_short (mem w) (pc (register_file w)) (gdb_sh2_stepped_opcode w)) w) (\<lambda>m w1.
          Ret () (w1\<lparr>mem := m, gdb_sh2_stepped_opcode := 0\<rparr>))
      else Ret () w)"

section \<open>Register file\<close>

text \<open>
  The register numbers gdb uses: 0 to 15, then PC, PR, GBR, VBR, MACH, MACL, SR. The result is the
  size in bytes, 0 for another number, and what \<open>*val\<close> holds afterwards.
\<close>

definition gdb_peek_register_file :: "register_file_S \<Rightarrow> int \<Rightarrow> u32 \<Rightarrow> nat \<times> u32" where
  "gdb_peek_register_file rf rid val =
     (if 0 \<le> rid \<and> rid \<le> 15 then (4, r rf ! nat rid)
      else if rid = 16 then (4, pc rf)
      else if rid = 17 then (4, pr rf)
      else if rid = 18 then (4, gbr rf)
      else if rid = 19 then (4, vbr rf)
      else if rid = 20 then (4, mach rf)
      else if rid = 21 then (4, macl rf)
      else if rid = 22 then (4, sr rf)
      else (0, val))"

definition gdb_poke_register_file :: "register_file_S \<Rightarrow> int \<Rightarrow> u32 \<Rightarrow> nat \<times> register_file_S" where
  "gdb_poke_register_file rf rid val =
     (if 0 \<le> rid \<and> rid \<le> 15 then (4, rf\<lparr>r := (r rf)[nat rid := val]\<rparr>)
      else if rid = 16 then (4, rf\<lparr>pc := val\<rparr>)
      else if rid = 17 then (4, rf\<lparr>pr := val\<rparr>)
      else if rid = 18 then (4, rf\<lparr>gbr := val\<rparr>)
      else if rid = 19 then (4, rf\<lparr>vbr := val\<rparr>)
      else if rid = 20 then (4, rf\<lparr>mach := val\<rparr>)
      else if rid = 21 then (4, rf\<lparr>macl := val\<rparr>)
      else if rid = 22 then (4, rf\<lparr>sr := val\<rparr>)
      else (0, rf))"

definition rf_wf :: "register_file_S \<Rightarrow> bool" where
  "rf_wf rf \<longleftrightarrow> length (r rf) = 16"

section \<open>The timer interrupt\<close>

record pit =
  i_cnt :: int
  led :: u32
  port_w :: "u32 list"

definition pit_init :: pit where
  "pit_init = \<lparr>i_cnt = 50, led = 0, port_w = []\<rparr>"

definition gdb_pit :: "pit \<Rightarrow> pit" where
  "gdb_pit s =
     (let n = i_cnt s; s1 = s\<lparr>i_cnt := n - 1\<rparr> in
      if n = 0 then
        (let v = (if led s1 = 0 then 0x088 else 0x000)
         in s1\<lparr>i_cnt := 50, led := v, port_w := port_w s1 @ [v]\<rparr>)
      else s1)"

section \<open>The register file as an array\<close>

fun poke_from :: "('s \<Rightarrow> int \<Rightarrow> 'v \<Rightarrow> nat \<times> 's) \<Rightarrow> 's \<Rightarrow> int \<Rightarrow> 'v list \<Rightarrow> 's" where
  "poke_from poke s i [] = s"
| "poke_from poke s i (v # vs) = poke_from poke (snd (poke s i v)) (i + 1) vs"

definition peek_all :: "('s \<Rightarrow> int \<Rightarrow> 'v \<Rightarrow> nat \<times> 'v) \<Rightarrow> nat \<Rightarrow> 's \<Rightarrow> 'v list" where
  "peek_all peek n s = map (\<lambda>i. snd (peek s (int i) undefined)) [0..<n]"

locale register_store =
  fixes peek :: "'s \<Rightarrow> int \<Rightarrow> 'v \<Rightarrow> nat \<times> 'v"
    and poke :: "'s \<Rightarrow> int \<Rightarrow> 'v \<Rightarrow> nat \<times> 's"
    and inv :: "'s \<Rightarrow> bool"
    and num :: nat
    and width :: nat
  assumes width_pos: "0 < width"
    and peek_width: "fst (peek s i d) = (if 0 \<le> i \<and> i < int num then width else 0)"
    and poke_width: "fst (poke s i v) = (if 0 \<le> i \<and> i < int num then width else 0)"
    and peek_out: "\<not> (0 \<le> i \<and> i < int num) \<Longrightarrow> snd (peek s i d) = d"
    and peek_in: "0 \<le> i \<Longrightarrow> i < int num \<Longrightarrow> snd (peek s i d) = snd (peek s i d')"
    and poke_out: "\<not> (0 \<le> i \<and> i < int num) \<Longrightarrow> snd (poke s i v) = s"
    and peek_poke: "inv s \<Longrightarrow> 0 \<le> i \<Longrightarrow> i < int num \<Longrightarrow>
      snd (peek (snd (poke s i v)) j d) = (if j = i then v else snd (peek s j d))"
    and poke_inv: "inv s \<Longrightarrow> inv (snd (poke s i v))"
begin

lemma poke_from_inv: "inv s \<Longrightarrow> inv (poke_from poke s i vs)"
  by (induction vs arbitrary: s i) (simp_all add: poke_inv)

lemma peek_poke_from:
  "inv s \<Longrightarrow> 0 \<le> i \<Longrightarrow> i + int (length vs) \<le> int num \<Longrightarrow>
   snd (peek (poke_from poke s i vs) j d) =
     (if i \<le> j \<and> j < i + int (length vs) then vs ! nat (j - i) else snd (peek s j d))"
proof (induction vs arbitrary: s i)
  case (Cons v vs)
  have "snd (peek (poke_from poke s i (v # vs)) j d) =
      (if i + 1 \<le> j \<and> j < i + 1 + int (length vs) then vs ! nat (j - (i + 1))
       else snd (peek (snd (poke s i v)) j d))"
    using Cons by (simp add: poke_inv)
  moreover have "nat (j - i) = Suc (nat (j - (i + 1)))" if "i + 1 \<le> j" using that by simp
  ultimately show ?case using Cons.prems by (auto simp: peek_poke)
qed auto

lemma peek_all_poke_all: "inv s \<Longrightarrow> length vs = num \<Longrightarrow> peek_all peek num (poke_from poke s 0 vs) = vs"
  by (rule nth_equalityI) (simp_all add: peek_all_def peek_poke_from)

lemma length_peek_all: "length (peek_all peek num s) = num"
  by (simp add: peek_all_def)

end

definition rf_list :: "register_file_S \<Rightarrow> u32 list" where
  "rf_list rf = r rf @ [pc rf, pr rf, gbr rf, vbr rf, mach rf, macl rf, sr rf]"

lemma reg_id_cases:
  "0 \<le> (i :: int) \<Longrightarrow> i < 23 \<Longrightarrow>
   i \<le> 15 \<or> i = 16 \<or> i = 17 \<or> i = 18 \<or> i = 19 \<or> i = 20 \<or> i = 21 \<or> i = 22"
  by arith

lemma peek_rf_list:
  assumes "rf_wf rf" "0 \<le> i" "i < 23"
  shows "gdb_peek_register_file rf i d = (4, rf_list rf ! nat i)"
  using reg_id_cases [OF assms(2,3)] assms
  by (elim disjE) (simp_all add: gdb_peek_register_file_def rf_list_def rf_wf_def nth_append nat_less_iff)

lemma poke_rf_list:
  assumes "rf_wf rf" "0 \<le> i" "i < 23"
  shows "fst (gdb_poke_register_file rf i v) = 4"
    and "rf_list (snd (gdb_poke_register_file rf i v)) = (rf_list rf)[nat i := v]"
    and "rf_wf (snd (gdb_poke_register_file rf i v))"
proof -
  have "fst (gdb_poke_register_file rf i v) = 4 \<and>
      rf_list (snd (gdb_poke_register_file rf i v)) = (rf_list rf)[nat i := v] \<and>
      rf_wf (snd (gdb_poke_register_file rf i v))"
    using reg_id_cases [OF assms(2,3)] assms
    by (elim disjE)
      (simp_all add: gdb_poke_register_file_def rf_list_def rf_wf_def list_update_append nat_less_iff)
  then show "fst (gdb_poke_register_file rf i v) = 4"
    and "rf_list (snd (gdb_poke_register_file rf i v)) = (rf_list rf)[nat i := v]"
    and "rf_wf (snd (gdb_poke_register_file rf i v))" by blast+
qed

lemma peek_poke_out:
  assumes "\<not> (0 \<le> i \<and> i < 23)"
  shows "gdb_peek_register_file rf i d = (0, d)" "gdb_poke_register_file rf i v = (0, rf)"
proof -
  have "i < 0 \<or> 23 \<le> i" using assms by linarith
  then show "gdb_peek_register_file rf i d = (0, d)" "gdb_poke_register_file rf i v = (0, rf)"
    by (elim disjE; simp add: gdb_peek_register_file_def gdb_poke_register_file_def)+
qed

lemma peek_fst: "fst (gdb_peek_register_file rf i d) = (if 0 \<le> i \<and> i < 23 then 4 else 0)"
proof (cases "0 \<le> i \<and> i < 23")
  case True
  then show ?thesis using reg_id_cases [of i] by (elim conjE) (auto simp: gdb_peek_register_file_def)
next
  case False
  then show ?thesis using peek_poke_out(1) [OF False] by simp
qed

lemma poke_fst: "fst (gdb_poke_register_file rf i v) = (if 0 \<le> i \<and> i < 23 then 4 else 0)"
proof (cases "0 \<le> i \<and> i < 23")
  case True
  then show ?thesis using reg_id_cases [of i] by (elim conjE) (auto simp: gdb_poke_register_file_def)
next
  case False
  then show ?thesis using peek_poke_out(2) [OF False] by simp
qed

lemma length_rf_list: "rf_wf rf \<Longrightarrow> length (rf_list rf) = 23"
  by (simp add: rf_list_def rf_wf_def)

lemma peek_after_poke:
  assumes "rf_wf rf" "0 \<le> i" "i < 23"
  shows "snd (gdb_peek_register_file (snd (gdb_poke_register_file rf i v)) j d) =
    (if j = i then v else snd (gdb_peek_register_file rf j d))"
proof (cases "0 \<le> j \<and> j < 23")
  case True
  then show ?thesis
    using assms poke_rf_list [OF assms, of v]
    by (auto simp: peek_rf_list length_rf_list nth_list_update nat_eq_iff)
next
  case False
  then have "j \<noteq> i" using assms by auto
  then show ?thesis using peek_poke_out [OF False] by simp
qed

interpretation regs: register_store gdb_peek_register_file gdb_poke_register_file rf_wf 23 4
proof unfold_locales
  show "rf_wf (snd (gdb_poke_register_file s i v))" if "rf_wf s" for s i v
    using that poke_rf_list(3) [of s i v] peek_poke_out(2) [of i s v] by (cases "0 \<le> i \<and> i < 23") auto
  show "snd (gdb_peek_register_file s i d) = snd (gdb_peek_register_file s i d')"
    if "0 \<le> i" "i < int 23" for s i d d'
    using that by (simp add: gdb_peek_register_file_def)
qed (simp_all add: peek_fst poke_fst peek_poke_out peek_after_poke)

section \<open>Where a step goes\<close>

text \<open>
  The control transfer of an SH-2 instruction as the programming manual gives it, on the fields of
  the 16 bit opcode: displacements are signed and count instructions from PC + 4.
\<close>

datatype transfer =
    Sequential
  | Cond bool "8 word"
  | Relative "12 word"
  | Rel_Reg nat
  | Jump_Reg nat
  | Return
  | Return_Exception
  | Trap u8

definition transfer_of :: "u16 \<Rightarrow> transfer" where
  "transfer_of op =
     (let hi = drop_bit 8 op; lo = (ucast op :: u8); n = unat (drop_bit 8 op AND 0xf) in
      if hi = 0x89 \<or> hi = 0x8d then Cond True lo
      else if hi = 0x8b \<or> hi = 0x8f then Cond False lo
      else if drop_bit 12 op = 0xa \<or> drop_bit 12 op = 0xb then Relative (ucast op)
      else if drop_bit 12 op = 0 \<and> (lo = 0x23 \<or> lo = 0x03) then Rel_Reg n
      else if drop_bit 12 op = 4 \<and> (lo = 0x2b \<or> lo = 0x0b) then Jump_Reg n
      else if op = 0x000b then Return
      else if op = 0x002b then Return_Exception
      else if hi = 0xc3 then Trap lo
      else Sequential)"

definition transfer_dest :: "memory \<Rightarrow> register_file_S \<Rightarrow> transfer \<Rightarrow> stop + u32" where
  "transfer_dest m rf t =
     (case t of
        Sequential \<Rightarrow> Inr (pc rf + 2)
      | Cond c d \<Rightarrow> Inr (if odd (sr rf) = c then pc rf + 4 + 2 * scast d else pc rf + 2)
      | Relative d \<Rightarrow> Inr (pc rf + 4 + 2 * scast d)
      | Rel_Reg n \<Rightarrow> Inr (pc rf + 4 + r rf ! n)
      | Jump_Reg n \<Rightarrow> Inr (r rf ! n)
      | Return \<Rightarrow> Inr (pr rf)
      | Return_Exception \<Rightarrow> load_long m (r rf ! 15)
      | Trap imm \<Rightarrow> load_long m (vbr rf + 4 * ucast imm))"

section \<open>Fields of the opcode\<close>

lemma word_consts:
  "(0xff00 :: u16) = push_bit 8 (mask 8)" "(0xf000 :: u16) = push_bit 12 (mask 4)"
  "(0xf0ff :: u16) = push_bit 12 (mask 4) OR mask 8"
  by (simp_all add: mask_eq_exp_minus_1)

lemma bit_u16_less: "bit (x :: u16) n \<Longrightarrow> n < 16"
  by (auto dest: bit_imp_le_length)

lemma scast_and: "(scast op :: u32) AND ucast m = ucast (op AND m)" for op m :: u16
proof (rule bit_word_eqI)
  fix n assume "n < LENGTH(32)"
  then consider "n < 15" | "n = 15" | "15 < n" "n < 32" by force
  then show "bit ((scast op :: u32) AND ucast m) n = bit (ucast (op AND m) :: u32) n"
    by cases (auto simp: bit_simps dest: bit_u16_less)
qed

lemma ucast_u32_inj: "(ucast a :: u32) = ucast b \<longleftrightarrow> a = b" for a b :: u16
proof
  assume "(ucast a :: u32) = ucast b"
  then have "(ucast (ucast a :: u32) :: u16) = ucast (ucast b :: u32)" by simp
  moreover have "ucast (ucast x :: u32) = x" for x :: u16
    by (rule bit_word_eqI) (simp add: bit_simps)
  ultimately show "a = b" by simp
qed simp

lemma scast_and_eq: "(scast op :: u32) AND ucast m = ucast c \<longleftrightarrow> op AND m = c" for op m c :: u16
  unfolding scast_and by (rule ucast_u32_inj)

lemma and_ff00: "op AND 0xff00 = c \<longleftrightarrow> drop_bit 8 op = drop_bit 8 c" if "c AND 0xff00 = c" for op c :: u16
proof
  assume "op AND 0xff00 = c"
  then have "drop_bit 8 c = drop_bit 8 (op AND 0xff00)" by simp
  also have "\<dots> = drop_bit 8 op"
    unfolding word_consts by (rule bit_word_eqI) (auto simp: bit_simps dest: bit_u16_less)
  finally show "drop_bit 8 op = drop_bit 8 c" by simp
next
  assume h: "drop_bit 8 op = drop_bit 8 c"
  have "x AND 0xff00 = push_bit 8 (drop_bit 8 x)" for x :: u16
    unfolding word_consts by (rule bit_word_eqI) (auto simp: bit_simps)
  then show "op AND 0xff00 = c" using h that by metis
qed

lemma and_f000: "op AND 0xf000 = c \<longleftrightarrow> drop_bit 12 op = drop_bit 12 c" if "c AND 0xf000 = c" for op c :: u16
proof
  assume "op AND 0xf000 = c"
  then have "drop_bit 12 c = drop_bit 12 (op AND 0xf000)" by simp
  also have "\<dots> = drop_bit 12 op"
    unfolding word_consts by (rule bit_word_eqI) (auto simp: bit_simps dest: bit_u16_less)
  finally show "drop_bit 12 op = drop_bit 12 c" by simp
next
  assume h: "drop_bit 12 op = drop_bit 12 c"
  have "x AND 0xf000 = push_bit 12 (drop_bit 12 x)" for x :: u16
    unfolding word_consts by (rule bit_word_eqI) (auto simp: bit_simps)
  then show "op AND 0xf000 = c" using h that by metis
qed

lemma and_f0ff:
  "op AND 0xf0ff = c \<longleftrightarrow> drop_bit 12 op = drop_bit 12 c \<and> (ucast op :: u8) = ucast c"
  if "c AND 0xf0ff = c" for op c :: u16
proof
  assume c: "op AND 0xf0ff = c"
  have "drop_bit 12 (op AND 0xf0ff) = drop_bit 12 op" "ucast (op AND 0xf0ff) = (ucast op :: u8)"
    unfolding word_consts by (rule bit_word_eqI; auto simp: bit_simps dest: bit_u16_less)+
  then show "drop_bit 12 op = drop_bit 12 c \<and> (ucast op :: u8) = ucast c" using c by simp
next
  assume h: "drop_bit 12 op = drop_bit 12 c \<and> (ucast op :: u8) = ucast c"
  have "x AND 0xf0ff = push_bit 12 (drop_bit 12 x) OR ucast (ucast x :: u8)" for x :: u16
    unfolding word_consts by (rule bit_word_eqI) (auto simp: bit_simps)
  then show "op AND 0xf0ff = c" using h that by metis
qed

lemma BTF_DISP: "OPCODE_BTF_DISP (scast op) = 2 * scast (ucast op :: u8)" for op :: u16
proof -
  have c: "(0xffffff80 :: u32) = NOT (mask 7)" "(0x7f :: u32) = mask 7"
    by (simp_all add: mask_eq_exp_minus_1 not_eq_complement)
  have b: "(scast op :: u32) AND 0x80 \<noteq> 0 \<longleftrightarrow> bit op 7"
    using and_exp_eq_0_iff_not_bit [of "scast op :: u32" 7] by (simp add: bit_simps)
  have "(if bit op 7 then scast op OR NOT (mask 7) else scast op AND mask 7) = (scast (ucast op :: u8) :: u32)"
  proof (rule bit_word_eqI)
    fix n assume "n < LENGTH(32)"
    then consider "n < 7" | "n = 7" | "7 < n" "n < 32" by force
    then show "bit (if bit op 7 then scast op OR NOT (mask 7) else scast op AND mask 7 :: u32) n =
        bit (scast (ucast op :: u8) :: u32) n"
      by cases (auto simp: bit_simps)
  qed
  then show ?thesis
    unfolding OPCODE_BTF_DISP_def b c by (auto simp: push_bit_eq_mult mult.commute)
qed

lemma BRA_DISP: "OPCODE_BRA_DISP (scast op) = 2 * scast (ucast op :: 12 word)" for op :: u16
proof -
  have c: "(0xfffff800 :: u32) = NOT (mask 11)" "(0x7ff :: u32) = mask 11"
    by (simp_all add: mask_eq_exp_minus_1 not_eq_complement)
  have b: "(scast op :: u32) AND 0x800 \<noteq> 0 \<longleftrightarrow> bit op 11"
    using and_exp_eq_0_iff_not_bit [of "scast op :: u32" 11] by (simp add: bit_simps)
  have "(if bit op 11 then scast op OR NOT (mask 11) else scast op AND mask 11) = (scast (ucast op :: 12 word) :: u32)"
  proof (rule bit_word_eqI)
    fix n assume "n < LENGTH(32)"
    then consider "n < 11" | "n = 11" | "11 < n" "n < 32" by force
    then show "bit (if bit op 11 then scast op OR NOT (mask 11) else scast op AND mask 11 :: u32) n =
        bit (scast (ucast op :: 12 word) :: u32) n"
      by cases (auto simp: bit_simps)
  qed
  then show ?thesis
    unfolding OPCODE_BRA_DISP_def b c by (auto simp: push_bit_eq_mult mult.commute)
qed

lemma BSR_DISP: "OPCODE_BSR_DISP (scast op) = 2 * scast (ucast op :: 12 word)" for op :: u16
  using BRA_DISP [of op] by (simp add: OPCODE_BSR_DISP_def OPCODE_BRA_DISP_def)

lemma scast_u16_inj: "(scast a :: u32) = scast b \<longleftrightarrow> a = b" for a b :: u16
proof
  assume "(scast a :: u32) = scast b"
  then have "(ucast (scast a :: u32) :: u16) = ucast (scast b :: u32)" by simp
  moreover have "ucast (scast x :: u32) = x" for x :: u16
    by (rule bit_word_eqI) (auto simp: bit_simps)
  ultimately show "a = b" by simp
qed simp

lemma u8_wrap: "(0x402b :: u8) = 0x2b" "(0x400b :: u8) = 0x0b"
  by simp_all

lemma opcode_fields:
  fixes op :: u16
  shows "OPCODE_BT (scast op) \<longleftrightarrow> drop_bit 8 op = 0x89"
    and "OPCODE_BF (scast op) \<longleftrightarrow> drop_bit 8 op = 0x8b"
    and "OPCODE_BTS (scast op) \<longleftrightarrow> drop_bit 8 op = 0x8d"
    and "OPCODE_BFS (scast op) \<longleftrightarrow> drop_bit 8 op = 0x8f"
    and "OPCODE_BRA (scast op) \<longleftrightarrow> drop_bit 12 op = 0xa"
    and "OPCODE_BSR (scast op) \<longleftrightarrow> drop_bit 12 op = 0xb"
    and "OPCODE_BRAF (scast op) \<longleftrightarrow> drop_bit 12 op = 0 \<and> (ucast op :: u8) = 0x23"
    and "OPCODE_BSRF (scast op) \<longleftrightarrow> drop_bit 12 op = 0 \<and> (ucast op :: u8) = 0x03"
    and "OPCODE_JMP (scast op) \<longleftrightarrow> drop_bit 12 op = 4 \<and> (ucast op :: u8) = 0x2b"
    and "OPCODE_JSR (scast op) \<longleftrightarrow> drop_bit 12 op = 4 \<and> (ucast op :: u8) = 0x0b"
    and "OPCODE_TRAPA (scast op) \<longleftrightarrow> drop_bit 8 op = 0xc3"
    and "OPCODE_RTS (scast op) \<longleftrightarrow> op = 0xb"
    and "OPCODE_RTE (scast op) \<longleftrightarrow> op = 0x2b"
  using scast_and_eq [of op "0xff00" "0x8900"] and_ff00 [of "0x8900" op]
    scast_and_eq [of op "0xff00" "0x8b00"] and_ff00 [of "0x8b00" op]
    scast_and_eq [of op "0xff00" "0x8d00"] and_ff00 [of "0x8d00" op]
    scast_and_eq [of op "0xff00" "0x8f00"] and_ff00 [of "0x8f00" op]
    scast_and_eq [of op "0xff00" "0xc300"] and_ff00 [of "0xc300" op]
    scast_and_eq [of op "0xf000" "0xa000"] and_f000 [of "0xa000" op]
    scast_and_eq [of op "0xf000" "0xb000"] and_f000 [of "0xb000" op]
    scast_and_eq [of op "0xf0ff" "0x0023"] and_f0ff [of "0x0023" op]
    scast_and_eq [of op "0xf0ff" "0x0003"] and_f0ff [of "0x0003" op]
    scast_and_eq [of op "0xf0ff" "0x402b"] and_f0ff [of "0x402b" op]
    scast_and_eq [of op "0xf0ff" "0x400b"] and_f0ff [of "0x400b" op]
    scast_u16_inj [of op "0xb"] scast_u16_inj [of op "0x2b"]
  by (simp_all add: OPCODE_BT_def OPCODE_BF_def OPCODE_BTS_def OPCODE_BFS_def OPCODE_BRA_def
      OPCODE_BSR_def OPCODE_BRAF_def OPCODE_BSRF_def OPCODE_JMP_def OPCODE_JSR_def
      OPCODE_TRAPA_def OPCODE_RTS_def OPCODE_RTE_def u8_wrap)

lemma unat_ucast_u32: "unat (ucast x :: u32) = unat x" for x :: u16
proof -
  have "unat x < 65536" using unsigned_less [of x] by simp
  then show ?thesis by (simp add: unsigned_ucast_eq take_bit_nat_eq_self)
qed

lemma opcode_regs:
  fixes op :: u16
  shows "OPCODE_BRAF_REG (scast op) = unat (drop_bit 8 op AND 0xf)"
    and "OPCODE_BSRF_REG (scast op) = unat (drop_bit 8 op AND 0xf)"
    and "OPCODE_JMP_REG (scast op) = unat (drop_bit 8 op AND 0xf)"
    and "OPCODE_JSR_REG (scast op) = unat (drop_bit 8 op AND 0xf)"
    and "OPCODE_TRAPA_DISP (scast op) = ucast (ucast op :: u8)"
proof -
  have c: "(0xf :: u32) = mask 4" "(0xf :: u16) = mask 4" "(0xf00 :: u32) = push_bit 8 (mask 4)"
    "(0xff :: u32) = mask 8"
    by (simp_all add: mask_eq_exp_minus_1)
  have "drop_bit 8 ((scast op :: u32) AND 0xf00) = ucast (drop_bit 8 op AND 0xf)"
    unfolding c by (rule bit_word_eqI) (auto simp: bit_simps)
  moreover have "drop_bit 8 (scast op :: u32) AND 0xf = ucast (drop_bit 8 op AND 0xf)"
    unfolding c by (rule bit_word_eqI) (auto simp: bit_simps)
  moreover have "(scast op :: u32) AND 0xff = ucast (ucast op :: u8)"
    unfolding c by (rule bit_word_eqI) (auto simp: bit_simps)
  ultimately show "OPCODE_BRAF_REG (scast op) = unat (drop_bit 8 op AND 0xf)"
    "OPCODE_BSRF_REG (scast op) = unat (drop_bit 8 op AND 0xf)"
    "OPCODE_JMP_REG (scast op) = unat (drop_bit 8 op AND 0xf)"
    "OPCODE_JSR_REG (scast op) = unat (drop_bit 8 op AND 0xf)"
    "OPCODE_TRAPA_DISP (scast op) = ucast (ucast op :: u8)"
    unfolding OPCODE_BRAF_REG_def OPCODE_BSRF_REG_def OPCODE_JMP_REG_def OPCODE_JSR_REG_def OPCODE_TRAPA_DISP_def
    by (simp_all only: unat_ucast_u32)
qed

lemma sr_T: "x AND SR_T_BIT_MASK = 0 \<longleftrightarrow> even x"
  by (simp add: SR_T_BIT_MASK_def even_iff_mod_2_eq_zero and_one_eq)

lemma stepi_dest:
  "get_stepi_dest w = sbind (load_short (mem w) (pc (register_file w)))
     (\<lambda>op. transfer_dest (mem w) (register_file w) (transfer_of op))"
proof -
  have "drop_bit 12 op = drop_bit 4 (drop_bit 8 op)" for op :: u16 by simp
  then show ?thesis
  unfolding get_stepi_dest_def Let_def transfer_of_def opcode_fields
  by (intro sbind_cong refl)
    (auto simp: opcode_regs BTF_DISP BRA_DISP BSR_DISP sr_T transfer_dest_def simp del: drop_bit_drop_bit)
qed

section \<open>Stepping\<close>

definition step_world :: "u32 \<Rightarrow> world \<Rightarrow> world" where
  "step_world addr w = (if addr \<noteq> 0 then set_pc addr w else w)"

lemma stepi_dest_not_Resumed: "get_stepi_dest w \<noteq> Inl Resumed"
  by (auto simp: stepi_dest sbind_def transfer_dest_def load_short_def load_long_def
      split: sum.splits transfer.splits if_splits)

lemma gdb_step_Resumed:
  "gdb_step addr w = Stop Resumed w1 \<longleftrightarrow>
   (\<exists>d op. get_stepi_dest (step_world addr w) = Inr d \<and> load_short (mem w) d = Inr op \<and>
      w1 = (step_world addr w)\<lparr>gdb_sh2_stepped_opcode := op, mem := put_bytes (mem w) d (be16 STEP_OPCODE)\<rparr>)"
proof -
  have m: "mem (step_world addr w) = mem w" by (simp add: step_world_def set_pc_def)
  have "gdb_step addr w = Stop Resumed w1 \<longleftrightarrow>
      (\<exists>d op. get_stepi_dest (step_world addr w) = Inr d \<and> load_short (mem w) d = Inr op \<and>
         store_short (mem w) d STEP_OPCODE = Inr (put_bytes (mem w) d (be16 STEP_OPCODE)) \<and>
         w1 = (step_world addr w)\<lparr>gdb_sh2_stepped_opcode := op, mem := put_bytes (mem w) d (be16 STEP_OPCODE)\<rparr>)"
    unfolding gdb_step_def Let_def step_world_def [symmetric]
    by (cases "get_stepi_dest (step_world addr w)")
      (auto simp: m load_short_def store_short_def gdb_return_from_exception_def stepi_dest_not_Resumed
        split: if_splits)
  then show ?thesis by (auto simp: load_short_def store_short_def split: if_splits)
qed

text \<open>
  C21: the address at which \<open>get_stepi_dest\<close> expects the program after one step is the one the SH-2
  instruction at PC transfers control to, for all 65536 opcodes and both values of the T bit.
\<close>

theorem get_stepi_dest_correct:
  "get_stepi_dest w = sbind (load_short (mem w) (pc (register_file w)))
     (\<lambda>op. transfer_dest (mem w) (register_file w) (transfer_of op))"
  by (rule stepi_dest)

text \<open>
  C18: a step plants the trap exactly at the instruction the program reaches next, and when the
  monitor is entered there again the program is back to what it was: memory as before, step
  pending no more. The exception is an instruction with opcode 0, which is not put back.
\<close>

theorem gdb_step_undone:
  assumes "gdb_step addr w = Stop Resumed w1"
  shows "\<exists>d op. get_stepi_dest (step_world addr w) = Inr d \<and> load_short (mem w) d = Inr op \<and>
    load_short (mem w1) d = Inr STEP_OPCODE \<and>
    (\<forall>rf. pc rf = d \<longrightarrow> gdb_monitor_onentry (w1\<lparr>register_file := rf\<rparr>) =
       Ret () (if op = 0 then w1\<lparr>register_file := rf\<rparr>
               else w\<lparr>register_file := rf, gdb_sh2_stepped_opcode := 0\<rparr>))"
proof -
  obtain d op where d: "get_stepi_dest (step_world addr w) = Inr d" and op: "load_short (mem w) d = Inr op"
    and w1: "w1 = (step_world addr w)\<lparr>gdb_sh2_stepped_opcode := op, mem := put_bytes (mem w) d (be16 STEP_OPCODE)\<rparr>"
    using assms by (auto simp: gdb_step_Resumed)
  have "store_short (mem w) d STEP_OPCODE = Inr (put_bytes (mem w) d (be16 STEP_OPCODE))"
    using op by (auto simp: load_short_def store_short_def split: if_splits)
  from load_store_short [OF this] have "load_short (mem w1) d = Inr STEP_OPCODE" by (simp add: w1)
  moreover have "gdb_monitor_onentry (w1\<lparr>register_file := rf\<rparr>) =
      Ret () (if op = 0 then w1\<lparr>register_file := rf\<rparr> else w\<lparr>register_file := rf, gdb_sh2_stepped_opcode := 0\<rparr>)"
    if "pc rf = d" for rf
    using store_loaded_short [OF op, of STEP_OPCODE] that
    by (simp add: gdb_monitor_onentry_def w1 step_world_def set_pc_def)
  ultimately show ?thesis using d op by blast
qed

definition nop_world :: world where
  "nop_world = \<lparr>rx = [], tx = [], mem = (\<lambda>a. if even a then 0 else 9),
     register_file = \<lparr>pr = 0, gbr = 0, vbr = 0, mach = 0, macl = 0, r = replicate 16 0, pc = 0x100, sr = 0\<rparr>,
     gdb_sh2_stepped_opcode = 0\<rparr>"

lemma nop_world_load: "load_short (mem nop_world) 0x100 = Inr 9" "load_short (mem nop_world) 0x102 = Inr 9"
  by (simp_all add: nop_world_def load_short_def bytes_at_small be_join_def)

lemma nop_world_dest: "get_stepi_dest (step_world 0 nop_world) = Inr 0x102"
  using nop_world_load(1)
  by (simp add: stepi_dest step_world_def transfer_of_def transfer_dest_def Let_def) (simp add: nop_world_def)

theorem gdb_step_undone_witness:
  "\<exists>w1. gdb_step 0 nop_world = Stop Resumed w1 \<and>
     gdb_monitor_onentry (w1\<lparr>register_file := (register_file w1)\<lparr>pc := 0x102\<rparr>\<rparr>) =
       Ret () (nop_world\<lparr>register_file := (register_file w1)\<lparr>pc := 0x102\<rparr>, gdb_sh2_stepped_opcode := 0\<rparr>)"
proof -
  define w1 where "w1 = (step_world 0 nop_world)\<lparr>gdb_sh2_stepped_opcode := 9,
    mem := put_bytes (mem nop_world) 0x102 (be16 STEP_OPCODE)\<rparr>"
  have s: "gdb_step 0 nop_world = Stop Resumed w1"
    using nop_world_load nop_world_dest by (auto simp: gdb_step_Resumed w1_def)
  show ?thesis
    using gdb_step_undone [OF s] s nop_world_load nop_world_dest by auto
qed

end
