(* ===== verification/Gdb_Monitor.thy ===== *)
theory Gdb_Monitor
  imports Gdb_Packets Sh2_Stub
begin

text \<open>
  The command processor of src/testrom/gdb.c: every reply, every command, \<open>gdb_monitor\<close>, the entry
  from an exception, and file system calls served by the host. A local variable whose address is
  taken is a word at address 0 of a memory of its own.
\<close>

section \<open>Replies\<close>

definition last_signal :: "u32 \<Rightarrow> world \<Rightarrow> unit outcome" where
  "last_signal sigval w =
     putmsg (ch CHR ''S'') [lnibble_to_hex (ucast (drop_bit 4 sigval)), lnibble_to_hex (ucast sigval)] 2 w"

text \<open>\<open>sum += gdb_putc (c)\<close>, with an int sum.\<close>

definition put_sum :: "u8 \<Rightarrow> u32 \<Rightarrow> world \<Rightarrow> u32 outcome" where
  "put_sum c s w = gbind (gdb_putc c w) (\<lambda>x w1. Ret (s + ucast x) w1)"

definition put_sum2 :: "u8 \<Rightarrow> u8 \<Rightarrow> u32 \<Rightarrow> world \<Rightarrow> u32 outcome" where
  "put_sum2 c d s w = gbind (put_sum c s w) (\<lambda>s1 w1. put_sum d s1 w1)"

definition nibble_at :: "nat \<Rightarrow> u32 \<Rightarrow> u8" where
  "nibble_at k val = lnibble_to_hex (ucast (drop_bit k val))"

text \<open>The switch on the length of the register, each case falling into the next.\<close>

definition put_value :: "nat \<Rightarrow> u32 \<Rightarrow> u32 \<Rightarrow> world \<Rightarrow> u32 outcome" where
  "put_value reglen val s w =
     gbind (if reglen = 4 then put_sum2 (nibble_at 28 val) (nibble_at 24 val) s w else Ret s w) (\<lambda>s1 w1.
     gbind (if reglen = 4 \<or> reglen = 3 then put_sum2 (nibble_at 20 val) (nibble_at 16 val) s1 w1 else Ret s1 w1) (\<lambda>s2 w2.
     gbind (if reglen = 4 \<or> reglen = 3 \<or> reglen = 2 then put_sum2 (nibble_at 12 val) (nibble_at 8 val) s2 w2 else Ret s2 w2) (\<lambda>s3 w3.
     if reglen = 4 \<or> reglen = 3 \<or> reglen = 2 \<or> reglen = 1 then put_sum2 (nibble_at 4 val) (nibble_at 0 val) s3 w3 else Ret s3 w3)))"

function expedited_regs :: "int \<Rightarrow> u32 \<Rightarrow> u32 \<Rightarrow> world \<Rightarrow> u32 outcome" where
  "expedited_regs rid val s w =
     (let p = gdb_peek_register_file (register_file w) rid val in
      if fst p \<noteq> 0 then
        gbind (put_sum2 (lnibble_to_hex (of_int (rid div 16))) (lnibble_to_hex (of_int rid)) s w) (\<lambda>s1 w1.
        gbind (put_sum (ch CHR '':'') s1 w1) (\<lambda>s2 w2.
        gbind (put_value (fst p) (snd p) s2 w2) (\<lambda>s3 w3.
        gbind (put_sum (ch CHR '';'') s3 w3) (\<lambda>s4 w4.
          expedited_regs (rid + 1) (snd p) s4 w4))))
      else Ret s w)"
  by pat_completeness auto
termination
  by (relation "measure (\<lambda>(rid, val, s, w). nat (23 - rid))") (auto simp: peek_fst split: if_splits)

declare expedited_regs.simps [simp del]

definition expedited_send :: "u32 \<Rightarrow> u32 \<Rightarrow> world \<Rightarrow> unit outcome" where
  "expedited_send sigval val w =
     gbind (gdb_putc (ch CHR ''$'') w) (\<lambda>_ w1.
     gbind (gdb_putc (ch CHR ''T'') w1) (\<lambda>x w2.
     gbind (put_sum (lnibble_to_hex (ucast (drop_bit 4 sigval))) (ucast x) w2) (\<lambda>s1 w3.
     gbind (put_sum (lnibble_to_hex (ucast sigval)) s1 w3) (\<lambda>s2 w4.
     gbind (expedited_regs 0 val s2 w4) (\<lambda>s3 w5. put_footer (ucast s3) w5)))))"

lemma put_sum_out [simp]: "put_sum c s w = Ret (s + ucast c) (out [c] w)"
  by (simp add: put_sum_def)

lemma put_sum2_out [simp]: "put_sum2 c d s w = Ret (s + ucast c + ucast d) (out [c, d] w)"
  by (simp add: put_sum2_def)

definition value_digits :: "nat \<Rightarrow> u32 \<Rightarrow> u8 list" where
  "value_digits reglen val = concat (map (\<lambda>k. [nibble_at (8 * k + 4) val, nibble_at (8 * k) val]) (rev [0..<reglen]))"

definition usum :: "u8 list \<Rightarrow> u32" where
  "usum cs = sum_list (map ucast cs)"

lemma usum_simps [simp]: "usum [] = 0" "usum (c # cs) = ucast c + usum cs" "usum (as @ bs) = usum as + usum bs"
  by (simp_all add: usum_def)

lemma ucast_add_u8: "(ucast (x + y) :: u8) = ucast x + ucast y" for x y :: u32
proof -
  have "(of_nat (unat (x + y)) :: u8) = of_nat (unat x + unat y)"
    by (simp only: unat_word_ariths word_of_nat_eq_iff) (simp add: take_bit_eq_mod mod_mod_cancel)
  then show ?thesis by simp
qed

lemma ucast_usum: "ucast (usum cs) = sum_list cs"
proof (induction cs)
  case (Cons c cs)
  have "ucast (ucast c :: u32) = c" by (rule bit_word_eqI) (simp add: bit_simps)
  with Cons show ?case by (simp add: ucast_add_u8)
qed simp

lemma put_value_out: "put_value 4 val s w = Ret (s + usum (value_digits 4 val)) (out (value_digits 4 val) w)"
  by (simp add: put_value_def value_digits_def eval_nat_numeral add.assoc)

fun reg_dump :: "register_file_S \<Rightarrow> int \<Rightarrow> u8 list" where
  "reg_dump rf rid = [lnibble_to_hex (of_int (rid div 16)), lnibble_to_hex (of_int rid)] @ [ch CHR '':''] @
     value_digits 4 (snd (gdb_peek_register_file rf rid 0)) @ [ch CHR '';'']"

lemma peek_snd: "0 \<le> rid \<Longrightarrow> rid < 23 \<Longrightarrow>
   snd (gdb_peek_register_file rf rid val) = snd (gdb_peek_register_file rf rid 0)"
  by (rule regs.peek_in) simp_all

lemma expedited_regs_out:
  "rid = 23 - int n \<Longrightarrow> n \<le> 23 \<Longrightarrow>
   expedited_regs rid val s w =
     (let ds = concat (map (\<lambda>k. reg_dump (register_file w) (rid + int k)) [0..<n]) in Ret (s + usum ds) (out ds w))"
proof (induction n arbitrary: rid val s w)
  case 0
  then show ?case by (subst expedited_regs.simps) (simp add: peek_fst)
next
  case (Suc n)
  have r: "0 \<le> rid" "rid < 23" using Suc.prems by auto
  have "map (\<lambda>k. reg_dump (register_file w) (rid + int k)) [0..<Suc n] =
      reg_dump (register_file w) rid # map (\<lambda>k. reg_dump (register_file w) (rid + 1 + int k)) [0..<n]"
    by (simp add: map_upt_Suc add.assoc del: upt_Suc reg_dump.simps)
  moreover have "rid + 1 = 23 - int n" using Suc.prems by simp
  ultimately show ?case
    using Suc.IH [of "rid + 1"] Suc.prems(2) r peek_snd [OF r, of "register_file w" val]
    by (subst expedited_regs.simps)
      (simp add: peek_fst put_value_out Let_def add.assoc del: upt_Suc)
qed

definition expedited_data :: "u32 \<Rightarrow> register_file_S \<Rightarrow> u8 list" where
  "expedited_data sigval rf =
     [ch CHR ''T'', lnibble_to_hex (ucast (drop_bit 4 sigval)), lnibble_to_hex (ucast sigval)] @
     concat (map (\<lambda>k. reg_dump rf (int k)) [0..<23])"

lemma expedited_send_out:
  "expedited_send sigval val w = Ret () (out (packet (expedited_data sigval (register_file w))) w)"
  using expedited_regs_out [of 0 23 val] ucast_usum [of "expedited_data sigval (register_file w)"]
  by (simp add: expedited_send_def expedited_data_def packet_def Let_def add.assoc ch_def del: upt_rec_numeral)

function expedited :: "u32 \<Rightarrow> u32 \<Rightarrow> world \<Rightarrow> unit outcome" where
  "expedited sigval val w =
     gbind (expedited_send sigval val w) (\<lambda>_ w1.
     gbind (gdb_getc w1) (\<lambda>a w2. if ch CHR ''+'' \<noteq> a then expedited sigval val w2 else Ret () w2))"
  by pat_completeness auto
termination
  by (relation "measure (\<lambda>(sigval, val, w). length (rx w))") (auto simp: expedited_send_out dest: gdb_getc_shorter)

declare expedited.simps [simp del]

interpretation exped: acked_sender "expedited_send sigval val" "expedited sigval val"
  "\<lambda>w. packet (expedited_data sigval (register_file w))" for sigval val
proof unfold_locales
  show "expedited sigval val w = gbind (expedited_send sigval val w) (\<lambda>_ w1.
      gbind (gdb_getc w1) (\<lambda>a w2. if ch CHR ''+'' \<noteq> a then expedited sigval val w2 else Ret () w2))" for w
    by (rule expedited.simps)
qed (simp_all add: expedited_send_out quiet_def)

section \<open>Memory and registers\<close>

text \<open>The memory of one local long: its bytes at address 0, as the SH-2 stores them.\<close>

definition val_mem :: "u32 \<Rightarrow> memory" where
  "val_mem val = put_bytes (\<lambda>_. 0) 0 (be32 val)"

lemma chunk_cases:
  assumes "(len :: u32) \<noteq> 0"
  obtains k :: nat where "k \<in> {1, 2, 3, 4}" "(if len > 4 then 4 else len) = of_nat k"
    "sint (of_nat k :: u32) = int k" "k \<le> unat len"
proof -
  define k where "k = min 4 (unat len)"
  have "0 < unat len" using assms by (simp add: unat_gt_0)
  then have k: "k \<in> {1, 2, 3, 4}" by (auto simp: k_def min_def)
  moreover have "(if len > 4 then 4 else len) = of_nat k"
    by (simp add: k_def word_less_nat_alt min_def)
  moreover have "sint (of_nat k :: u32) = int k" using k by auto
  moreover have "k \<le> unat len" by (simp add: k_def)
  ultimately show ?thesis by (rule that)
qed

text \<open>
  The inner loop of \<open>read_memory\<close>. The chunk is \<open>min (len, sizeof (long))\<close>, an unsigned comparison;
  what is left is \<open>len - min (tx / 2, len)\<close>, a signed one.
\<close>

function read_memory_chunks :: "u32 \<Rightarrow> u32 \<Rightarrow> u8 \<Rightarrow> world \<Rightarrow> u8 outcome" where
  "read_memory_chunks addr len csum w =
     (if len \<noteq> 0 then
        let chunk = (if len > 4 then 4 else len) in
        gbind (lift_stop (mem_to_hexbuf (mem w) addr (sint chunk)) w) (\<lambda>tx_buf w1.
        gbind (putbuf (length tx_buf) tx_buf w1) (\<lambda>s w2.
          let half = of_nat (length tx_buf div 2) in
          read_memory_chunks (addr + half)
            (len - (if sint half > sint len then len else half)) (csum + s) w2))
      else Ret csum w)"
  by pat_completeness auto

termination
proof (relation "measure (\<lambda>(addr, len, csum, w). unat len)", goal_cases)
  case (2 addr len csum w chunk tx_buf w1 s w2 half)
  obtain k where k: "k \<in> {1, 2, 3, 4}" "(if len > 4 then 4 else len) = of_nat k"
    "sint (of_nat k :: u32) = int k" "k \<le> unat len" by (rule chunk_cases [OF 2(1)])
  have "length tx_buf = 2 * k"
    using 2(2,3) k by (auto simp: lift_stop_Ret mem_to_hexbuf_eq)
  then have h: "half = of_nat k" using 2(5) by simp
  have "unat (len - of_nat k) = unat len - k"
    using k(1,4) by (auto simp: unat_sub_if')
  moreover have "0 < unat len" using 2(1) by (simp add: unat_gt_0)
  ultimately show ?case using h k(1) by auto
qed simp

declare read_memory_chunks.simps [simp del]

definition read_count :: "u32 \<Rightarrow> nat" where
  "read_count len = (if sint len < 0 then 4 else unat len)"

lemma sint_sub_nonneg:
  assumes "0 \<le> sint (len :: u32)" "k \<le> unat len"
  shows "0 \<le> sint (len - of_nat k)" "unat (len - of_nat k) = unat len - k"
proof -
  have "unat len < 2 ^ 31"
    using assms(1) by (simp only: sint_u32_nonneg)
  moreover from this have "unat (of_nat k :: u32) = k" using assms(2) by (simp add: unat_of_nat)
  ultimately show u: "unat (len - of_nat k) = unat len - k" using assms(2) by (simp add: unat_sub_if')
  show "0 \<le> sint (len - of_nat k)" unfolding sint_u32_nonneg using u \<open>unat len < 2 ^ 31\<close> by simp
qed

lemma read_memory_chunks_out:
  "read_memory_chunks addr len csum w =
     (let hs = hex_bytes (bytes_at (mem w) addr (read_count len)) in Ret (csum + sum_list hs) (out hs w))"
proof (induction "unat len" arbitrary: addr len csum w rule: less_induct)
  case less
  show ?case
  proof (cases "len = 0")
    case True
    then show ?thesis by (subst read_memory_chunks.simps) (simp add: read_count_def)
  next
    case False
    obtain k where k: "k \<in> {1, 2, 3, 4}" "(if len > 4 then 4 else len) = of_nat k"
      "sint (of_nat k :: u32) = int k" "k \<le> unat len" by (rule chunk_cases [OF False])
    let ?hs = "hex_bytes (bytes_at (mem w) addr k)"
    have step: "read_memory_chunks addr len csum w =
        read_memory_chunks (addr + of_nat k) (len - (if int k > sint len then len else of_nat k))
          (csum + sum_list ?hs) (out ?hs w)"
      using False k(2,3) by (subst read_memory_chunks.simps) (simp add: mem_to_hexbuf_eq Let_def)
    show ?thesis
    proof (cases "sint len < 0")
      case True
      then have "\<not> unat len < 2 ^ 31" using sint_u32_nonneg [of len] by linarith
      then have "len > 4" by (simp add: word_less_nat_alt)
      then have "(of_nat k :: u32) = of_nat 4" using k(2) by simp
      then have "k = 4" using k(1) by (subst (asm) of_nat_u32_inj) auto
      then show ?thesis
        using True unfolding step by (subst read_memory_chunks.simps) (simp add: read_count_def Let_def)
    next
      case neg: False
      then have "sint len = int (unat len)" by (intro sint_u32_unat) simp
      moreover have "int k \<le> int (unat len)" using k(4) by (simp only: of_nat_le_iff)
      ultimately have l: "\<not> sint len < int k" by linarith
      have n: "unat (len - of_nat k) = unat len - k" "0 \<le> sint (len - of_nat k)"
        using sint_sub_nonneg [of len k] neg k(4) by auto
      have "unat len = k + (unat len - k)" using k(4) by simp
      then have b: "bytes_at (mem w) addr (unat len) =
          bytes_at (mem w) addr k @ bytes_at (mem w) (addr + of_nat k) (unat len - k)"
        by (metis bytes_at_add)
      have "unat (len - of_nat k) < unat len" using n k(1,4) by auto
      from less [OF this] show ?thesis
        using neg n l k(4) unfolding step by (simp add: read_count_def b Let_def add.assoc)
    qed
  qed
qed

function read_memory_loop :: "u32 \<Rightarrow> u32 \<Rightarrow> u8 \<Rightarrow> world \<Rightarrow> unit outcome" where
  "read_memory_loop addr len csum w =
     gbind (gdb_putc (ch CHR ''$'') w) (\<lambda>_ w1.
     gbind (read_memory_chunks addr len csum w1) (\<lambda>csum1 w2.
     gbind (put_footer csum1 w2) (\<lambda>_ w3.
     gbind (gdb_getc w3) (\<lambda>a w4.
       if a \<noteq> ch CHR ''+'' then read_memory_loop addr len csum1 w4 else Ret () w4))))"
  by pat_completeness auto
termination
  by (relation "measure (\<lambda>(addr, len, csum, w). length (rx w))")
    (auto simp: read_memory_chunks_out Let_def dest: gdb_getc_shorter)

declare read_memory_loop.simps [simp del]

definition read_memory :: "u8 list \<Rightarrow> nat \<Rightarrow> world \<Rightarrow> unit outcome" where
  "read_memory rxbuf hargs w =
     gbind (lift_stop (hargs_parse_long rxbuf hargs (ch CHR '','')) w) (\<lambda>(hargs1, addr) w1.
     gbind (lift_stop (hargs_parse_long rxbuf hargs1 (ch CHR ''#'')) w1) (\<lambda>(_, len) w2.
       read_memory_loop addr len 0 w2))"

definition reply_ok :: "world \<Rightarrow> unit outcome" where
  "reply_ok w = putmsg 0 (chs ''OK'') 2 w"

definition write_memory :: "u8 list \<Rightarrow> nat \<Rightarrow> world \<Rightarrow> unit outcome" where
  "write_memory rxbuf hargs w =
     gbind (lift_stop (hargs_parse_long rxbuf hargs (ch CHR '','')) w) (\<lambda>(hargs1, addr) w1.
     gbind (lift_stop (hargs_parse_long rxbuf hargs1 (ch CHR '':'')) w1) (\<lambda>(hargs2, len) w2.
     gbind (lift_stop (hexbuf_to_mem rxbuf hargs2 (mem w2) addr (sint len)) w2) (\<lambda>(m, _) w3.
       reply_ok (w3\<lparr>mem := m\<rparr>))))"

definition write_xbin_memory :: "u8 list \<Rightarrow> nat \<Rightarrow> world \<Rightarrow> unit outcome" where
  "write_xbin_memory rxbuf hargs w =
     gbind (lift_stop (hargs_parse_long rxbuf hargs (ch CHR '','')) w) (\<lambda>(hargs1, addr) w1.
     gbind (lift_stop (hargs_parse_long rxbuf hargs1 (ch CHR '':'')) w1) (\<lambda>(hargs2, len) w2.
     gbind (lift_stop (xmem_to_mem rxbuf hargs2 (mem w2) addr (sint len)) w2) (\<lambda>(m, _) w3.
       reply_ok (w3\<lparr>mem := m\<rparr>))))"

text \<open>\<open>hexbuf_to_mem (hargs, &val, reglen)\<close> for a local \<open>val\<close>: its new value.\<close>

definition hexbuf_to_val :: "u8 list \<Rightarrow> nat \<Rightarrow> u32 \<Rightarrow> nat \<Rightarrow> stop + u32" where
  "hexbuf_to_val rxbuf hargs val reglen =
     sbind (hexbuf_to_mem rxbuf hargs (val_mem val) 0 (int reglen)) (\<lambda>(m, _). load_long m 0)"

function write_registers_loop :: "u8 list \<Rightarrow> nat \<Rightarrow> int \<Rightarrow> u32 \<Rightarrow> register_file_S \<Rightarrow> stop + register_file_S" where
  "write_registers_loop rxbuf hargs rid val rf =
     sbind (buf_get rxbuf hargs) (\<lambda>c.
       if c \<noteq> ch CHR ''#'' then
         let p = gdb_peek_register_file rf rid val in
         if fst p \<noteq> 0 then
           sbind (hexbuf_to_val rxbuf hargs (snd p) (fst p)) (\<lambda>val1.
             write_registers_loop rxbuf (hargs + 8) (rid + 1) val1 (snd (gdb_poke_register_file rf rid val1)))
         else Inr rf
       else Inr rf)"
  by pat_completeness auto
termination
  by (relation "measure (\<lambda>(rxbuf, hargs, rid, val, rf). nat (23 - rid))") (auto simp: peek_fst split: if_splits)

declare write_registers_loop.simps [simp del]

definition write_registers :: "u8 list \<Rightarrow> nat \<Rightarrow> u32 \<Rightarrow> world \<Rightarrow> unit outcome" where
  "write_registers rxbuf hargs val w =
     gbind (lift_stop (write_registers_loop rxbuf hargs 0 val (register_file w)) w) (\<lambda>rf w1.
       reply_ok (w1\<lparr>register_file := rf\<rparr>))"

function read_registers_loop :: "int \<Rightarrow> u32 \<Rightarrow> u8 \<Rightarrow> world \<Rightarrow> u8 outcome" where
  "read_registers_loop rid val csum w =
     (let p = gdb_peek_register_file (register_file w) rid val in
      if fst p \<noteq> 0 then
        gbind (lift_stop (mem_to_hexbuf (val_mem (snd p)) 0 (int (fst p))) w) (\<lambda>tx_buf w1.
        gbind (putbuf (length tx_buf) tx_buf w1) (\<lambda>s w2.
          read_registers_loop (rid + 1) (snd p) (csum + s) w2))
      else Ret csum w)"
  by pat_completeness auto
termination
  by (relation "measure (\<lambda>(rid, val, csum, w). nat (23 - rid))") (auto simp: peek_fst split: if_splits)

declare read_registers_loop.simps [simp del]

definition read_registers_send :: "u32 \<Rightarrow> world \<Rightarrow> unit outcome" where
  "read_registers_send val w =
     gbind (gdb_putc (ch CHR ''$'') w) (\<lambda>_ w1.
     gbind (read_registers_loop 0 val 0 w1) (\<lambda>csum w2. put_footer csum w2))"

lemma bytes_at_val_mem: "bytes_at (val_mem v) 0 4 = be32 v"
  using bytes_at_put_bytes [of "be32 v" "\<lambda>_. 0" 0] by (simp add: val_mem_def)

lemma load_val_mem: "load_long (val_mem v) 0 = Inr v"
  by (simp add: load_long_def bytes_at_val_mem)

definition regs_hex :: "register_file_S \<Rightarrow> int \<Rightarrow> nat \<Rightarrow> u8 list" where
  "regs_hex rf rid n = concat (map (\<lambda>k. hex_bytes (be32 (snd (gdb_peek_register_file rf (rid + int k) 0)))) [0..<n])"

lemma regs_hex_Suc:
  "regs_hex rf rid (Suc n) = hex_bytes (be32 (snd (gdb_peek_register_file rf rid 0))) @ regs_hex rf (rid + 1) n"
  by (simp add: regs_hex_def map_upt_Suc add.assoc del: upt_Suc)

lemma read_registers_loop_out:
  "rid = 23 - int n \<Longrightarrow> n \<le> 23 \<Longrightarrow>
   read_registers_loop rid val csum w =
     Ret (csum + sum_list (regs_hex (register_file w) rid n)) (out (regs_hex (register_file w) rid n) w)"
proof (induction n arbitrary: rid val csum w)
  case 0
  then show ?case by (subst read_registers_loop.simps) (simp add: peek_fst regs_hex_def)
next
  case (Suc n)
  have r: "0 \<le> rid" "rid < 23" using Suc.prems by auto
  have "rid + 1 = 23 - int n" using Suc.prems by simp
  then show ?case
    using Suc.IH [of "rid + 1"] Suc.prems(2) r peek_snd [OF r, of "register_file w" val]
    by (subst read_registers_loop.simps)
      (simp add: peek_fst mem_to_hexbuf_eq bytes_at_val_mem regs_hex_Suc Let_def add.assoc)
qed

lemma read_registers_send_out:
  "read_registers_send val w = Ret () (out (packet (regs_hex (register_file w) 0 23)) w)"
  using read_registers_loop_out [of 0 23 val] by (simp add: read_registers_send_def packet_def)

function read_registers :: "u32 \<Rightarrow> world \<Rightarrow> unit outcome" where
  "read_registers val w =
     gbind (read_registers_send val w) (\<lambda>_ w1.
     gbind (gdb_getc w1) (\<lambda>a w2. if ch CHR ''+'' \<noteq> a then read_registers val w2 else Ret () w2))"
  by pat_completeness auto
termination
  by (relation "measure (\<lambda>(val, w). length (rx w))") (auto simp: read_registers_send_out dest: gdb_getc_shorter)

declare read_registers.simps [simp del]

interpretation rregs: acked_sender "read_registers_send val" "read_registers val"
  "\<lambda>w. packet (regs_hex (register_file w) 0 23)" for val
proof unfold_locales
  show "read_registers val w = gbind (read_registers_send val w) (\<lambda>_ w1.
      gbind (gdb_getc w1) (\<lambda>a w2. if ch CHR ''+'' \<noteq> a then read_registers val w2 else Ret () w2))" for w
    by (rule read_registers.simps)
qed (simp_all add: read_registers_send_out quiet_def)

text \<open>The number of the register is parsed by a loop of its own, like \<open>hargs_parse_long\<close>'s.\<close>

definition write_register :: "u8 list \<Rightarrow> nat \<Rightarrow> world \<Rightarrow> unit outcome" where
  "write_register rxbuf hargs w =
     gbind (lift_stop (parse_long_loop rxbuf hargs 0 (ch CHR ''='')) w) (\<lambda>(hargs1, rid) w1.
       let p = gdb_peek_register_file (register_file w1) (sint rid) 0 in
       gbind (lift_stop (hexbuf_to_val rxbuf hargs1 (snd p) (fst p)) w1) (\<lambda>val w2.
         reply_ok (w2\<lparr>register_file := snd (gdb_poke_register_file (register_file w2) (sint rid) val)\<rparr>)))"

section \<open>Console and file system calls\<close>

fun console_bytes :: "nat \<Rightarrow> u32 \<Rightarrow> u8 \<Rightarrow> world \<Rightarrow> u8 outcome" where
  "console_bytes 0 buf csum w = Ret csum w"
| "console_bytes (Suc len) buf csum w =
     gbind (putbuf 2 [lnibble_to_hex (drop_bit 4 (mem w buf)), lnibble_to_hex (mem w buf)] w) (\<lambda>s w1.
       console_bytes len (buf + 1) (csum + s) w1)"

definition gdb_console_output :: "u32 \<Rightarrow> u32 \<Rightarrow> world \<Rightarrow> unit outcome" where
  "gdb_console_output len buf w =
     gbind (gdb_putc (ch CHR ''$'') w) (\<lambda>_ w1.
     gbind (putbuf 1 (chs ''O'') w1) (\<lambda>csum w2.
     gbind (console_bytes (unat len) buf csum w2) (\<lambda>csum1 w3. put_footer csum1 w3)))"

definition syscall_name :: "u8 list list" where
  "syscall_name = [chs ''Fopen,'', chs ''Fclose,'', chs ''Fread,'', chs ''Fwrite,'', chs ''Flseek,'']"

definition syscall_namelen :: "nat list" where
  "syscall_namelen = [6, 7, 6, 7, 7]"

text \<open>\<open>strl\<close> walks memory until a NUL; in a memory without one it never returns.\<close>

partial_function (option) strl_from :: "memory \<Rightarrow> u32 \<Rightarrow> u32 \<Rightarrow> u32 option" where
  "strl_from m buf i = (if m (buf + i) \<noteq> 0 then strl_from m buf (i + 1) else Some i)"

definition strl :: "memory \<Rightarrow> u32 \<Rightarrow> u32 option" where
  "strl m buf = strl_from m buf 0"

definition put_hex :: "u32 \<Rightarrow> world \<Rightarrow> u8 outcome" where
  "put_hex v w =
     gbind (lift_stop (mem_to_hexbuf (val_mem v) 0 4) w) (\<lambda>tx_buf w1. putbuf (length tx_buf) tx_buf w1)"

section \<open>The command processor\<close>

fun strcmp_rx :: "u8 list \<Rightarrow> nat \<Rightarrow> u8 list \<Rightarrow> stop + int" where
  "strcmp_rx buf a [] = Inl Overrun"
| "strcmp_rx buf a (b # bs) =
     sbind (buf_get buf a) (\<lambda>c.
       if (c \<noteq> 0 \<and> b \<noteq> 0) \<and> c = b then strcmp_rx buf (a + 1) bs else Inr (sint c - sint b))"

text \<open>
  One pass of the switch: \<open>Ret None\<close> goes round the loop again, \<open>Ret (Some v)\<close> returns \<open>v\<close>. The local
  \<open>val\<close> of the register commands is unset in the source; it is set before it is read.
\<close>

definition again :: "unit outcome \<Rightarrow> u32 option outcome" where
  "again m = gbind m (\<lambda>_ w. Ret None w)"

definition gdb_command :: "u32 \<Rightarrow> u8 list \<Rightarrow> world \<Rightarrow> u32 option outcome" where
  "gdb_command sigval rxbuf w =
     gbind (lift_stop (buf_get rxbuf 0) w) (\<lambda>c w.
       if c = ch CHR ''?'' then again (last_signal sigval w)
       else if c = ch CHR ''c'' then
         gbind (lift_stop (hargs_parse_long rxbuf 1 (ch CHR ''#'')) w) (\<lambda>(_, addr) w1.
         gbind (gdb_continue addr w1) (\<lambda>_ w2. Ret (Some 0) w2))
       else if c = ch CHR ''D'' then again (gbind (reply_ok w) (\<lambda>_ w1. gdb_detach w1))
       else if c = ch CHR ''F'' then
         gbind (lift_stop (buf_get rxbuf 1) w) (\<lambda>d w1.
           if d = ch CHR ''-'' then Ret (Some (-1)) w1
           else gbind (lift_stop (hargs_parse_long rxbuf 1 (ch CHR ''#'')) w1) (\<lambda>(_, addr) w2.
             gbind (reply_ok w2) (\<lambda>_ w3. Ret (Some addr) w3)))
       else if c = ch CHR ''g'' then again (read_registers 0 w)
       else if c = ch CHR ''G'' then again (write_registers rxbuf 1 0 w)
       else if c = ch CHR ''H'' then again (reply_ok w)
       else if c = ch CHR ''k'' then again (gbind (reply_ok w) (\<lambda>_ w1. gdb_kill w1))
       else if c = ch CHR ''m'' then again (read_memory rxbuf 1 w)
       else if c = ch CHR ''M'' then again (write_memory rxbuf 1 w)
       else if c = ch CHR ''P'' then again (write_register rxbuf 1 w)
       else if c = ch CHR ''q'' then
         gbind (lift_stop (strcmp_rx rxbuf 1 (chs ''Offsets'' @ [0])) w) (\<lambda>d w1.
           if d = 0 then again (putmsg 0 (chs ''Text=0;Data=0;Bss=0'') 19 w1) else again (putmsg 0 [] 0 w1))
       else if c = ch CHR ''s'' then
         gbind (lift_stop (hargs_parse_long rxbuf 1 (ch CHR ''#'')) w) (\<lambda>(_, addr) w1.
         gbind (gdb_step addr w1) (\<lambda>_ w2. Ret (Some 0) w2))
       else if c = ch CHR ''X'' then again (write_xbin_memory rxbuf 1 w)
       else again (putmsg 0 [] 0 w))"

section \<open>Input is only consumed\<close>

lemma getmsg_rx: "getmsg rxbuf w = Ret b w' \<Longrightarrow> length (rx w') < length (rx w)"
proof (induction "length (rx w)" arbitrary: rxbuf w rule: less_induct)
  case less
  from less.prems [unfolded getmsg.simps [of rxbuf w]]
  obtain w1 p w2 x w3 where s: "wait_start w = Ret () w1" "rx_data rxbuf 0 0 w1 = Ret p w2"
      "rx_checksum w2 = Ret x w3"
    and e: "(if snd p \<noteq> x then gbind (gdb_putc (ch CHR ''-'') w3) (\<lambda>_ w4. getmsg (fst p) w4)
        else gbind (gdb_putc (ch CHR ''+'') w3) (\<lambda>_ w4. Ret (fst p) w4)) = Ret b w'"
    by (auto simp: gbind_Ret Let_def)
  have "length (rx w3) < length (rx w)"
    using wait_start_rx [OF s(1)] rx_data_rx [OF s(2)] rx_checksum_rx [OF s(3)] by simp
  with e less.hyps [of "out [ch CHR ''-''] w3" "fst p"] show ?case by (auto split: if_splits)
qed

lemma putmsg_rx: "putmsg c buf len w = Ret v w' \<Longrightarrow> length (rx w') < length (rx w)"
proof (induction "length (rx w)" arbitrary: w rule: less_induct)
  case less
  from less.prems obtain w1 a w2 where s: "putmsg_send c buf len w = Ret () w1" "gdb_getc w1 = Ret a w2"
    and e: "(if ch CHR ''+'' \<noteq> a then putmsg c buf len w2 else Ret () w2) = Ret v w'"
    by (subst (asm) putmsg.simps) (auto simp: gbind_Ret)
  have "length (rx w2) < length (rx w)"
    using putmsg_send_rx [OF s(1)] gdb_getc_shorter [OF s(2)] by simp
  with e less.hyps [of w2] show ?case by (auto split: if_splits)
qed

lemma read_memory_loop_rx: "read_memory_loop addr len s w = Ret v w' \<Longrightarrow> length (rx w') < length (rx w)"
proof (induction "length (rx w)" arbitrary: s w rule: less_induct)
  case less
  from less.prems obtain w1 t a w2 where g: "gdb_getc w1 = Ret a w2" and w1: "rx w1 = rx w"
    and e: "(if a \<noteq> ch CHR ''+'' then read_memory_loop addr len t w2 else Ret () w2) = Ret v w'"
    by (subst (asm) read_memory_loop.simps) (auto simp: gbind_Ret read_memory_chunks_out Let_def)
  have "length (rx w2) < length (rx w)" using gdb_getc_shorter [OF g] w1 by simp
  with e less.hyps [of w2 t] show ?case by (auto split: if_splits)
qed

lemma gdb_step_no_Ret: "gdb_step addr w \<noteq> Ret v w'"
  by (auto simp: gdb_step_def gbind_Ret gdb_return_from_exception_def Let_def)

lemmas consume_simps = gbind_Ret lift_stop_Ret again_def reply_ok_def split_def Let_def

lemma command_rx:
  "gdb_command sigval rxbuf w = Ret v w' \<Longrightarrow> length (rx w') \<le> length (rx w)"
  unfolding gdb_command_def last_signal_def read_memory_def write_memory_def write_xbin_memory_def
    write_registers_def write_register_def gdb_detach_def gdb_kill_def gdb_continue_def gdb_return_from_exception_def
  by (auto simp: consume_simps gdb_step_no_Ret split: if_splits dest!: putmsg_rx read_memory_loop_rx rregs.loop_rx)

section \<open>The monitor\<close>

function gdb_monitor_loop :: "u32 \<Rightarrow> u8 list \<Rightarrow> world \<Rightarrow> u32 outcome" where
  "gdb_monitor_loop sigval rxbuf w =
     gbind (getmsg rxbuf w) (\<lambda>rxbuf1 w1.
     gbind (gdb_command sigval rxbuf1 w1) (\<lambda>ret w2.
       case ret of None \<Rightarrow> gdb_monitor_loop sigval rxbuf1 w2 | Some v \<Rightarrow> Ret v w2))"
  by pat_completeness auto
termination
  by (relation "measure (\<lambda>(sigval, rxbuf, w). length (rx w))") (auto dest!: getmsg_rx command_rx)

declare gdb_monitor_loop.simps [simp del]

text \<open>\<open>rxbuf\<close> stands for what the \<open>GDB_RXBUFLEN\<close> bytes of the packet buffer hold on entry.\<close>

definition GDB_RXBUFLEN :: nat where
  "GDB_RXBUFLEN = 200"

definition gdb_monitor :: "u32 \<Rightarrow> u8 list \<Rightarrow> world \<Rightarrow> u32 outcome" where
  "gdb_monitor sigval rxbuf w = gbind (gdb_monitor_onentry w) (\<lambda>_ w1. gdb_monitor_loop sigval rxbuf w1)"

definition gdb_handle_exception :: "u32 \<Rightarrow> u8 list \<Rightarrow> world \<Rightarrow> unit outcome" where
  "gdb_handle_exception sigval rxbuf w =
     gbind (expedited sigval 0 w) (\<lambda>_ w1.
     gbind (gdb_monitor sigval rxbuf w1) (\<lambda>_ w2. gdb_return_from_exception w2))"

definition gdb_file_io :: "int \<Rightarrow> u32 \<Rightarrow> u32 \<Rightarrow> u32 \<Rightarrow> u8 list \<Rightarrow> world \<Rightarrow> u32 outcome" where
  "gdb_file_io syscall arg1 arg2 arg3 rxbuf w =
     (if syscall = 0 \<or> syscall > 5 then Ret (-1) w
      else if syscall < 0 then Stop Overrun w
      else
        gbind (gdb_putc (ch CHR ''$'') w) (\<lambda>_ w1.
        gbind (putbuf (syscall_namelen ! nat (syscall - 1)) (syscall_name ! nat (syscall - 1)) w1) (\<lambda>csum w2.
        gbind (put_hex arg1 w2) (\<lambda>s w3.
        let csum = csum + s in
        gbind (if syscall = 1 then
                 gbind (putbuf 1 (chs ''/'') w3) (\<lambda>s1 w4.
                   case strl (mem w4) arg1 of
                     None \<Rightarrow> Stop Endless w4
                   | Some n \<Rightarrow> gbind (put_hex (n + 1) w4) (\<lambda>s2 w5. Ret (csum + s1 + s2) w5))
               else Ret csum w3) (\<lambda>csum w5.
        gbind (if syscall \<noteq> 2 then
                 gbind (putbuf 1 (chs '','') w5) (\<lambda>s1 w6.
                 gbind (put_hex arg2 w6) (\<lambda>s2 w7.
                 gbind (putbuf 1 (chs '','') w7) (\<lambda>s3 w8.
                 gbind (put_hex arg3 w8) (\<lambda>s4 w9. Ret (csum + s1 + s2 + s3 + s4) w9))))
               else Ret csum w5) (\<lambda>csum w9.
        gbind (put_footer csum w9) (\<lambda>_ w10. gdb_monitor 0 rxbuf w10)))))))"

definition gdb_trapa34 :: "int \<Rightarrow> u32 \<Rightarrow> u32 \<Rightarrow> u32 \<Rightarrow> u8 list \<Rightarrow> world \<Rightarrow> u32 outcome" where
  "gdb_trapa34 syscall arg1 arg2 arg3 rxbuf w = gdb_file_io syscall arg1 arg2 arg3 rxbuf w"

section \<open>One command of a session\<close>

text \<open>The packet buffer after a packet with data \<open>ds\<close> has been received into it.\<close>

definition rx_filled :: "u8 list \<Rightarrow> u8 list \<Rightarrow> u8 list" where
  "rx_filled rxbuf ds = ds @ ch CHR ''#'' # 0 # drop (length ds + 2) rxbuf"

lemma length_rx_filled [simp]: "length ds + 2 \<le> length rxbuf \<Longrightarrow> length (rx_filled rxbuf ds) = length rxbuf"
  by (simp add: rx_filled_def)

lemma monitor_step:
  assumes "rx w = packet ds @ rest" "ch CHR ''#'' \<notin> set ds" "length ds + 2 \<le> length rxbuf"
  shows "gdb_monitor_loop sigval rxbuf w =
    gbind (gdb_command sigval (rx_filled rxbuf ds) (out [ch CHR ''+''] (w\<lparr>rx := rest\<rparr>))) (\<lambda>ret w2.
      case ret of None \<Rightarrow> gdb_monitor_loop sigval (rx_filled rxbuf ds) w2 | Some v \<Rightarrow> Ret v w2)"
proof -
  have "getmsg rxbuf w = Ret (rx_filled rxbuf ds) (out [ch CHR ''+''] (w\<lparr>rx := rest\<rparr>))"
    using getmsg_packet [of w "[]" ds rest rxbuf] assms by (simp add: rx_filled_def)
  then show ?thesis by (subst gdb_monitor_loop.simps) (simp only: gbind_simps)
qed

lemma rx_filled_get: "buf_get (rx_filled rxbuf (c # ds)) 0 = Inr c"
  by (simp add: rx_filled_def buf_get_def)

lemma rx_filled_drop: "drop 1 (rx_filled rxbuf (c # ds)) = ds @ ch CHR ''#'' # 0 # drop (length ds + 3) rxbuf"
  by (simp add: rx_filled_def eval_nat_numeral)

lemma reply_ok_acked: "rx w = ch CHR ''+'' # rest \<Longrightarrow> reply_ok w = Ret () (out (packet (chs ''OK'')) (w\<lparr>rx := rest\<rparr>))"
  using msg.loop_acked [of w "[]" rest 0 "chs ''OK''"] by (simp add: reply_ok_def msg_of_def numeral_2_eq_2)

lemma empty_reply_acked: "rx w = ch CHR ''+'' # rest \<Longrightarrow> putmsg 0 [] 0 w = Ret () (out (packet []) (w\<lparr>rx := rest\<rparr>))"
  using msg.loop_acked [of w "[]" rest 0 "[]"] by (simp add: msg_of_def)

text \<open>Every retransmission of \<open>read_memory\<close> goes on adding to the checksum of the one before.\<close>

fun sum_frames :: "u8 list \<Rightarrow> u8 \<Rightarrow> nat \<Rightarrow> u8 list" where
  "sum_frames hs s 0 = []"
| "sum_frames hs s (Suc n) =
     ch CHR ''$'' # hs @ ch CHR ''#'' # hex_bytes [s + sum_list hs] @ sum_frames hs (s + sum_list hs) n"

lemma read_memory_loop_out:
  "rx w = naks @ ch CHR ''+'' # rest \<Longrightarrow> ch CHR ''+'' \<notin> set naks \<Longrightarrow>
   read_memory_loop addr len s w =
     Ret () (out (sum_frames (hex_bytes (bytes_at (mem w) addr (read_count len))) s (Suc (length naks))) (w\<lparr>rx := rest\<rparr>))"
proof (induction naks arbitrary: w s)
  case Nil
  then show ?case
    by (subst read_memory_loop.simps) (simp add: read_memory_chunks_out Let_def gdb_getc_def)
next
  case (Cons a naks)
  let ?hs = "hex_bytes (bytes_at (mem w) addr (read_count len))"
  let ?f = "ch CHR ''$'' # ?hs @ ch CHR ''#'' # hex_bytes [s + sum_list ?hs]"
  let ?w = "out ?f (w\<lparr>rx := naks @ ch CHR ''+'' # rest\<rparr>)"
  have "read_memory_loop addr len (s + sum_list ?hs) ?w =
      Ret () (out (sum_frames ?hs s (Suc (length (a # naks)))) (w\<lparr>rx := rest\<rparr>))"
    using Cons.IH [of ?w "s + sum_list ?hs"] Cons.prems by simp
  with Cons.prems show ?case
    by (subst read_memory_loop.simps) (auto simp: read_memory_chunks_out Let_def gdb_getc_def)
qed

section \<open>Memory commands\<close>

lemma read_memory_digits:
  assumes "drop h buf = as @ ch CHR '','' # ls @ ch CHR ''#'' # tail"
    and "ch CHR '','' \<notin> set as" "ch CHR ''#'' \<notin> set ls"
  shows "read_memory buf h w = read_memory_loop (hex_value as) (hex_value ls) 0 w"
  using hargs_parse_long_digits [OF assms(1,2)]
    hargs_parse_long_digits [of "h + length as + 1" buf ls "ch CHR ''#''" tail] assms
  by (simp add: read_memory_def)

lemma write_memory_digits:
  assumes "drop h buf = as @ ch CHR '','' # ls @ ch CHR '':'' # hex_bytes ds @ tail"
    and "ch CHR '','' \<notin> set as" "ch CHR '':'' \<notin> set ls" "sint (hex_value ls) = int (length ds)"
  shows "write_memory buf h w = reply_ok (w\<lparr>mem := put_bytes (mem w) (hex_value as) ds\<rparr>)"
  using hargs_parse_long_digits [OF assms(1,2)]
    hargs_parse_long_digits [of "h + length as + 1" buf ls "ch CHR '':''" "hex_bytes ds @ tail"]
    hexbuf_to_mem_digits [of "h + length as + 1 + length ls + 1" buf ds tail "mem w" "hex_value as"] assms
  by (simp add: write_memory_def)

lemma write_xbin_memory_digits:
  assumes "drop h buf = as @ ch CHR '','' # ls @ ch CHR '':'' # xescape ds @ tail"
    and "ch CHR '','' \<notin> set as" "ch CHR '':'' \<notin> set ls" "sint (hex_value ls) = int (length ds)"
  shows "write_xbin_memory buf h w = reply_ok (w\<lparr>mem := put_bytes (mem w) (hex_value as) ds\<rparr>)"
  using hargs_parse_long_digits [OF assms(1,2)]
    hargs_parse_long_digits [of "h + length as + 1" buf ls "ch CHR '':''" "xescape ds @ tail"]
    xmem_to_mem_escaped [of "h + length as + 1 + length ls + 1" buf ds tail "mem w" "hex_value as"] assms
  by (simp add: write_xbin_memory_def)

section \<open>Register commands\<close>

lemma load_put_be32: "load_long (put_bytes m 0 (be32 v)) 0 = Inr v"
  by (rule load_store_long [of m]) (simp add: store_long_def)

lemma hexbuf_to_val_digits:
  "drop h buf = hex_bytes (be32 v) @ tail \<Longrightarrow> hexbuf_to_val buf h x 4 = Inr v"
  using hexbuf_to_mem_digits [of h buf "be32 v" tail "val_mem x" 0] by (simp add: hexbuf_to_val_def load_put_be32)

definition regs_text :: "u32 list \<Rightarrow> u8 list" where
  "regs_text vs = concat (map (\<lambda>v. hex_bytes (be32 v)) vs)"

lemma regs_text_simps [simp]: "regs_text [] = []" "regs_text (v # vs) = hex_bytes (be32 v) @ regs_text vs"
  by (simp_all add: regs_text_def)

lemma length_regs_text [simp]: "length (regs_text vs) = 8 * length vs"
  by (induction vs) auto

lemma regs_text_no_hash: "0x23 \<notin> set (regs_text vs)"
  by (induction vs) (auto simp: hex_bytes_no_hash)

lemma write_registers_loop_text:
  "drop h buf = regs_text vs @ ch CHR ''#'' # tail \<Longrightarrow> 0 \<le> rid \<Longrightarrow> rid + int (length vs) \<le> 23 \<Longrightarrow>
   write_registers_loop buf h rid x rf = Inr (poke_from gdb_poke_register_file rf rid vs)"
proof (induction vs arbitrary: h rid x rf)
  case Nil
  then show ?case using buf_get_drop [of h buf] by (subst write_registers_loop.simps) simp
next
  case (Cons v vs)
  obtain c cs where c: "hex_bytes (be32 v) = c # cs" "c \<noteq> 0x23" by (simp add: be32_def)
  have g: "buf_get buf h = Inr c" using buf_get_drop [of h buf c] Cons.prems(1) c by simp
  have "drop (h + 8) buf = drop 8 (drop h buf)" by (simp add: add.commute)
  then have "drop (h + 8) buf = regs_text vs @ ch CHR ''#'' # tail"
    using Cons.prems(1) by simp
  with Cons.IH [of "h + 8" "rid + 1"] Cons.prems g c(2) hexbuf_to_val_digits [of h buf v] show ?case
    by (subst write_registers_loop.simps) (simp add: peek_fst Let_def)
qed

lemma regs_hex_text: "regs_hex rf 0 23 = regs_text (peek_all gdb_peek_register_file 23 rf)"
proof -
  have "snd (gdb_peek_register_file rf (int k) 0) = snd (gdb_peek_register_file rf (int k) undefined)" if "k < 23" for k
    using that by (intro regs.peek_in) auto
  then show ?thesis by (auto simp: regs_hex_def regs_text_def peek_all_def o_def intro!: arg_cong [where f = concat])
qed

lemma write_register_digits:
  assumes "drop h buf = ns @ ch CHR ''='' # hex_bytes (be32 v) @ tail" "ch CHR ''='' \<notin> set ns"
    and "0 \<le> sint (hex_value ns)" "sint (hex_value ns) < 23"
  shows "write_register buf h w =
    reply_ok (w\<lparr>register_file := snd (gdb_poke_register_file (register_file w) (sint (hex_value ns)) v)\<rparr>)"
  using hargs_parse_long_digits [OF assms(1,2)] hexbuf_to_val_digits [of "h + length ns + 1" buf v] assms
  by (simp add: write_register_def hargs_parse_long_def peek_fst Let_def)

section \<open>Sessions\<close>

text \<open>The exchanges of a session: what one command and the host's plus sign make of the world.\<close>

definition m_request :: "u8 list \<Rightarrow> u8 list \<Rightarrow> u8 list" where
  "m_request as ls = ch CHR ''m'' # as @ ch CHR '','' # ls"

definition M_request :: "u8 list \<Rightarrow> u8 list \<Rightarrow> u8 list \<Rightarrow> u8 list" where
  "M_request as ls ds = ch CHR ''M'' # as @ ch CHR '','' # ls @ ch CHR '':'' # hex_bytes ds"

definition X_request :: "u8 list \<Rightarrow> u8 list \<Rightarrow> u8 list \<Rightarrow> u8 list" where
  "X_request as ls ds = ch CHR ''X'' # as @ ch CHR '','' # ls @ ch CHR '':'' # xescape ds"

definition hex_digit :: "u8 \<Rightarrow> bool" where
  "hex_digit c \<longleftrightarrow> c \<in> set (chs ''0123456789abcdefABCDEF'')"

lemma hex_digits_plain:
  "list_all hex_digit ds \<Longrightarrow> 0x23 \<notin> set ds \<and> 0x2c \<notin> set ds \<and> 0x3a \<notin> set ds \<and> 0x3d \<notin> set ds"
  by (auto simp: list_all_iff hex_digit_def ch_def)

lemma m_session:
  assumes "rx w = packet (m_request as ls) @ naks @ ch CHR ''+'' # rest"
    and "list_all hex_digit as" "list_all hex_digit ls" "ch CHR ''+'' \<notin> set naks"
    and "length as + length ls + 4 \<le> length rxbuf"
  shows "gdb_monitor_loop sigval rxbuf w =
    gdb_monitor_loop sigval (rx_filled rxbuf (m_request as ls))
      (out (ch CHR ''+'' # sum_frames (hex_bytes (bytes_at (mem w) (hex_value as) (read_count (hex_value ls)))) 0 (Suc (length naks)))
        (w\<lparr>rx := rest\<rparr>))"
proof -
  let ?b = "rx_filled rxbuf (m_request as ls)"
  have p: "0x23 \<notin> set as" "0x2c \<notin> set as" "0x23 \<notin> set ls"
    using assms(2,3) hex_digits_plain by blast+
  have d: "drop 1 ?b = as @ ch CHR '','' # ls @ ch CHR ''#'' # 0 # drop (length (as @ ch CHR '','' # ls) + 3) rxbuf"
    unfolding m_request_def rx_filled_drop by simp
  have "read_memory ?b 1 w' = read_memory_loop (hex_value as) (hex_value ls) 0 w'" for w'
    using read_memory_digits [OF d] p by simp
  moreover have "buf_get ?b 0 = Inr (ch CHR ''m'')" unfolding m_request_def by (rule rx_filled_get)
  ultimately have "gdb_command sigval ?b (out [ch CHR ''+''] (w\<lparr>rx := naks @ ch CHR ''+'' # rest\<rparr>)) =
      Ret None (out (ch CHR ''+'' # sum_frames (hex_bytes (bytes_at (mem w) (hex_value as) (read_count (hex_value ls)))) 0 (Suc (length naks)))
        (w\<lparr>rx := rest\<rparr>))"
    using read_memory_loop_out [of "out [ch CHR ''+''] (w\<lparr>rx := naks @ ch CHR ''+'' # rest\<rparr>)" naks rest] assms(4)
    by (simp add: gdb_command_def again_def)
  then show ?thesis
    using monitor_step [of w "m_request as ls" "naks @ ch CHR ''+'' # rest" rxbuf sigval] assms p
    by (simp add: m_request_def)
qed

lemma M_session:
  assumes "rx w = packet (M_request as ls ds) @ ch CHR ''+'' # rest"
    and "list_all hex_digit as" "list_all hex_digit ls" "sint (hex_value ls) = int (length ds)"
    and "length as + length ls + 2 * length ds + 5 \<le> length rxbuf"
  shows "gdb_monitor_loop sigval rxbuf w =
    gdb_monitor_loop sigval (rx_filled rxbuf (M_request as ls ds))
      (out (ch CHR ''+'' # packet (chs ''OK'')) (w\<lparr>rx := rest, mem := put_bytes (mem w) (hex_value as) ds\<rparr>))"
proof -
  let ?b = "rx_filled rxbuf (M_request as ls ds)"
  have p: "0x23 \<notin> set as" "0x2c \<notin> set as" "0x23 \<notin> set ls" "0x3a \<notin> set ls"
    using assms(2,3) hex_digits_plain by blast+
  have d: "drop 1 ?b = as @ ch CHR '','' # ls @ ch CHR '':'' # hex_bytes ds @ ch CHR ''#'' # 0 #
      drop (length (as @ ch CHR '','' # ls @ ch CHR '':'' # hex_bytes ds) + 3) rxbuf"
    unfolding M_request_def rx_filled_drop by simp
  have "write_memory ?b 1 w' = reply_ok (w'\<lparr>mem := put_bytes (mem w') (hex_value as) ds\<rparr>)" for w'
    using write_memory_digits [OF d] p assms(4) by simp
  moreover have "buf_get ?b 0 = Inr (ch CHR ''M'')" unfolding M_request_def by (rule rx_filled_get)
  ultimately have "gdb_command sigval ?b (out [ch CHR ''+''] (w\<lparr>rx := ch CHR ''+'' # rest\<rparr>)) =
      Ret None (out (ch CHR ''+'' # packet (chs ''OK'')) (w\<lparr>rx := rest, mem := put_bytes (mem w) (hex_value as) ds\<rparr>))"
    using reply_ok_acked [of "out [ch CHR ''+''] (w\<lparr>rx := ch CHR ''+'' # rest, mem := put_bytes (mem w) (hex_value as) ds\<rparr>)" rest]
    by (simp add: gdb_command_def again_def)
  then show ?thesis
    using monitor_step [of w "M_request as ls ds" "ch CHR ''+'' # rest" rxbuf sigval] assms p hex_bytes_no_hash [of ds]
    by (simp add: M_request_def)
qed

lemma X_session:
  assumes "rx w = packet (X_request as ls ds) @ ch CHR ''+'' # rest"
    and "list_all hex_digit as" "list_all hex_digit ls" "sint (hex_value ls) = int (length ds)"
    and "length as + length ls + length (xescape ds) + 5 \<le> length rxbuf"
  shows "gdb_monitor_loop sigval rxbuf w =
    gdb_monitor_loop sigval (rx_filled rxbuf (X_request as ls ds))
      (out (ch CHR ''+'' # packet (chs ''OK'')) (w\<lparr>rx := rest, mem := put_bytes (mem w) (hex_value as) ds\<rparr>))"
proof -
  let ?b = "rx_filled rxbuf (X_request as ls ds)"
  have p: "0x23 \<notin> set as" "0x2c \<notin> set as" "0x23 \<notin> set ls" "0x3a \<notin> set ls"
    using assms(2,3) hex_digits_plain by blast+
  have d: "drop 1 ?b = as @ ch CHR '','' # ls @ ch CHR '':'' # xescape ds @ ch CHR ''#'' # 0 #
      drop (length (as @ ch CHR '','' # ls @ ch CHR '':'' # xescape ds) + 3) rxbuf"
    unfolding X_request_def rx_filled_drop by simp
  have "write_xbin_memory ?b 1 w' = reply_ok (w'\<lparr>mem := put_bytes (mem w') (hex_value as) ds\<rparr>)" for w'
    using write_xbin_memory_digits [OF d] p assms(4) by simp
  moreover have "buf_get ?b 0 = Inr (ch CHR ''X'')" unfolding X_request_def by (rule rx_filled_get)
  ultimately have "gdb_command sigval ?b (out [ch CHR ''+''] (w\<lparr>rx := ch CHR ''+'' # rest\<rparr>)) =
      Ret None (out (ch CHR ''+'' # packet (chs ''OK'')) (w\<lparr>rx := rest, mem := put_bytes (mem w) (hex_value as) ds\<rparr>))"
    using reply_ok_acked [of "out [ch CHR ''+''] (w\<lparr>rx := ch CHR ''+'' # rest, mem := put_bytes (mem w) (hex_value as) ds\<rparr>)" rest]
    by (simp add: gdb_command_def again_def)
  then show ?thesis
    using monitor_step [of w "X_request as ls ds" "ch CHR ''+'' # rest" rxbuf sigval] assms p xescape_no_hash [of ds]
    by (simp add: X_request_def)
qed

lemma G_session:
  assumes "rx w = packet (ch CHR ''G'' # regs_text vs) @ ch CHR ''+'' # rest"
    and "length vs \<le> 23" "8 * length vs + 3 \<le> length rxbuf"
  shows "gdb_monitor_loop sigval rxbuf w =
    gdb_monitor_loop sigval (rx_filled rxbuf (ch CHR ''G'' # regs_text vs))
      (out (ch CHR ''+'' # packet (chs ''OK''))
        (w\<lparr>rx := rest, register_file := poke_from gdb_poke_register_file (register_file w) 0 vs\<rparr>))"
proof -
  let ?b = "rx_filled rxbuf (ch CHR ''G'' # regs_text vs)"
  have "drop 1 ?b = regs_text vs @ ch CHR ''#'' # 0 # drop (length (regs_text vs) + 3) rxbuf"
    by (rule rx_filled_drop)
  then have "write_registers ?b 1 0 w' =
      reply_ok (w'\<lparr>register_file := poke_from gdb_poke_register_file (register_file w') 0 vs\<rparr>)" for w'
    using write_registers_loop_text [of 1 ?b vs "0 # drop (length (regs_text vs) + 3) rxbuf" 0] assms(2)
    by (simp add: write_registers_def)
  then have "gdb_command sigval ?b (out [ch CHR ''+''] (w\<lparr>rx := ch CHR ''+'' # rest\<rparr>)) =
      Ret None (out (ch CHR ''+'' # packet (chs ''OK''))
        (w\<lparr>rx := rest, register_file := poke_from gdb_poke_register_file (register_file w) 0 vs\<rparr>))"
    using reply_ok_acked [of "out [ch CHR ''+''] (w\<lparr>rx := ch CHR ''+'' # rest,
        register_file := poke_from gdb_poke_register_file (register_file w) 0 vs\<rparr>)" rest]
    by (simp add: gdb_command_def again_def rx_filled_get)
  then show ?thesis
    using monitor_step [of w "ch CHR ''G'' # regs_text vs" "ch CHR ''+'' # rest" rxbuf sigval] assms
      regs_text_no_hash [of vs]
    by simp
qed

lemma g_session:
  assumes "rx w = packet [ch CHR ''g''] @ naks @ ch CHR ''+'' # rest" "ch CHR ''+'' \<notin> set naks" "3 \<le> length rxbuf"
  shows "gdb_monitor_loop sigval rxbuf w =
    gdb_monitor_loop sigval (rx_filled rxbuf [ch CHR ''g''])
      (out (ch CHR ''+'' # concat (replicate (Suc (length naks))
          (packet (regs_text (peek_all gdb_peek_register_file 23 (register_file w)))))) (w\<lparr>rx := rest\<rparr>))"
proof -
  let ?b = "rx_filled rxbuf [ch CHR ''g'']"
  have "gdb_command sigval ?b (out [ch CHR ''+''] (w\<lparr>rx := naks @ ch CHR ''+'' # rest\<rparr>)) =
      Ret None (out (ch CHR ''+'' # concat (replicate (Suc (length naks))
          (packet (regs_text (peek_all gdb_peek_register_file 23 (register_file w)))))) (w\<lparr>rx := rest\<rparr>))"
    using rregs.loop_acked [of "out [ch CHR ''+''] (w\<lparr>rx := naks @ ch CHR ''+'' # rest\<rparr>)" naks rest 0] assms(2)
    by (simp add: gdb_command_def again_def rx_filled_get regs_hex_text)
  then show ?thesis
    using monitor_step [of w "[ch CHR ''g'']" "naks @ ch CHR ''+'' # rest" rxbuf sigval] assms
    by simp
qed

lemma strcmp_rx_hash:
  assumes "drop h buf = chs ''Offsets'' @ ch CHR ''#'' # tail"
  shows "\<exists>d. strcmp_rx buf h (chs ''Offsets'' @ [0]) = Inr d \<and> d \<noteq> 0"
proof -
  have step: "drop k buf = b # xs \<Longrightarrow> b \<noteq> 0 \<Longrightarrow> strcmp_rx buf k (b # bs) = strcmp_rx buf (k + 1) bs \<and> drop (k + 1) buf = xs"
    for k b xs bs using buf_get_drop [of k buf b xs] by simp
  have "strcmp_rx buf h (cs @ [0]) = strcmp_rx buf (h + length cs) [0] \<and> drop (h + length cs) buf = ch CHR ''#'' # tail"
    if "drop h buf = cs @ ch CHR ''#'' # tail" "0 \<notin> set cs" for h cs
    using that
  proof (induction cs arbitrary: h)
    case (Cons c cs)
    then show ?case using step [of h c "cs @ ch CHR ''#'' # tail" "cs @ [0]"] Cons.IH [of "h + 1"] by simp
  qed simp
  from this [OF assms] buf_get_drop [of "h + length (chs ''Offsets'')" buf "ch CHR ''#''" tail]
  show ?thesis by (auto simp: ch_def)
qed

lemma q_offsets_session:
  assumes "rx w = packet (chs ''qOffsets'') @ ch CHR ''+'' # rest" "10 \<le> length rxbuf"
  shows "gdb_monitor_loop sigval rxbuf w =
    gdb_monitor_loop sigval (rx_filled rxbuf (chs ''qOffsets'')) (out (ch CHR ''+'' # packet []) (w\<lparr>rx := rest\<rparr>))"
proof -
  let ?b = "rx_filled rxbuf (chs ''qOffsets'')"
  have b: "?b = rx_filled rxbuf (ch CHR ''q'' # chs ''Offsets'')" by simp
  have "drop 1 ?b = chs ''Offsets'' @ ch CHR ''#'' # 0 # drop (length (chs ''Offsets'') + 3) rxbuf"
    unfolding b by (rule rx_filled_drop)
  then obtain d where "strcmp_rx ?b 1 (chs ''Offsets'' @ [0]) = Inr d" "d \<noteq> 0"
    using strcmp_rx_hash by blast
  moreover have "buf_get ?b 0 = Inr (ch CHR ''q'')" unfolding b by (rule rx_filled_get)
  ultimately have "gdb_command sigval ?b (out [ch CHR ''+''] (w\<lparr>rx := ch CHR ''+'' # rest\<rparr>)) =
      Ret None (out (ch CHR ''+'' # packet []) (w\<lparr>rx := rest\<rparr>))"
    using empty_reply_acked [of "out [ch CHR ''+''] (w\<lparr>rx := ch CHR ''+'' # rest\<rparr>)" rest]
    by (simp add: gdb_command_def again_def del: chs_simps)
  moreover have "0x23 \<notin> set (chs ''qOffsets'')" by (simp add: ch_def)
  ultimately show ?thesis
    using monitor_step [of w "chs ''qOffsets''" "ch CHR ''+'' # rest" rxbuf sigval] assms
    by (simp del: chs_simps add: chs_def)
qed

lemma c_session:
  assumes "rx w = packet (ch CHR ''c'' # as) @ rest" "list_all hex_digit as" "length as + 3 \<le> length rxbuf"
  shows "gdb_monitor_loop sigval rxbuf w =
    Stop Resumed (out [ch CHR ''+''] ((if hex_value as \<noteq> 0 then set_pc (hex_value as) w else w)\<lparr>rx := rest\<rparr>))"
proof -
  let ?b = "rx_filled rxbuf (ch CHR ''c'' # as)"
  have p: "0x23 \<notin> set as" using assms(2) hex_digits_plain by blast
  have "drop 1 ?b = as @ ch CHR ''#'' # 0 # drop (length as + 3) rxbuf" by (rule rx_filled_drop)
  from hargs_parse_long_digits(1) [OF this] p
  have "hargs_parse_long ?b 1 (ch CHR ''#'') = Inr (1 + length as + 1, hex_value as)" by simp
  then have "gdb_command sigval ?b (out [ch CHR ''+''] (w\<lparr>rx := rest\<rparr>)) =
      Stop Resumed (out [ch CHR ''+''] ((if hex_value as \<noteq> 0 then set_pc (hex_value as) w else w)\<lparr>rx := rest\<rparr>))"
    by (simp add: gdb_command_def rx_filled_get gdb_continue_def gdb_return_from_exception_def set_pc_def)
  then show ?thesis
    using monitor_step [of w "ch CHR ''c'' # as" rest rxbuf sigval] assms p by simp
qed

lemma F_session:
  assumes "rx w = packet (ch CHR ''F'' # as) @ ch CHR ''+'' # rest" "list_all hex_digit as" "as \<noteq> []" "length as + 3 \<le> length rxbuf"
  shows "gdb_monitor_loop sigval rxbuf w =
    Ret (hex_value as) (out (ch CHR ''+'' # packet (chs ''OK'')) (w\<lparr>rx := rest\<rparr>))"
proof -
  let ?b = "rx_filled rxbuf (ch CHR ''F'' # as)"
  have p: "0x23 \<notin> set as" using assms(2) hex_digits_plain by blast
  have d: "drop 1 ?b = as @ ch CHR ''#'' # 0 # drop (length as + 3) rxbuf" by (rule rx_filled_drop)
  from hargs_parse_long_digits(1) [OF this] p
  have h: "hargs_parse_long ?b 1 (ch CHR ''#'') = Inr (1 + length as + 1, hex_value as)" by simp
  have "\<exists>c. buf_get ?b 1 = Inr c \<and> c \<noteq> ch CHR ''-''"
    using buf_get_drop [of 1 ?b "hd as" "tl as @ ch CHR ''#'' # 0 # drop (length as + 3) rxbuf"] d assms(2,3)
    by (cases as) (auto simp: hex_digit_def ch_def)
  with h have "gdb_command sigval ?b (out [ch CHR ''+''] (w\<lparr>rx := ch CHR ''+'' # rest\<rparr>)) =
      Ret (Some (hex_value as)) (out (ch CHR ''+'' # packet (chs ''OK'')) (w\<lparr>rx := rest\<rparr>))"
    using reply_ok_acked [of "out [ch CHR ''+''] (w\<lparr>rx := ch CHR ''+'' # rest\<rparr>)" rest]
    by (auto simp: gdb_command_def rx_filled_get)
  then show ?thesis
    using monitor_step [of w "ch CHR ''F'' # as" "ch CHR ''+'' # rest" rxbuf sigval] assms p by simp
qed

lemma put_hex_out [simp]: "put_hex v w = Ret (sum_list (hex_bytes (be32 v))) (out (hex_bytes (be32 v)) w)"
  by (simp add: put_hex_def mem_to_hexbuf_eq bytes_at_val_mem)

text \<open>The request of a system call as the host sees it; \<open>n\<close> is the length of the name \<open>open\<close> is given.\<close>

definition fio_request :: "int \<Rightarrow> u32 \<Rightarrow> u32 \<Rightarrow> u32 \<Rightarrow> u32 \<Rightarrow> u8 list" where
  "fio_request syscall n arg1 arg2 arg3 =
     syscall_name ! nat (syscall - 1) @ hex_bytes (be32 arg1) @
     (if syscall = 1 then ch CHR ''/'' # hex_bytes (be32 (n + 1)) else []) @
     (if syscall \<noteq> 2 then ch CHR '','' # hex_bytes (be32 arg2) @ ch CHR '','' # hex_bytes (be32 arg3) else [])"

lemma syscall_name_len:
  assumes "0 < syscall" "syscall \<le> 5"
  shows "syscall_namelen ! nat (syscall - 1) = length (syscall_name ! nat (syscall - 1))"
proof -
  have "syscall \<in> {1, 2, 3, 4, 5}" using assms by auto
  then show ?thesis by (auto simp: syscall_namelen_def syscall_name_def)
qed

lemma file_io_out:
  assumes "0 < syscall" "syscall \<le> 5" "syscall = 1 \<Longrightarrow> strl (mem w) arg1 = Some n"
  shows "gdb_file_io syscall arg1 arg2 arg3 rxbuf w =
    gdb_monitor 0 rxbuf (out (packet (fio_request syscall n arg1 arg2 arg3)) w)"
  using assms(1,2) syscall_name_len [OF assms(1,2)] assms(3)
  by (cases "syscall = 1"; cases "syscall = 2")
    (auto simp: gdb_file_io_def fio_request_def packet_def Let_def add.assoc)

section \<open>Properties\<close>

text \<open>
  an m packet is answered with exactly the requested memory: the monitor acknowledges it, sends
  the hex dump of the bytes at the address (four bytes when the length is negative as a long) with a
  correct checksum, and goes on with the input behind the host's plus sign, memory and registers
  untouched.
\<close>

theorem monitor_reads_memory:
  assumes "rx w = packet (m_request as ls) @ ch CHR ''+'' # rest"
    and "list_all hex_digit as" "list_all hex_digit ls" "length as + length ls + 4 \<le> length rxbuf"
  shows "gdb_monitor_loop sigval rxbuf w =
    gdb_monitor_loop sigval (rx_filled rxbuf (m_request as ls))
      (out (ch CHR ''+'' # packet (hex_bytes (bytes_at (mem w) (hex_value as) (read_count (hex_value ls)))))
        (w\<lparr>rx := rest\<rparr>))"
  using m_session [of w as ls "[]" rest rxbuf sigval] assms by (simp add: packet_def)

theorem monitor_reads_memory_witness:
  "gdb_monitor_loop 5 (replicate 200 0) (empty_world (packet (chs ''m1000,2'') @ chs ''+'')) =
   gdb_monitor_loop 5 (rx_filled (replicate 200 0) (chs ''m1000,2'')) (out (chs ''+$0000#c0'') (empty_world []))"
proof -
  have h: "hex_value (chs ''2'') = 2" by (simp add: hex_value_def hex_to_int_def ch_def)
  show ?thesis
    using monitor_reads_memory [of "empty_world (packet (chs ''m1000,2'') @ chs ''+'')" "chs ''1000''" "chs ''2''" "[]" "replicate 200 0" 5]
    unfolding h
    by (simp add: empty_world_def m_request_def hex_digit_def ch_def packet_def read_count_def bytes_at_small lnibble_to_hex_def)
qed

text \<open>
  C1: memory written by an M packet and read back by an m packet with the same address and length
  is what was written, at any alignment, and no other byte has changed.
\<close>

theorem monitor_write_then_read:
  assumes "rx w = packet (M_request as ls ds) @ ch CHR ''+'' # packet (m_request as ls) @ ch CHR ''+'' # rest"
    and "list_all hex_digit as" "list_all hex_digit ls" "sint (hex_value ls) = int (length ds)"
    and "length as + length ls + 2 * length ds + 5 \<le> length rxbuf"
  shows "\<exists>rxbuf'. length rxbuf' = length rxbuf \<and>
    gdb_monitor_loop sigval rxbuf w = gdb_monitor_loop sigval rxbuf'
      (out (ch CHR ''+'' # packet (chs ''OK'') @ ch CHR ''+'' # packet (hex_bytes ds))
        (w\<lparr>mem := put_bytes (mem w) (hex_value as) ds, rx := rest\<rparr>))"
proof -
  let ?b = "rx_filled rxbuf (M_request as ls ds)" and ?m = "put_bytes (mem w) (hex_value as) ds"
  let ?w = "out (ch CHR ''+'' # packet (chs ''OK'')) (w\<lparr>rx := packet (m_request as ls) @ ch CHR ''+'' # rest, mem := ?m\<rparr>)"
  have 1: "gdb_monitor_loop sigval rxbuf w = gdb_monitor_loop sigval ?b ?w"
    using M_session [of w as ls ds "packet (m_request as ls) @ ch CHR ''+'' # rest" rxbuf sigval] assms by simp
  have u: "unat (hex_value ls) = length ds" "length ds < 2 ^ 31"
    using sint_u32_eq_nat [OF assms(4)] by blast+
  have lb: "length ?b = length rxbuf" using assms(5) by (simp add: M_request_def)
  have "read_count (hex_value ls) = length ds" using u assms(4) by (simp add: read_count_def)
  moreover have "bytes_at ?m (hex_value as) (length ds) = ds" using u(2) by simp
  ultimately have "gdb_monitor_loop sigval ?b ?w =
      gdb_monitor_loop sigval (rx_filled ?b (m_request as ls))
        (out (ch CHR ''+'' # packet (chs ''OK'') @ ch CHR ''+'' # packet (hex_bytes ds)) (w\<lparr>mem := ?m, rx := rest\<rparr>))"
    using m_session [of ?w as ls "[]" rest ?b sigval] assms lb by (simp add: packet_def)
  moreover have "length (rx_filled ?b (m_request as ls)) = length rxbuf"
    using lb assms(5) by (subst length_rx_filled) (simp_all add: m_request_def)
  ultimately show ?thesis using 1 by metis
qed

theorem monitor_write_then_read_witness:
  "\<exists>rxbuf'. length rxbuf' = 200 \<and>
    gdb_monitor_loop 5 (replicate 200 0)
      (empty_world (packet (M_request (chs ''1001'') (chs ''2'') [0xab, 0xcd]) @ chs ''+'' @ packet (m_request (chs ''1001'') (chs ''2'')) @ chs ''+'')) =
    gdb_monitor_loop 5 rxbuf'
      (out (chs ''+$OK#9a+'' @ packet (chs ''abcd''))
        ((empty_world [])\<lparr>mem := put_bytes (\<lambda>_. 0) 0x1001 [0xab, 0xcd]\<rparr>))"
proof -
  have h: "hex_value (chs ''2'') = 2" "hex_value (chs ''1001'') = 0x1001"
    by (simp_all add: hex_value_def hex_to_int_def ch_def)
  have p: "ch CHR ''+'' # packet (chs ''OK'') @ ch CHR ''+'' # packet (hex_bytes [0xab, 0xcd]) = chs ''+$OK#9a+'' @ packet (chs ''abcd'')"
    by (simp add: packet_def lnibble_to_hex_def ch_def)
  show ?thesis
    using monitor_write_then_read [of "empty_world (packet (M_request (chs ''1001'') (chs ''2'') [0xab, 0xcd]) @ chs ''+'' @
        packet (m_request (chs ''1001'') (chs ''2'')) @ chs ''+'')" "chs ''1001''" "chs ''2''" "[0xab, 0xcd]" "[]" "replicate 200 0" 5]
    unfolding h p by (simp add: empty_world_def hex_digit_def ch_def)
qed

text \<open>
  C27: an X packet stores its unescaped bytes at the address and nothing else, and is answered OK.
\<close>

theorem monitor_loads_binary:
  assumes "rx w = packet (X_request as ls ds) @ ch CHR ''+'' # rest"
    and "list_all hex_digit as" "list_all hex_digit ls" "sint (hex_value ls) = int (length ds)"
    and "length as + length ls + length (xescape ds) + 5 \<le> length rxbuf"
  shows "gdb_monitor_loop sigval rxbuf w =
    gdb_monitor_loop sigval (rx_filled rxbuf (X_request as ls ds))
      (out (ch CHR ''+'' # packet (chs ''OK'')) (w\<lparr>rx := rest, mem := put_bytes (mem w) (hex_value as) ds\<rparr>))"
  using assms by (rule X_session)

theorem monitor_loads_binary_witness:
  "gdb_monitor_loop 5 (replicate 200 0) (empty_world (packet (X_request (chs ''8'') (chs ''1'') [0x7d]) @ chs ''+'')) =
   gdb_monitor_loop 5 (rx_filled (replicate 200 0) (X_request (chs ''8'') (chs ''1'') [0x7d]))
     (out (ch CHR ''+'' # packet (chs ''OK'')) ((empty_world [])\<lparr>mem := put_bytes (\<lambda>_. 0) 8 [0x7d]\<rparr>))"
proof -
  have h: "hex_value (chs ''1'') = 1" "hex_value (chs ''8'') = 8"
    by (simp_all add: hex_value_def hex_to_int_def ch_def)
  show ?thesis
    using monitor_loads_binary [of "empty_world (packet (X_request (chs ''8'') (chs ''1'') [0x7d]) @ chs ''+'')" "chs ''8''" "chs ''1''"
      "[0x7d]" "[]" "replicate 200 0" 5] unfolding h
    by (simp add: empty_world_def hex_digit_def ch_def xescape1_def)
qed

text \<open>
  C2: the registers written by a G packet are the registers a following g packet reports, all 23 in
  gdb's order, even when the host asks for retransmissions of the report.
\<close>

theorem monitor_registers_roundtrip:
  assumes "rx w = packet (ch CHR ''G'' # regs_text vs) @ ch CHR ''+'' # packet [ch CHR ''g''] @ naks @ ch CHR ''+'' # rest"
    and "length vs = 23" "rf_wf (register_file w)" "ch CHR ''+'' \<notin> set naks" "187 \<le> length rxbuf"
  shows "\<exists>rxbuf' rf. rf_wf rf \<and> rf_list rf = vs \<and>
    gdb_monitor_loop sigval rxbuf w = gdb_monitor_loop sigval rxbuf'
      (out (ch CHR ''+'' # packet (chs ''OK'') @ ch CHR ''+'' # concat (replicate (Suc (length naks)) (packet (regs_text vs))))
        (w\<lparr>register_file := rf, rx := rest\<rparr>))"
proof -
  let ?rf = "poke_from gdb_poke_register_file (register_file w) 0 vs"
  let ?b = "rx_filled rxbuf (ch CHR ''G'' # regs_text vs)"
  let ?w = "out (ch CHR ''+'' # packet (chs ''OK'')) (w\<lparr>rx := packet [ch CHR ''g''] @ naks @ ch CHR ''+'' # rest, register_file := ?rf\<rparr>)"
  have wf: "rf_wf ?rf" using assms(3) by (rule regs.poke_from_inv)
  have pk: "peek_all gdb_peek_register_file 23 ?rf = vs" using assms(2,3) by (simp add: regs.peek_all_poke_all)
  have "map ((!) (rf_list ?rf)) [0..<23] = vs"
  proof -
    have "map ((!) (rf_list ?rf)) [0..<23] = peek_all gdb_peek_register_file 23 ?rf"
      using wf by (auto simp: peek_all_def peek_rf_list)
    then show ?thesis using pk by simp
  qed
  then have l: "rf_list ?rf = vs" using length_rf_list [OF wf] by (metis map_nth)
  have 1: "gdb_monitor_loop sigval rxbuf w = gdb_monitor_loop sigval ?b ?w"
    using G_session [of w vs "packet [ch CHR ''g''] @ naks @ ch CHR ''+'' # rest" rxbuf sigval] assms by simp
  have "length ?b = length rxbuf" using assms(2,5) by simp
  then have "gdb_monitor_loop sigval ?b ?w = gdb_monitor_loop sigval (rx_filled ?b [ch CHR ''g''])
      (out (ch CHR ''+'' # packet (chs ''OK'') @ ch CHR ''+'' # concat (replicate (Suc (length naks)) (packet (regs_text vs))))
        (w\<lparr>register_file := ?rf, rx := rest\<rparr>))"
    using g_session [of ?w naks rest ?b sigval] assms(4,5) pk by simp
  then show ?thesis using 1 l wf by metis
qed

theorem monitor_registers_roundtrip_witness:
  "\<exists>rxbuf' rf. rf_wf rf \<and> rf_list rf = replicate 23 7 \<and>
    gdb_monitor_loop 5 (replicate 200 0)
      (empty_world (packet (ch CHR ''G'' # regs_text (replicate 23 7)) @ chs ''+'' @ packet (chs ''g'') @ chs ''+'')) =
    gdb_monitor_loop 5 rxbuf'
      (out (ch CHR ''+'' # packet (chs ''OK'') @ ch CHR ''+'' # packet (regs_text (replicate 23 7)))
        ((empty_world [])\<lparr>register_file := rf\<rparr>))"
  using monitor_registers_roundtrip [of "empty_world (packet (ch CHR ''G'' # regs_text (replicate 23 7)) @ chs ''+'' @
      packet (chs ''g'') @ chs ''+'')" "replicate 23 7" "[]" "[]" "replicate 200 0" 5]
  by (simp add: empty_world_def rf_wf_def)

text \<open>
  C34: when the host asks for a memory dump to be sent again, the second copy carries the checksum of
  both copies together: \<open>sum\<close> is set to 0 before the loop and not in it, so the retransmitted packet
  is only acceptable if the sum of the digits is 0 modulo 256.
\<close>

theorem read_memory_retransmits_wrong:
  assumes "rx w = a # ch CHR ''+'' # rest" "a \<noteq> ch CHR ''+''"
    and "hs = hex_bytes (bytes_at (mem w) addr (read_count len))"
  shows "read_memory_loop addr len 0 w =
    Ret () (out (packet hs @ ch CHR ''$'' # hs @ ch CHR ''#'' # hex_bytes [2 * sum_list hs]) (w\<lparr>rx := rest\<rparr>))"
  using read_memory_loop_out [of w "[a]" rest addr len 0] assms by (auto simp: packet_def)

theorem read_memory_retransmits_wrong_witness:
  "read_memory_loop 0 1 0 (empty_world (chs ''-+'')) = Ret () (out (chs ''$00#60$00#c0'') (empty_world []))"
  using read_memory_retransmits_wrong [of "empty_world (chs ''-+'')" "ch CHR ''-''" "[]" "chs ''00''" 0 1]
  by (simp add: empty_world_def packet_def lnibble_to_hex_def ch_def read_count_def bytes_at_Suc)

text \<open>
  C35: a qOffsets packet is never answered with the section offsets: the buffer still holds the
  hash sign behind the text it is compared with.
\<close>

theorem qOffsets_not_recognised:
  assumes "rx w = packet (chs ''qOffsets'') @ ch CHR ''+'' # rest" "10 \<le> length rxbuf"
  shows "gdb_monitor_loop sigval rxbuf w =
    gdb_monitor_loop sigval (rx_filled rxbuf (chs ''qOffsets'')) (out (ch CHR ''+'' # packet []) (w\<lparr>rx := rest\<rparr>))"
  using assms by (rule q_offsets_session)

theorem qOffsets_not_recognised_witness:
  "gdb_monitor_loop 5 (replicate 200 0) (empty_world (packet (chs ''qOffsets'') @ chs ''+'')) =
   gdb_monitor_loop 5 (rx_filled (replicate 200 0) (chs ''qOffsets'')) (out (ch CHR ''+'' # packet []) (empty_world []))"
  using qOffsets_not_recognised [of "empty_world (packet (chs ''qOffsets'') @ chs ''+'')" "[]" "replicate 200 0" 5]
  by (simp add: empty_world_def del: chs_simps) (simp add: ch_def chs_def)

text \<open>The world without the pending step: the opcode it replaced is back at the PC.\<close>

definition step_cleared :: "world \<Rightarrow> world" where
  "step_cleared w =
     (if gdb_sh2_stepped_opcode w = 0 then w
      else w\<lparr>mem := put_bytes (mem w) (pc (register_file w)) (be16 (gdb_sh2_stepped_opcode w)), gdb_sh2_stepped_opcode := 0\<rparr>)"

lemma monitor_onentry:
  "gdb_monitor_onentry w =
   (if gdb_sh2_stepped_opcode w \<noteq> 0 \<and> pc (register_file w) mod 2 \<noteq> 0 then Stop Address_Error w else Ret () (step_cleared w))"
  by (simp add: gdb_monitor_onentry_def store_short_def step_cleared_def)

lemma step_cleared_frame: "step_cleared (out bs (w\<lparr>rx := xs\<rparr>)) = out bs ((step_cleared w)\<lparr>rx := xs\<rparr>)"
  by (cases w) (simp add: step_cleared_def out_def)

text \<open>
  C25: an exception is reported to the host and the program continues: the expedited packet with all
  registers is sent until acknowledged, then a pending step is undone, the opcode that its trap replaced stored back
  at the PC, and a c packet resumes the program, at the address it gives or else where it stopped. With a step
  pending and an odd PC the monitor itself ends in an address error after the packet.
\<close>

theorem exception_reported_and_continued:
  assumes "rx w = naks @ ch CHR ''+'' # packet (ch CHR ''c'' # as) @ rest" "ch CHR ''+'' \<notin> set naks"
    and "list_all hex_digit as" "length as + 3 \<le> length rxbuf"
  shows "gdb_handle_exception sigval rxbuf w =
    (let report = concat (replicate (Suc (length naks)) (packet (expedited_data sigval (register_file w)))) in
     if gdb_sh2_stepped_opcode w \<noteq> 0 \<and> pc (register_file w) mod 2 \<noteq> 0
     then Stop Address_Error (out report (w\<lparr>rx := packet (ch CHR ''c'' # as) @ rest\<rparr>))
     else Stop Resumed (out (report @ [ch CHR ''+''])
       ((if hex_value as \<noteq> 0 then set_pc (hex_value as) (step_cleared w) else step_cleared w)\<lparr>rx := rest\<rparr>)))"
proof -
  let ?f = "concat (replicate (Suc (length naks)) (packet (expedited_data sigval (register_file w))))"
  let ?w = "out ?f (w\<lparr>rx := packet (ch CHR ''c'' # as) @ rest\<rparr>)"
  have e: "expedited sigval 0 w = Ret () ?w"
    using assms(1,2) by (rule exped.loop_acked)
  show ?thesis
  proof (cases "gdb_sh2_stepped_opcode w \<noteq> 0 \<and> pc (register_file w) mod 2 \<noteq> 0")
    case True
    then show ?thesis
      using e by (simp add: gdb_handle_exception_def gdb_monitor_def monitor_onentry Let_def )
  next
    case False
    let ?v = "out ?f (step_cleared w\<lparr>rx := packet (ch CHR ''c'' # as) @ rest\<rparr>)"
    have "gdb_monitor sigval rxbuf ?w = gdb_monitor_loop sigval rxbuf ?v"
      using False by (auto simp: gdb_monitor_def monitor_onentry step_cleared_frame even_iff_mod_2_eq_zero)
    then show ?thesis
      using c_session [of ?v as rest rxbuf sigval] assms(3,4) e False
      by (simp add: gdb_handle_exception_def set_pc_def Let_def)
  qed
qed

text \<open>A step is pending: the trap has replaced the opcode 9 at address \<open>0x100\<close>.\<close>

definition stepped_world :: world where
  "stepped_world =
     (empty_world (chs ''+'' @ packet (chs ''c40'')))\<lparr>gdb_sh2_stepped_opcode := 9,
       register_file := (register_file (empty_world []))\<lparr>pc := 0x100\<rparr>\<rparr>"

theorem exception_reported_and_continued_witness:
  "\<exists>w1. gdb_handle_exception 5 (replicate 200 0) stepped_world = Stop Resumed w1 \<and> rx w1 = [] \<and>
     pc (register_file w1) = 0x40 \<and> gdb_sh2_stepped_opcode w1 = 0 \<and> load_short (mem w1) 0x100 = Inr 9"
proof -
  have h: "hex_value (chs ''40'') = 0x40" by (simp add: hex_value_def hex_to_int_def ch_def)
  have s: "rx stepped_world = [] @ ch CHR ''+'' # packet (ch CHR ''c'' # chs ''40'') @ []" "pc (register_file stepped_world) = 0x100"
    "gdb_sh2_stepped_opcode stepped_world = 9" by (simp_all add: stepped_world_def empty_world_def)
  have "ch CHR ''+'' \<notin> set []" "list_all hex_digit (chs ''40'')" "length (chs ''40'') + 3 \<le> length (replicate 200 (0 :: u8))"
    by (simp_all add: hex_digit_def ch_def)
  note exception_reported_and_continued [OF s(1) this, of 5]
  moreover have "load_short (put_bytes m 0x100 (be16 9)) 0x100 = Inr 9" for m
    by (rule load_store_short [of m]) (simp add: store_short_def)
  ultimately show ?thesis unfolding h by (simp add: s step_cleared_def set_pc_def Let_def)
qed

text \<open>
  C26: a system call of the program is sent to the host as one request packet, and returns the value
  of the host's F packet.
\<close>

theorem file_io_returns_host_value:
  assumes "0 < syscall" "syscall \<le> 5" "syscall = 1 \<longrightarrow> strl (mem w) arg1 = Some n"
    and "rx w = packet (ch CHR ''F'' # as) @ ch CHR ''+'' # rest" "list_all hex_digit as" "as \<noteq> []"
    and "length as + 3 \<le> length rxbuf" "gdb_sh2_stepped_opcode w = 0"
  shows "gdb_file_io syscall arg1 arg2 arg3 rxbuf w =
    Ret (hex_value as) (out (packet (fio_request syscall n arg1 arg2 arg3) @ ch CHR ''+'' # packet (chs ''OK'')) (w\<lparr>rx := rest\<rparr>))"
  using file_io_out [of syscall w arg1 n arg2 arg3 rxbuf] assms
    F_session [of "out (packet (fio_request syscall n arg1 arg2 arg3)) w" as rest rxbuf 0]
  by (simp add: gdb_monitor_def gdb_monitor_onentry_def)

theorem file_io_returns_host_value_witness:
  "gdb_file_io 4 1 0x2000 3 (replicate 200 0) (empty_world (packet (chs ''F3'') @ chs ''+'')) =
   Ret 3 (out (packet (fio_request 4 0 1 0x2000 3) @ chs ''+$OK#9a'') (empty_world []))"
proof -
  have h: "hex_value (chs ''3'') = 3" by (simp add: hex_value_def hex_to_int_def ch_def)
  have p: "ch CHR ''+'' # packet (chs ''OK'') = chs ''+$OK#9a''"
    by (simp add: packet_def lnibble_to_hex_def ch_def)
  show ?thesis
    using file_io_returns_host_value [of 4 "empty_world (packet (chs ''F3'') @ chs ''+'')" 1 0 "chs ''3''" "[]" "replicate 200 0" "0x2000" 3]
    unfolding h p by (simp add: empty_world_def hex_digit_def ch_def)
qed

end
