(* ===== verification/Sh2_Context.thy ===== *)
theory Sh2_Context
  imports Sh2_Stub
begin

text \<open>
  The exception assembly of src/testrom/sh2.c (and the vector table of entry.c): how the context of
  the interrupted program gets into \<open>register_file\<close> and back into the processor. The code is a list
  of instructions run by a small interpreter of the SH-2 instructions it uses. Every access is a
  32 bit one, so memory maps long-aligned addresses to words.

  The linker's address of \<open>register_file\<close> and the implemented bits of SR are parameters.
\<close>

section \<open>The instructions used\<close>

text \<open>
  Moves of constants from the literal pool and of immediates, immediate addition, register moves,
  loads (indirect, with displacement, with post-increment), stores (indirect, with displacement, with
  pre-decrement), sts.l and stc.l with pre-decrement, lds.l and ldc.l with post-increment, and ldc to SR.
\<close>

datatype spec_reg = PR_reg | GBR_reg | VBR_reg | MACH_reg | MACL_reg

datatype asm =
    Mov_const u32 nat
  | Mov_imm u8 nat
  | Add_imm u8 nat
  | Mov nat nat
  | Load nat nat
  | Load_disp u32 nat nat
  | Load_inc nat nat
  | Store nat nat
  | Store_disp nat u32 nat
  | Store_dec nat nat
  | Store_spec_dec spec_reg nat
  | Load_spec_inc nat spec_reg
  | Ldc_sr nat
  | Nop

record cpu =
  regs :: register_file_S
  lmem :: "u32 \<Rightarrow> u32"

definition get_r :: "cpu \<Rightarrow> nat \<Rightarrow> u32" where
  "get_r c n = r (regs c) ! n"

definition set_r :: "nat \<Rightarrow> u32 \<Rightarrow> cpu \<Rightarrow> cpu" where
  "set_r n v c = c\<lparr>regs := (regs c)\<lparr>r := (r (regs c))[n := v]\<rparr>\<rparr>"

fun get_spec :: "cpu \<Rightarrow> spec_reg \<Rightarrow> u32" where
  "get_spec c PR_reg = pr (regs c)"
| "get_spec c GBR_reg = gbr (regs c)"
| "get_spec c VBR_reg = vbr (regs c)"
| "get_spec c MACH_reg = mach (regs c)"
| "get_spec c MACL_reg = macl (regs c)"

fun set_spec :: "spec_reg \<Rightarrow> u32 \<Rightarrow> cpu \<Rightarrow> cpu" where
  "set_spec PR_reg v c = c\<lparr>regs := (regs c)\<lparr>pr := v\<rparr>\<rparr>"
| "set_spec GBR_reg v c = c\<lparr>regs := (regs c)\<lparr>gbr := v\<rparr>\<rparr>"
| "set_spec VBR_reg v c = c\<lparr>regs := (regs c)\<lparr>vbr := v\<rparr>\<rparr>"
| "set_spec MACH_reg v c = c\<lparr>regs := (regs c)\<lparr>mach := v\<rparr>\<rparr>"
| "set_spec MACL_reg v c = c\<lparr>regs := (regs c)\<lparr>macl := v\<rparr>\<rparr>"

definition lload :: "cpu \<Rightarrow> u32 \<Rightarrow> stop + u32" where
  "lload c a = (if a mod 4 \<noteq> 0 then Inl Address_Error else Inr (lmem c a))"

definition lstore :: "u32 \<Rightarrow> u32 \<Rightarrow> cpu \<Rightarrow> stop + cpu" where
  "lstore a v c = (if a mod 4 \<noteq> 0 then Inl Address_Error else Inr (c\<lparr>lmem := (lmem c)(a := v)\<rparr>))"

fun asm_step :: "u32 \<Rightarrow> asm \<Rightarrow> cpu \<Rightarrow> stop + cpu" where
  "asm_step sr_bits (Mov_const v n) c = Inr (set_r n v c)"
| "asm_step sr_bits (Mov_imm i n) c = Inr (set_r n (scast i) c)"
| "asm_step sr_bits (Add_imm i n) c = Inr (set_r n (get_r c n + scast i) c)"
| "asm_step sr_bits (Mov m n) c = Inr (set_r n (get_r c m) c)"
| "asm_step sr_bits (Load m n) c = sbind (lload c (get_r c m)) (\<lambda>v. Inr (set_r n v c))"
| "asm_step sr_bits (Load_disp d m n) c = sbind (lload c (get_r c m + d)) (\<lambda>v. Inr (set_r n v c))"
| "asm_step sr_bits (Load_inc m n) c =
     sbind (lload c (get_r c m)) (\<lambda>v. Inr (set_r n v (set_r m (get_r c m + 4) c)))"
| "asm_step sr_bits (Store m n) c = lstore (get_r c n) (get_r c m) c"
| "asm_step sr_bits (Store_disp m d n) c = lstore (get_r c n + d) (get_r c m) c"
| "asm_step sr_bits (Store_dec m n) c = lstore (get_r c n - 4) (get_r c m) (set_r n (get_r c n - 4) c)"
| "asm_step sr_bits (Store_spec_dec s n) c = lstore (get_r c n - 4) (get_spec c s) (set_r n (get_r c n - 4) c)"
| "asm_step sr_bits (Load_spec_inc m s) c =
     sbind (lload c (get_r c m)) (\<lambda>v. Inr (set_spec s v (set_r m (get_r c m + 4) c)))"
| "asm_step sr_bits (Ldc_sr m) c = Inr (c\<lparr>regs := (regs c)\<lparr>sr := get_r c m AND sr_bits\<rparr>\<rparr>)"
| "asm_step sr_bits Nop c = Inr c"

fun asm_run :: "u32 \<Rightarrow> asm list \<Rightarrow> cpu \<Rightarrow> stop + cpu" where
  "asm_run sr_bits [] c = Inr c"
| "asm_run sr_bits (i # is) c = sbind (asm_step sr_bits i c) (asm_run sr_bits is)"


definition rte :: "u32 \<Rightarrow> cpu \<Rightarrow> stop + cpu" where
  "rte sr_bits c =
     (let sp = get_r c 15 in
      sbind (lload c sp) (\<lambda>p. sbind (lload c (sp + 4)) (\<lambda>s.
        Inr (set_r 15 (sp + 8) (c\<lparr>regs := (regs c)\<lparr>pc := p, sr := s AND sr_bits\<rparr>\<rparr>)))))"

section \<open>The code\<close>


definition gdb_trapa32_isr :: "asm list" where
  "gdb_trapa32_isr =
     [Store_dec 0 15, Store_dec 1 15, Mov_imm 0xf0 0, Ldc_sr 0, Mov_imm 5 0, Store_dec 0 15,
      Load_disp 12 15 0, Add_imm 0xfe 0, Store_disp 0 12 15]"

definition signal_isr :: "u8 \<Rightarrow> asm list" where
  "signal_isr sig =
     [Store_dec 0 15, Mov_imm 0xf0 0, Ldc_sr 0, Store_dec 1 15, Mov_imm sig 0, Store_dec 0 15]"

definition gdb_trapa33_isr :: "asm list" where "gdb_trapa33_isr = signal_isr 5"
definition gdb_unhandled_isr :: "asm list" where "gdb_unhandled_isr = signal_isr 30"
definition gdb_nmi_isr :: "asm list" where "gdb_nmi_isr = signal_isr 2"
definition gdb_illegalinst_isr :: "asm list" where "gdb_illegalinst_isr = signal_isr 4"
definition gdb_addresserr_isr :: "asm list" where "gdb_addresserr_isr = signal_isr 11"

definition return_from_exception_code :: "u32 \<Rightarrow> asm list" where
  "return_from_exception_code rf =
     [Mov_const rf 0,
      Load_spec_inc 0 PR_reg, Load_spec_inc 0 GBR_reg, Load_spec_inc 0 VBR_reg,
      Load_spec_inc 0 MACH_reg, Load_spec_inc 0 MACL_reg,
      Add_imm 8 0,
      Load_inc 0 2, Load_inc 0 3, Load_inc 0 4, Load_inc 0 5, Load_inc 0 6, Load_inc 0 7, Load_inc 0 8,
      Load_inc 0 9, Load_inc 0 10, Load_inc 0 11, Load_inc 0 12, Load_inc 0 13, Load_inc 0 14, Load_inc 0 15,
      Load_disp 4 0 1, Store_dec 1 15,
      Load 0 1, Store_dec 1 15,
      Add_imm 0xc0 0,
      Load_disp 4 0 1, Load 0 0]"

definition return_from_exception :: "u32 \<Rightarrow> u32 \<Rightarrow> cpu \<Rightarrow> stop + cpu" where
  "return_from_exception sr_bits rf c = sbind (asm_run sr_bits (return_from_exception_code rf) c) (rte sr_bits)"

text \<open>Kill and detach: the stack pointer and the start address of the power-on vectors.\<close>

definition kill_code :: "asm list" where
  "kill_code = [Mov_imm 4 15, Load 15 15, Mov_imm 0 0, Load 0 0]"

definition kill_detach :: "u32 \<Rightarrow> cpu \<Rightarrow> stop + cpu" where
  "kill_detach sr_bits c =
     sbind (asm_run sr_bits kill_code c) (\<lambda>c1. Inr (c1\<lparr>regs := (regs c1)\<lparr>pc := get_r c1 0\<rparr>\<rparr>))"




section \<open>Addresses\<close>

lemma aligned_add:
  assumes "(a :: u32) mod 4 = 0" "k mod 4 = 0"
  shows "(a + k) mod 4 = 0"
proof -
  have w: "x mod 4 = 0 \<longleftrightarrow> unat x mod 4 = 0" for x :: u32
  proof -
    have "unat (x mod 4) = unat x mod 4" by (simp add: unat_mod_distrib)
    then show ?thesis by (simp only: unsigned_eq_0_iff [symmetric, of "x mod 4", where ?'a = nat])
  qed
  have "unat (a + k) mod 4 = (unat a + unat k) mod 4"
    by (simp add: unat_word_ariths mod_mod_cancel)
  then show ?thesis using assms unfolding w by (simp add: mod_add_eq [symmetric])
qed

lemma aligned_add2: "(a :: u32) mod 4 = 0 \<Longrightarrow> k mod 4 = 0 \<Longrightarrow> (k + a) mod 4 = 0"
  using aligned_add [of a k] by (simp add: add.commute)

definition rf_words :: "(u32 \<Rightarrow> u32) \<Rightarrow> u32 \<Rightarrow> register_file_S" where
  "rf_words m rf = \<lparr>pr = m rf, gbr = m (rf + 4), vbr = m (rf + 8), mach = m (rf + 12), macl = m (rf + 16),
     r = map m [rf + 20, rf + 24, rf + 28, rf + 32, rf + 36, rf + 40, rf + 44, rf + 48, rf + 52, rf + 56,
       rf + 60, rf + 64, rf + 68, rf + 72, rf + 76, rf + 80], pc = m (rf + 84), sr = m (rf + 88)\<rparr>"

lemma sixteen:
  assumes "length xs = 16"
  obtains a b c d e f g h i j k l m n p q where "xs = [a, b, c, d, e, f, g, h, i, j, k, l, m, n, p, q]"
  using assms that by (auto simp: eval_nat_numeral length_Suc_conv)

lemmas asm_defs = get_r_def set_r_def lload_def lstore_def

text \<open>A frame of 20 bytes at \<open>b\<close> does not overlap the 92 bytes of \<open>register_file\<close> at \<open>rf\<close>.\<close>

definition frame_apart :: "u32 \<Rightarrow> u32 \<Rightarrow> bool" where
  "frame_apart rf b \<longleftrightarrow> list_all (\<lambda>k. b - rf + 16 \<noteq> 4 * of_nat k) [0..<27]"





section \<open>Restoring\<close>

lemma return_run:
  assumes al: "rf mod 4 = 0" "(rf + d) mod 4 = 0" and apart: "frame_apart rf (rf + d)"
    and rf: "rf_words m rf = \<lparr>pr = vpr, gbr = vgbr, vbr = vvbr, mach = vmach, macl = vmacl,
         r = [x0, x1, x2, x3, x4, x5, x6, x7, x8, x9, x10, x11, x12, x13, x14, rf + d + 20], pc = p, sr = s\<rparr>"
    and len: "length rs = 16"
  shows "\<exists>m'. return_from_exception sr_bits rf
      \<lparr>regs = \<lparr>pr = y1, gbr = y2, vbr = y3, mach = y4, macl = y5, r = rs, pc = y6, sr = y7\<rparr>, lmem = m\<rparr> =
    Inr \<lparr>regs = \<lparr>pr = vpr, gbr = vgbr, vbr = vvbr, mach = vmach, macl = vmacl,
         r = [x0, x1, x2, x3, x4, x5, x6, x7, x8, x9, x10, x11, x12, x13, x14, rf + d + 20], pc = p, sr = s AND sr_bits\<rparr>, lmem = m'\<rparr> \<and>
    (\<forall>a. a \<noteq> rf + d + 12 \<and> a \<noteq> rf + d + 16 \<longrightarrow> m' a = m a)"
proof -
  have n: "d + 16 \<noteq> 0" "d + 12 \<noteq> 0" "d + 8 \<noteq> 0" "d + 4 \<noteq> 0" "d \<noteq> 0" "d \<noteq> 4" "d \<noteq> 8" "d \<noteq> 12" "d \<noteq> 16"
    "d \<noteq> 20" "d \<noteq> 24" "d \<noteq> 28" "d \<noteq> 32" "d \<noteq> 36" "d \<noteq> 40" "d \<noteq> 44" "d \<noteq> 48" "d \<noteq> 52" "d \<noteq> 56" "d \<noteq> 60"
    "d \<noteq> 64" "d \<noteq> 68" "d \<noteq> 72" "d \<noteq> 76" "d \<noteq> 80" "d \<noteq> 84" "d \<noteq> 88"
    using apart by (auto simp: frame_apart_def upt_rec add.commute)
  have rf2: "m (4 + rf) = vgbr" "m (8 + rf) = vvbr" "m (12 + rf) = vmach" "m (16 + rf) = vmacl"
    "m (20 + rf) = x0" "m (24 + rf) = x1" "m (28 + rf) = x2" "m (32 + rf) = x3" "m (36 + rf) = x4"
    "m (40 + rf) = x5" "m (44 + rf) = x6" "m (48 + rf) = x7" "m (52 + rf) = x8" "m (56 + rf) = x9"
    "m (60 + rf) = x10" "m (64 + rf) = x11" "m (68 + rf) = x12" "m (72 + rf) = x13" "m (76 + rf) = x14"
    "m (80 + rf) = rf + d + 20" "m (84 + rf) = p" "m (88 + rf) = s"
    using rf by (simp_all add: rf_words_def add.commute)
  obtain r0 r1 r2 r3 r4 r5 r6 r7 r8 r9 r10 r11 r12 r13 r14 r15
    where rs: "rs = [r0, r1, r2, r3, r4, r5, r6, r7, r8, r9, r10, r11, r12, r13, r14, r15]"
    using len by (rule sixteen)
  show ?thesis
    using al rf rf2 n
    by (simp add: rs return_from_exception_def return_from_exception_code_def rte_def asm_defs aligned_add aligned_add2
        rf_words_def Let_def)
qed

section \<open>The vector table (entry.c)\<close>

datatype vector = Start | Stack_Top | Illegal_Inst | Unhandled | Address_Err | Nmi | Trapa32 | Trapa33 | Trapa34

definition vector_table :: "vector list" where
  "vector_table =
     [Start, Stack_Top, Start, Stack_Top, Illegal_Inst, Unhandled, Illegal_Inst, Unhandled, Unhandled,
      Address_Err, Address_Err, Nmi, Unhandled, Unhandled, Unhandled, Unhandled] @
     replicate 9 Unhandled @ replicate 7 Unhandled @ [Trapa32, Trapa33, Trapa34] @ replicate 29 Unhandled"

definition vector_code :: "vector \<Rightarrow> asm list option" where
  "vector_code v =
     (case v of Illegal_Inst \<Rightarrow> Some gdb_illegalinst_isr | Unhandled \<Rightarrow> Some gdb_unhandled_isr
      | Address_Err \<Rightarrow> Some gdb_addresserr_isr | Nmi \<Rightarrow> Some gdb_nmi_isr
      | Trapa32 \<Rightarrow> Some gdb_trapa32_isr | Trapa33 \<Rightarrow> Some gdb_trapa33_isr | _ \<Rightarrow> None)"

section \<open>Saving a whole context\<close>

text \<open>The handlers that reach the monitor, with their signal and how far they move the PC back.\<close>

definition handler :: "asm list \<Rightarrow> u32 \<Rightarrow> u32 \<Rightarrow> bool" where
  "handler isr sig back \<longleftrightarrow>
     (isr, sig, back) \<in> {(gdb_trapa32_isr, 5, 2), (gdb_trapa33_isr, 5, 0), (gdb_unhandled_isr, 30, 0),
       (gdb_nmi_isr, 2, 0), (gdb_illegalinst_isr, 4, 0), (gdb_addresserr_isr, 11, 0)}"



lemma rf_cases:
  assumes "rf_wf ctx"
  obtains vpr vgbr vvbr vmach vmacl x0 x1 x2 x3 x4 x5 x6 x7 x8 x9 x10 x11 x12 x13 x14 b p s
  where "ctx = \<lparr>pr = vpr, gbr = vgbr, vbr = vvbr, mach = vmach, macl = vmacl,
     r = [x0, x1, x2, x3, x4, x5, x6, x7, x8, x9, x10, x11, x12, x13, x14, b + 20], pc = p, sr = s\<rparr>"
proof -
  obtain x0 x1 x2 x3 x4 x5 x6 x7 x8 x9 x10 x11 x12 x13 x14 x15
    where "r ctx = [x0, x1, x2, x3, x4, x5, x6, x7, x8, x9, x10, x11, x12, x13, x14, x15]"
    using assms unfolding rf_wf_def by (rule sixteen)
  moreover have "x15 = x15 - 20 + 20" by simp
  ultimately show ?thesis
    by (intro that [of "pr ctx" "gbr ctx" "vbr ctx" "mach ctx" "macl ctx"
          x0 x1 x2 x3 x4 x5 x6 x7 x8 x9 x10 x11 x12 x13 x14 "x15 - 20" "pc ctx" "sr ctx"]) simp
qed


lemma context_restored:
  assumes "rf_words (lmem c) rf = ctx" "rf_wf ctx" "rf_wf (regs c)" "rf mod 4 = 0" "r ctx ! 15 mod 4 = 0"
    and "frame_apart rf (r ctx ! 15 - 20)" "sr ctx AND sr_bits = sr ctx"
  shows "\<exists>m'. return_from_exception sr_bits rf c = Inr \<lparr>regs = ctx, lmem = m'\<rparr> \<and>
    (\<forall>a. a \<noteq> r ctx ! 15 - 8 \<and> a \<noteq> r ctx ! 15 - 4 \<longrightarrow> m' a = lmem c a)"
proof -
  obtain vpr vgbr vvbr vmach vmacl x0 x1 x2 x3 x4 x5 x6 x7 x8 x9 x10 x11 x12 x13 x14 b p s
    where k: "ctx = \<lparr>pr = vpr, gbr = vgbr, vbr = vvbr, mach = vmach, macl = vmacl,
      r = [x0, x1, x2, x3, x4, x5, x6, x7, x8, x9, x10, x11, x12, x13, x14, b + 20], pc = p, sr = s\<rparr>"
    using assms(2) by (rule rf_cases)
  define d where "d = b - rf"
  have b: "b = rf + d" by (simp add: d_def)
  note ctx = k [unfolded b]
  have al: "(rf + d) mod 4 = 0" using aligned_add [of "rf + d + 20" "- 20"] assms(5) by (simp add: ctx)
  have ap: "frame_apart rf (rf + d)" using assms(6) by (simp add: ctx)
  have c: "c = \<lparr>regs = \<lparr>pr = pr (regs c), gbr = gbr (regs c), vbr = vbr (regs c), mach = mach (regs c),
      macl = macl (regs c), r = r (regs c), pc = pc (regs c), sr = sr (regs c)\<rparr>, lmem = lmem c\<rparr>" by simp
  have len: "length (r (regs c)) = 16" using assms(3) by (simp add: rf_wf_def)
  have "s AND sr_bits = s" using assms(7) by (simp add: ctx)
  moreover obtain m' where "return_from_exception sr_bits rf c =
      Inr \<lparr>regs = \<lparr>pr = vpr, gbr = vgbr, vbr = vvbr, mach = vmach, macl = vmacl,
         r = [x0, x1, x2, x3, x4, x5, x6, x7, x8, x9, x10, x11, x12, x13, x14, rf + d + 20], pc = p, sr = s AND sr_bits\<rparr>, lmem = m'\<rparr>"
    "\<forall>a. a \<noteq> rf + d + 12 \<and> a \<noteq> rf + d + 16 \<longrightarrow> m' a = lmem c a"
    using return_run [OF assms(4) al ap assms(1) [unfolded ctx] len] c by metis
  ultimately show ?thesis by (auto simp: ctx algebra_simps)
qed


text \<open>The trap that a step plants leads to the handler that backs the PC up to the planted trap.\<close>

lemma step_trap_handler:
  "transfer_of STEP_OPCODE = Trap 32 \<and> vector_code (vector_table ! 32) = Some gdb_trapa32_isr \<and> handler gdb_trapa32_isr 5 2"
  by (simp add: STEP_OPCODE_def transfer_of_def Let_def vector_table_def vector_code_def handler_def nth_append)

section \<open>Handlers that call a C routine\<close>


lemma set_get_r [simp]:
  "n < length (r (regs c)) \<Longrightarrow> get_r (set_r n v c) m = (if m = n then v else get_r c m)"
  by (simp add: get_r_def set_r_def)

lemma set_r_frame [simp]:
  "lmem (set_r n v c) = lmem c" "pc (regs (set_r n v c)) = pc (regs c)" "sr (regs (set_r n v c)) = sr (regs c)"
  "pr (regs (set_r n v c)) = pr (regs c)" "gbr (regs (set_r n v c)) = gbr (regs c)" "vbr (regs (set_r n v c)) = vbr (regs c)"
  "length (r (regs (set_r n v c))) = length (r (regs c))"
  by (simp_all add: set_r_def)



section \<open>Properties\<close>

definition sample_cpu :: cpu where
  "sample_cpu = \<lparr>regs = \<lparr>pr = 1, gbr = 2, vbr = 0, mach = 3, macl = 4, r = replicate 15 9 @ [0x2000], pc = 0x800, sr = 0xf1\<rparr>,
     lmem = (\<lambda>_. 0)\<rparr>"



text \<open>
  C20: what the monitor left in \<open>register_file\<close> is what the program resumes with: whatever the
  processor holds, \<open>gdb_return_from_exception\<close> loads every register from it, and writes only the two
  words below the program's stack pointer.
\<close>

theorem resume_loads_register_file:
  assumes "rf_words (lmem c) rf = ctx" "rf_wf ctx" "rf_wf (regs c)" "rf mod 4 = 0" "r ctx ! 15 mod 4 = 0"
    and "frame_apart rf (r ctx ! 15 - 20)" "sr ctx AND sr_bits = sr ctx"
  shows "\<exists>m'. return_from_exception sr_bits rf c = Inr \<lparr>regs = ctx, lmem = m'\<rparr> \<and>
    (\<forall>a. a \<noteq> r ctx ! 15 - 8 \<and> a \<noteq> r ctx ! 15 - 4 \<longrightarrow> m' a = lmem c a)"
  using assms by (rule context_restored)

theorem resume_loads_register_file_witness:
  "\<exists>m'. return_from_exception 0x3f3 0x100 (sample_cpu\<lparr>lmem := (\<lambda>a. if a = 0x150 then 0x2000 else if a = 0x158 then 0xf1 else 7)\<rparr>) =
     Inr \<lparr>regs = \<lparr>pr = 7, gbr = 7, vbr = 7, mach = 7, macl = 7, r = [7, 7, 7, 7, 7, 7, 7, 7, 7, 7, 7, 7, 7, 7, 7, 0x2000], pc = 7, sr = 0xf1\<rparr>, lmem = m'\<rparr>"
proof -
  let ?c = "sample_cpu\<lparr>lmem := (\<lambda>a. if a = 0x150 then 0x2000 else if a = 0x158 then 0xf1 else 7)\<rparr>"
  let ?x = "\<lparr>pr = 7, gbr = 7, vbr = 7, mach = 7, macl = 7, r = [7, 7, 7, 7, 7, 7, 7, 7, 7, 7, 7, 7, 7, 7, 7, 0x2000], pc = 7, sr = 0xf1\<rparr>"
  have a: "rf_words (lmem ?c) 0x100 = ?x" "rf_wf ?x" "rf_wf (regs ?c)" "(0x100 :: u32) mod 4 = 0" "r ?x ! 15 mod 4 = 0"
    "frame_apart 0x100 (r ?x ! 15 - 20)" "sr ?x AND 0x3f3 = sr ?x"
    by (simp_all add: rf_words_def sample_cpu_def rf_wf_def nth_append frame_apart_def upt_rec)
  show ?thesis using resume_loads_register_file [OF a] by blast
qed

end
