(* ===== verification/Delays.thy ===== *)
theory Delays
  imports C_String
begin

text \<open>
  The access delays of the simulated bus (src/sim/delays.c): a rule file names address masks or
  ranges with the delays of raising and dropping the acknowledge, and a lookup takes the first rule
  that covers an address. A file is its contents; allocation succeeds.
\<close>

section \<open>Rules\<close>

datatype delay_info = DELAY_MASK u32 u32 | DELAY_RANGE u32 u32

record delay =
  info :: delay_info
  rd_delay :: u32
  rd_drop_delay :: u32
  wr_delay :: u32
  wr_drop_delay :: u32

record delay_set =
  delays :: "delay list"

section \<open>Reading a rule file\<close>

lemma length_tl_dropWhile: "l \<noteq> [] \<Longrightarrow> length (tl (dropWhile P l)) < length l"
  using length_dropWhile_le [of P l] by (cases l) auto

text \<open>The words of a line, \<open>None\<close> when there are more than six; \<open>num\<close> counts those before.\<close>

function split_line :: "nat \<Rightarrow> string \<Rightarrow> string list option" where
  "split_line num l =
     (if l = [] then Some []
      else if c_isspace (hd l) then split_line num (tl l)
      else if num = 6 then None
      else map_option (Cons (takeWhile (\<lambda>c. \<not> c_isspace c) l))
             (split_line (num + 1) (tl (dropWhile (\<lambda>c. \<not> c_isspace c) l))))"
  by auto
termination
proof (relation "measure (length \<circ> snd)")
  fix num :: nat and l :: string assume "l \<noteq> []"
  then show "((num + 1, tl (dropWhile (\<lambda>c. \<not> c_isspace c) l)), num, l) \<in> measure (length \<circ> snd)"
    by (simp only: in_measure comp_apply snd_conv length_tl_dropWhile not_False_eq_True)
qed simp_all

declare split_line.simps [simp del]

definition parse_delay :: "string \<Rightarrow> u32 option" where
  "parse_delay s =
     (let (v, rest) = strtol s 10 in if rest \<noteq> [] \<or> v \<le> 0 then None else Some (of_int v))"

text \<open>One address in base 16, followed by the character \<open>stop\<close> or by the end of the word.\<close>

definition parse_addr :: "string \<Rightarrow> char option \<Rightarrow> (u32 \<times> string) option" where
  "parse_addr s stop =
     (let (v, rest) = strtol s 16 in
      if (case stop of None \<Rightarrow> rest \<noteq> [] | Some c \<Rightarrow> rest = [] \<or> hd rest \<noteq> c) \<or> v < 0 \<or> v \<ge> 0xFFFFFFFF
      then None else Some (of_int v, rest))"

definition parse_range :: "string \<Rightarrow> delay_info option" where
  "parse_range s =
     (case parse_addr s (Some CHR ''-'') of None \<Rightarrow> None
      | Some (a, rest) \<Rightarrow>
          (case parse_addr (tl rest) None of None \<Rightarrow> None | Some (b, _) \<Rightarrow> Some (DELAY_RANGE a b)))"

definition parse_mask :: "string \<Rightarrow> string \<Rightarrow> delay_info option" where
  "parse_mask s t =
     (case parse_addr s None of None \<Rightarrow> None
      | Some (m, _) \<Rightarrow>
          (case parse_addr t None of None \<Rightarrow> None | Some (v, _) \<Rightarrow> Some (DELAY_MASK m (v AND m))))"

definition parse_delays :: "delay_info \<Rightarrow> string list \<Rightarrow> delay option" where
  "parse_delays i parts =
     (let num = length parts in
      case parse_delay (parts ! (num - 2)) of None \<Rightarrow> None
      | Some w \<Rightarrow>
     (case parse_delay (parts ! (num - 1)) of None \<Rightarrow> None
      | Some wd \<Rightarrow>
     (if num \<ge> 5 then
        (case parse_delay (parts ! (num - 4)) of None \<Rightarrow> None
         | Some rd \<Rightarrow>
        (case parse_delay (parts ! (num - 3)) of None \<Rightarrow> None
         | Some rdd \<Rightarrow>
           Some \<lparr>info = i, rd_delay = rd, rd_drop_delay = rdd, wr_delay = w, wr_drop_delay = wd\<rparr>))
      else Some \<lparr>info = i, rd_delay = w, rd_drop_delay = wd, wr_delay = w, wr_drop_delay = wd\<rparr>)))"

definition chop_comment :: "string \<Rightarrow> string" where
  "chop_comment line = takeWhile (\<lambda>c. c \<notin> {CHR '';'', CHR ''#'', CHR 0x00}) line"

definition parse_cfg_line :: "delay_set \<Rightarrow> string \<Rightarrow> int \<times> delay_set" where
  "parse_cfg_line ds line =
     (case split_line 0 (chop_comment line) of None \<Rightarrow> (- 1, ds)
      | Some parts \<Rightarrow>
          if parts = [] then (0, ds)
          else if length parts < 3 \<or> length parts > 6 then (- 1, ds)
          else
            (case (if odd (length parts) then parse_range (parts ! 0) else parse_mask (parts ! 0) (parts ! 1)) of
               None \<Rightarrow> (- 1, ds)
             | Some i \<Rightarrow>
                 (case parse_delays i parts of None \<Rightarrow> (- 1, ds)
                  | Some d \<Rightarrow> (0, ds\<lparr>delays := ll_append (delays ds) d\<rparr>))))"

function cfg_lines :: "delay_set \<Rightarrow> string \<Rightarrow> int \<times> delay_set" where
  "cfg_lines ds f =
     (case fgets 1024 f of None \<Rightarrow> (0, ds)
      | Some lr \<Rightarrow>
          if fst (parse_cfg_line ds (fst lr)) \<noteq> 0 then parse_cfg_line ds (fst lr)
          else cfg_lines (snd (parse_cfg_line ds (fst lr))) (snd lr))"
  by auto
termination
  by (relation "measure (length \<circ> snd)") (auto intro: fgets_shorter)

declare cfg_lines.simps [simp del]

text \<open>\<open>fopen\<close> gives the contents of a file that can be opened.\<close>

definition delays_init_cfg :: "(string \<Rightarrow> string option) \<Rightarrow> string option \<Rightarrow> int \<times> delay_set" where
  "delays_init_cfg fopen filename =
     (let ds = \<lparr>delays = []\<rparr> in
      case filename of None \<Rightarrow> (0, ds)
      | Some n \<Rightarrow> (case fopen n of None \<Rightarrow> (- 1, ds) | Some f \<Rightarrow> cfg_lines ds f))"

definition delays_free :: "delay_set \<Rightarrow> int \<times> delay_set" where
  "delays_free ds = (0, ds\<lparr>delays := []\<rparr>)"

section \<open>Looking up an address\<close>

definition check_addr :: "delay \<Rightarrow> u32 \<Rightarrow> int" where
  "check_addr d addr =
     (case info d of
        DELAY_MASK m v \<Rightarrow> if m AND addr = v then 0 else - 1
      | DELAY_RANGE a b \<Rightarrow> if a \<le> addr \<and> addr \<le> b then 0 else - 1)"

fun lookup_from :: "delay list \<Rightarrow> u32 \<Rightarrow> bool \<Rightarrow> (u32 \<times> u32) option" where
  "lookup_from [] addr is_read = None"
| "lookup_from (d # ds) addr is_read =
     (if check_addr d addr = 0
      then Some (if is_read then (rd_delay d, rd_drop_delay d) else (wr_delay d, wr_drop_delay d))
      else lookup_from ds addr is_read)"

text \<open>\<open>None\<close> is the result -1, where the caller's variables stay as they were.\<close>

definition delays_lookup :: "delay_set \<Rightarrow> u32 \<Rightarrow> bool \<Rightarrow> (u32 \<times> u32) option" where
  "delays_lookup ds addr is_read = lookup_from (delays ds) addr is_read"

section \<open>Printing rules\<close>

text \<open>The format that delays.cfg documents, with both read and write delays.\<close>

definition rule_words :: "delay \<Rightarrow> string list" where
  "rule_words d =
     (case info d of
        DELAY_MASK m v \<Rightarrow> [hex_string (unat m), hex_string (unat v)]
      | DELAY_RANGE a b \<Rightarrow> [hex_string (unat a) @ CHR ''-'' # hex_string (unat b)]) @
     map (\<lambda>v. dec_string (unat v)) [rd_delay d, rd_drop_delay d, wr_delay d, wr_drop_delay d]"

fun print_words :: "string list \<Rightarrow> string" where
  "print_words [] = [CHR 0x0A]"
| "print_words (w # ws) = w @ (if ws = [] then [CHR 0x0A] else CHR '' '' # print_words ws)"

definition print_rule :: "delay \<Rightarrow> string" where
  "print_rule d = print_words (rule_words d)"

text \<open>What can be written in a rule file: an address FFFFFFFF and a zero delay cannot.\<close>

fun info_wf :: "delay_info \<Rightarrow> bool" where
  "info_wf (DELAY_MASK m v) \<longleftrightarrow> m \<noteq> 0xFFFFFFFF \<and> v AND m = v"
| "info_wf (DELAY_RANGE a b) \<longleftrightarrow> a \<noteq> 0xFFFFFFFF \<and> b \<noteq> 0xFFFFFFFF"

definition rule_wf :: "delay \<Rightarrow> bool" where
  "rule_wf d \<longleftrightarrow> info_wf (info d) \<and> rd_delay d \<noteq> 0 \<and> rd_drop_delay d \<noteq> 0 \<and> wr_delay d \<noteq> 0 \<and> wr_drop_delay d \<noteq> 0"

section \<open>Parsing what was printed\<close>

lemma u32_bound: "unat (v :: u32) < 2 ^ 32"
  using unsigned_less [of v] by simp

lemma u32_uint_bound: "uint (v :: u32) < 2 ^ 32"
  using unsigned_less [of v] by simp

lemma hex_string_length: "n < 16 ^ Suc k \<Longrightarrow> length (hex_string n) \<le> Suc k"
proof (induction k arbitrary: n)
  case (Suc k)
  then have "n div 16 < 16 ^ Suc k" by auto
  from Suc.IH [OF this] show ?case by (subst hex_string.simps) auto
qed (subst hex_string.simps, simp)

text \<open>The characters of numbers and ranges: no separator and no comment mark.\<close>

definition plain :: "char \<Rightarrow> bool" where
  "plain c \<longleftrightarrow> \<not> c_isspace c \<and> c \<notin> {CHR 0x0A, CHR '';'', CHR ''#'', CHR 0x00}"

lemma plain_hex: "c \<in> set (hex_string n) \<Longrightarrow> plain c"
  using hex_string_digits [of n] digit_not_sign [of c] by (auto simp: plain_def)

lemma plain_dec: "c \<in> set (dec_string n) \<Longrightarrow> plain c"
  using dec_string_digits [of n] digit_value_dec [of c] digit_not_sign [of c] by (auto simp: plain_def)

lemma hex_length8: "length (hex_string (unat (v :: u32))) \<le> 8"
  using hex_string_length [of "unat v" 7] u32_bound [of v] by simp

lemma dec_length10: "length (dec_string (unat (v :: u32))) \<le> 10"
  using dec_string_length [of "unat v" 9] u32_bound [of v] by simp

lemma rule_words_plain: "w \<in> set (rule_words d) \<Longrightarrow> w \<noteq> [] \<and> (\<forall>c\<in>set w. plain c) \<and> length w \<le> 17"
proof -
  have m: "plain CHR ''-''" by (simp add: plain_def c_isspace_def)
  have le: "length (hex_string (unat (v :: u32))) \<le> 17" "length (dec_string (unat v)) \<le> 17" for v
    using hex_length8 [of v] dec_length10 [of v] by simp_all
  have lr: "length (hex_string (unat (a :: u32))) + length (hex_string (unat (b :: u32))) \<le> 16" for a b
    using hex_length8 [of a] hex_length8 [of b] by simp
  show "w \<in> set (rule_words d) \<Longrightarrow> w \<noteq> [] \<and> (\<forall>c\<in>set w. plain c) \<and> length w \<le> 17"
    by (auto simp: rule_words_def le lr m hex_string_ne dec_string_ne intro: plain_hex plain_dec split: delay_info.splits)
qed

lemma rule_words_number: "length (rule_words d) \<in> {5, 6}"
  by (simp add: rule_words_def split: delay_info.split)

lemma print_words_length: "(\<And>w. w \<in> set ws \<Longrightarrow> length w \<le> 17) \<Longrightarrow> length (print_words ws) \<le> 18 * length ws + 1"
proof (induction ws)
  case (Cons w ws)
  then have "length w \<le> 17" "length (print_words ws) \<le> 18 * length ws + 1" by auto
  then show ?case by (auto split: if_splits)
qed simp

lemma print_words_ends: "\<exists>b. print_words ws = b @ [CHR 0x0A] \<and> set b \<subseteq> {CHR '' ''} \<union> \<Union> (set ` set ws)"
proof (induction ws)
  case (Cons w ws)
  then obtain b where b: "print_words ws = b @ [CHR 0x0A]" "set b \<subseteq> {CHR '' ''} \<union> \<Union> (set ` set ws)" by blast
  show ?case
  proof (cases "ws = []")
    case False
    then show ?thesis using b by (intro exI [of _ "w @ CHR '' '' # b"]) auto
  qed (auto intro: exI [of _ w])
qed simp

lemma split_line_word:
  assumes "w \<noteq> []" "\<forall>c\<in>set w. \<not> c_isspace c" "c_isspace c" "num \<noteq> 6"
  shows "split_line num (w @ c # rest) = map_option (Cons w) (split_line (num + 1) rest)"
proof -
  have "takeWhile (\<lambda>c. \<not> c_isspace c) (w @ c # rest) = w" "dropWhile (\<lambda>c. \<not> c_isspace c) (w @ c # rest) = c # rest"
    using assms(2,3) by (auto simp: takeWhile_append2 dropWhile_append2)
  then show ?thesis using assms by (subst split_line.simps) (auto simp: neq_Nil_conv)
qed

lemma split_line_print:
  "(\<And>w. w \<in> set ws \<Longrightarrow> w \<noteq> [] \<and> (\<forall>c\<in>set w. \<not> c_isspace c)) \<Longrightarrow> num + length ws \<le> 6 \<Longrightarrow>
   split_line num (print_words ws) = Some ws"
proof (induction ws arbitrary: num)
  case Nil
  then show ?case by (simp add: split_line.simps c_isspace_def)
next
  case (Cons w ws)
  then have "w \<noteq> []" "\<forall>c\<in>set w. \<not> c_isspace c" "num \<noteq> 6" by auto
  note 1 = split_line_word [OF this(1,2) _ this(3)]
  have "split_line (num + 1) (print_words ws) = Some ws" using Cons.prems by (intro Cons.IH) auto
  then show ?case
    using 1 [of "CHR 0x0A" "[]"] 1 [of "CHR '' ''" "print_words ws"]
    by (auto simp: c_isspace_def split_line.simps [of _ "[]"])
qed

lemma chop_comment_plain: "(\<And>c. c \<in> set l \<Longrightarrow> plain c \<or> c_isspace c) \<Longrightarrow> chop_comment l = l"
  unfolding chop_comment_def by (rule takeWhile_eq_all_conv [THEN iffD2]) (force simp: plain_def c_isspace_def)

lemma split_rule: "split_line 0 (chop_comment (print_rule d)) = Some (rule_words d)"
proof -
  obtain b where b: "print_rule d = b @ [CHR 0x0A]" "set b \<subseteq> {CHR '' ''} \<union> \<Union> (set ` set (rule_words d))"
    using print_words_ends unfolding print_rule_def by blast
  have "chop_comment (print_rule d) = print_rule d"
    using b rule_words_plain [of _ d] by (intro chop_comment_plain) (auto simp: c_isspace_def)
  moreover have "split_line 0 (print_words (rule_words d)) = Some (rule_words d)"
    using rule_words_plain [of _ d] rule_words_number [of d] by (intro split_line_print) (auto simp: plain_def)
  ultimately show ?thesis by (simp add: print_rule_def)
qed

lemma fgets_rule: "fgets 1024 (print_rule d @ rest) = Some (print_rule d, rest)"
proof -
  obtain b where b: "print_rule d = b @ [CHR 0x0A]" "set b \<subseteq> {CHR '' ''} \<union> \<Union> (set ` set (rule_words d))"
    using print_words_ends unfolding print_rule_def by blast
  have "\<forall>c\<in>set b. c \<noteq> CHR 0x0A" using b(2) rule_words_plain [of _ d] by (auto simp: plain_def)
  then have "takeWhile (\<lambda>c. c \<noteq> CHR 0x0A) (print_rule d @ rest) = b"
    by (simp add: b(1) takeWhile_append2)
  moreover have "length (print_rule d) \<le> 18 * 6 + 1"
    using print_words_length [of "rule_words d"] rule_words_plain [of _ d] rule_words_number [of d]
    by (force simp: print_rule_def)
  ultimately show ?thesis by (auto simp: fgets_def b(1))
qed

lemma strtol_hex:
  assumes "rest = [] \<or> hd rest = CHR ''-''"
  shows "strtol (hex_string (unat (v :: u32)) @ rest) 16 = (int (unat v), rest)"
proof -
  have "int (base_value 16 (hex_string (unat v))) < 2 ^ 63"
    using u32_uint_bound [of v] by (simp add: base_value_hex_string)
  then show ?thesis
    using strtol_digits [of "hex_string (unat v)" 16 rest] assms hex_string_digits [of "unat v"]
    by (auto simp: hex_string_ne base_value_hex_string digit_value_def)
qed

lemma parse_addr_hex:
  assumes "v \<noteq> (0xFFFFFFFF :: u32)"
  shows "parse_addr (hex_string (unat v)) None = Some (v, [])"
    "parse_addr (hex_string (unat v) @ CHR ''-'' # rest) (Some CHR ''-'') = Some (v, CHR ''-'' # rest)"
proof -
  have "uint v \<noteq> uint (0xFFFFFFFF :: u32)" using assms by (simp only: word_uint_eq_iff [symmetric] not_False_eq_True)
  then have "uint v < 0xFFFFFFFF" using u32_uint_bound [of v] by simp
  then show "parse_addr (hex_string (unat v)) None = Some (v, [])"
    "parse_addr (hex_string (unat v) @ CHR ''-'' # rest) (Some CHR ''-'') = Some (v, CHR ''-'' # rest)"
    using strtol_hex [of "[]" v] strtol_hex [of "CHR ''-'' # rest" v] by (simp_all add: parse_addr_def)
qed

lemma parse_delay_dec:
  assumes "v \<noteq> (0 :: u32)"
  shows "parse_delay (dec_string (unat v)) = Some v"
proof -
  have "int (base_value 10 (dec_string (unat v))) < 2 ^ 63" using u32_uint_bound [of v] by (simp add: base_value_dec_string)
  moreover have "\<forall>c\<in>set (dec_string (unat v)). digit_value c < 10"
    using dec_string_digits [of "unat v"] digit_value_dec by blast
  ultimately have "strtol (dec_string (unat v)) 10 = (int (unat v), [])"
    using strtol_digits [of "dec_string (unat v)" 10 "[]"] by (simp add: base_value_dec_string dec_string_ne)
  moreover have "uint v \<noteq> 0" using assms by (simp add: unsigned_eq_0_iff)
  ultimately show ?thesis by (simp add: parse_delay_def)
qed

lemma parse_rule:
  assumes "rule_wf d"
  shows "parse_cfg_line ds (print_rule d) = (0, ds\<lparr>delays := delays ds @ [d]\<rparr>)"
proof -
  note ok = assms [unfolded rule_wf_def]
  have mv: "v \<noteq> 0xFFFFFFFF" if "info d = DELAY_MASK m v" for m v
  proof
    assume "v = 0xFFFFFFFF"
    then have v: "v = - 1" by simp
    then have "m = 0xFFFFFFFF" using ok that by simp
    then show False using ok that by simp
  qed
  show ?thesis
    using ok mv unfolding parse_cfg_line_def split_rule
    by (cases "info d")
      (auto simp: rule_words_def parse_delays_def parse_delay_dec parse_range_def parse_mask_def parse_addr_hex ll_append_def
        Let_def nth_append)
qed

lemma cfg_rules:
  "(\<And>d. d \<in> set rules \<Longrightarrow> rule_wf d) \<Longrightarrow>
   cfg_lines ds (concat (map print_rule rules)) = (0, ds\<lparr>delays := delays ds @ rules\<rparr>)"
proof (induction rules arbitrary: ds)
  case Nil
  then show ?case by (simp add: cfg_lines.simps [of _ "[]"] fgets_def)
next
  case (Cons d rules)
  then show ?case
    by (subst cfg_lines.simps) (simp add: fgets_rule parse_rule)
qed

section \<open>Every rule set read from a file\<close>

lemma parse_addr_below: "parse_addr s stop = Some (v, rest) \<Longrightarrow> v \<noteq> 0xFFFFFFFF"
proof -
  assume "parse_addr s stop = Some (v, rest)"
  then obtain i where "v = of_int i" "0 \<le> i" "i < 0xFFFFFFFF"
    by (auto simp: parse_addr_def split: prod.splits if_splits)
  then have "uint v \<noteq> 0xFFFFFFFF" by (simp add: uint_word_of_int)
  then show ?thesis by auto
qed

lemma parse_info_wf: "parse_range s = Some i \<Longrightarrow> info_wf i" "parse_mask s t = Some i \<Longrightarrow> info_wf i"
  using parse_addr_below by (auto simp: parse_range_def parse_mask_def and.assoc split: option.splits; blast)+

lemma parse_delays_info: "parse_delays i parts = Some d \<Longrightarrow> info d = i"
  by (auto simp: parse_delays_def Let_def split: option.splits if_splits)

definition set_wf :: "delay_set \<Rightarrow> bool" where
  "set_wf ds \<longleftrightarrow> list_all (\<lambda>d. info_wf (info d)) (delays ds)"

lemma parse_cfg_line_wf: "set_wf ds \<Longrightarrow> set_wf (snd (parse_cfg_line ds l))"
  by (auto simp: parse_cfg_line_def set_wf_def ll_append_def Let_def
      dest: parse_info_wf parse_delays_info split: option.splits if_splits)

lemma cfg_lines_wf: "set_wf ds \<Longrightarrow> set_wf (snd (cfg_lines ds f))"
proof (induction ds f rule: cfg_lines.induct)
  case (1 ds f)
  then show ?case
    using parse_cfg_line_wf [OF 1(2)] by (subst cfg_lines.simps) (auto split: option.split)
qed

lemma lookup_from_find:
  "lookup_from ds a rd =
     map_option (\<lambda>d. if rd then (rd_delay d, rd_drop_delay d) else (wr_delay d, wr_drop_delay d))
       (find (\<lambda>d. check_addr d a = 0) ds)"
  by (induction ds) auto

section \<open>Properties\<close>

text \<open>
  The set of addresses that a rule stands for: those that agree with the match on the mask, or those
  of the range, ends included.
\<close>

definition covers :: "delay \<Rightarrow> u32 set" where
  "covers d = (case info d of DELAY_MASK m v \<Rightarrow> {a. \<forall>n. bit m n \<longrightarrow> (bit a n \<longleftrightarrow> bit v n)} | DELAY_RANGE a b \<Rightarrow> {a..b})"

lemma check_addr_covers:
  assumes "info_wf (info d)"
  shows "check_addr d a = 0 \<longleftrightarrow> a \<in> covers d"
proof (cases "info d")
  case (DELAY_MASK m v)
  then have "v AND m = v" using assms by simp
  then have "(m AND a = v) \<longleftrightarrow> (\<forall>n. bit m n \<longrightarrow> (bit a n \<longleftrightarrow> bit v n))"
    using bit_imp_le_length [of m] by (fastforce simp: bit_eq_iff bit_simps)
  then show ?thesis by (simp add: DELAY_MASK check_addr_def covers_def)
qed (auto simp: check_addr_def covers_def)

text \<open>
  C30: a rule file written in the documented format, whatever its rules, is accepted, and a lookup then
  gives the read or write delays of the first rule that covers the address, and none when no rule does.
\<close>

theorem delays_cfg_first_match:
  assumes "fopen name = Some (concat (map print_rule rules))" "list_all rule_wf rules"
  shows "\<exists>ds. delays_init_cfg fopen (Some name) = (0, ds) \<and> delays ds = rules \<and>
    (\<forall>a rd. delays_lookup ds a rd =
       map_option (\<lambda>d. if rd then (rd_delay d, rd_drop_delay d) else (wr_delay d, wr_drop_delay d))
         (find (\<lambda>d. a \<in> covers d) rules))"
proof -
  have wf: "rule_wf d" if "d \<in> set rules" for d using assms(2) that by (simp add: list_all_iff)
  have "find (\<lambda>d. check_addr d a = 0) rules = find (\<lambda>d. a \<in> covers d) rules" for a
    using wf by (intro find_cong) (auto simp: rule_wf_def check_addr_covers)
  then show ?thesis
    using cfg_rules [of rules "\<lparr>delays = []\<rparr>"] wf
    by (simp add: delays_init_cfg_def assms(1) delays_lookup_def lookup_from_find)
qed

definition sample_rules :: "delay list" where
  "sample_rules =
     [\<lparr>info = DELAY_RANGE 0x1000 0x1FFF, rd_delay = 20, rd_drop_delay = 4, wr_delay = 60, wr_drop_delay = 4\<rparr>,
      \<lparr>info = DELAY_MASK 0xFF000000 0x10000000, rd_delay = 160, rd_drop_delay = 4, wr_delay = 160, wr_drop_delay = 4\<rparr>]"

theorem delays_cfg_first_match_witness:
  "\<exists>ds. delays_init_cfg (\<lambda>_. Some (concat (map print_rule sample_rules))) (Some ''delays.cfg'') = (0, ds) \<and>
     delays_lookup ds 0x1FFF False = Some (60, 4)"
proof -
  have w: "list_all rule_wf sample_rules" by (simp add: sample_rules_def rule_wf_def)
  have f: "find (\<lambda>d. 0x1FFF \<in> covers d) sample_rules = Some (sample_rules ! 0)"
    by (simp add: sample_rules_def covers_def)
  show ?thesis
    using delays_cfg_first_match [of "\<lambda>_. Some (concat (map print_rule sample_rules))" "''delays.cfg''", OF refl w]
    by (auto simp: f) (simp_all add: sample_rules_def)
qed

text \<open>
  Whatever the file holds, also one whose reading stops at a bad line, every rule taken from it is
  well formed: the match of a mask rule lies within its mask, so the comparison of the lookup can
  succeed, and no address field is FFFFFFFF. So a rule covers at least one address, unless it is a
  range that ends before it starts.
\<close>

theorem delays_cfg_wf:
  "set_wf (snd (delays_init_cfg fopen filename)) \<and>
   (\<forall>d\<in>set (delays (snd (delays_init_cfg fopen filename))).
      (\<exists>a. check_addr d a = 0) \<or> (\<exists>a b. info d = DELAY_RANGE a b \<and> b < a))"
proof -
  have w: "set_wf (snd (delays_init_cfg fopen filename))"
    by (auto simp: delays_init_cfg_def Let_def set_wf_def intro: cfg_lines_wf [unfolded set_wf_def] split: option.split)
  have "(\<exists>a. check_addr d a = 0) \<or> (\<exists>a b. info d = DELAY_RANGE a b \<and> b < a)" if "info_wf (info d)" for d
  proof (cases "info d")
    case (DELAY_MASK m v)
    then have "check_addr d v = 0" using that by (simp add: check_addr_def and.commute)
    then show ?thesis by blast
  next
    case (DELAY_RANGE a b)
    then show ?thesis by (cases "b < a") (auto simp: check_addr_def not_less intro: exI [of _ a])
  qed
  then show ?thesis using w by (auto simp: set_wf_def list_all_iff)
qed

end
