(* ===== verification/Sim_Lines.thy ===== *)
theory Sim_Lines
  imports C_String
begin

text \<open>
  The line reader of src/sim/sim/simulator.c: it cuts the output of the simulator process into lines.
  The characters read so far are \<open>buf\<close> (its length is \<open>buf_used\<close>), \<open>line_start\<close> is the offset of the
  first character not yet handed out. What the process sends is a sequence of results of \<open>read\<close>; the
  reader asks for a number of bytes and gets at most so many of the first result.
\<close>

section \<open>Reading from the process\<close>

datatype read_result = Data string | Read_Error

datatype io = Bytes string | End_Of_File | Failed

text \<open>\<open>read (fd, p, n)\<close>; a result of no bytes and the end of the sequence are an end of file.\<close>

fun read_fd :: "nat \<Rightarrow> read_result list \<Rightarrow> io \<times> read_result list" where
  "read_fd n [] = (End_Of_File, [])"
| "read_fd n (Read_Error # rs) = (Failed, rs)"
| "read_fd n (Data s # rs) =
     (if s = [] then (End_Of_File, rs)
      else (Bytes (take n s), if length s \<le> n then rs else Data (drop n s) # rs))"

section \<open>The reader\<close>

definition LINE_BUF_LEN :: nat where
  "LINE_BUF_LEN = 2049"

record line_reader =
  buf :: string
  line_start :: nat

definition line_reader_init :: line_reader where
  "line_reader_init = \<lparr>buf = [], line_start = 0\<rparr>"

definition is_nl :: "char \<Rightarrow> bool" where
  "is_nl c \<longleftrightarrow> c = CHR 0x0D \<or> c = CHR 0x0A"

text \<open>The scan of the characters in the buffer: a line, and the buffer and line start it leaves.\<close>

function scan_lines :: "string \<Rightarrow> nat \<Rightarrow> nat \<Rightarrow> string \<times> nat \<times> string option" where
  "scan_lines b ls i =
     (if i \<ge> length b then (b, ls, None)
      else if is_nl (b ! i) then
        (if ls < i then (b[i := CHR 0x00], i + 1, Some (take (i - ls) (drop ls b)))
         else scan_lines (b[i := CHR 0x00]) (i + 1) (i + 1))
      else scan_lines b ls (i + 1))"
  by auto
termination by (relation "measure (\<lambda>(b, ls, i). length b - i)") auto

declare scan_lines.simps [simp del]

text \<open>The characters of an incomplete line move to the front; a full buffer without a line is dropped.\<close>

definition compact :: "string \<Rightarrow> nat \<Rightarrow> string" where
  "compact b ls = (let k = drop ls b in if LINE_BUF_LEN - length k = 0 then [] else k)"

datatype line_result = Line string | Eof | Io_Error

fun script_size :: "read_result list \<Rightarrow> nat" where
  "script_size [] = 0"
| "script_size (Data s # rs) = length s + 1 + script_size rs"
| "script_size (Read_Error # rs) = 1 + script_size rs"

lemma read_fd_smaller: "read_fd n sc = (Bytes s, sc') \<Longrightarrow> 0 < n \<Longrightarrow> script_size sc' < script_size sc"
  by (cases "(n, sc)" rule: read_fd.cases) (auto split: if_splits)

lemma compact_room: "length (compact b ls) < LINE_BUF_LEN"
  by (auto simp: compact_def Let_def LINE_BUF_LEN_def)

function line_reader_next :: "line_reader \<Rightarrow> read_result list \<Rightarrow> line_result \<times> line_reader \<times> read_result list" where
  "line_reader_next lr sc =
     (case scan_lines (buf lr) (line_start lr) (line_start lr) of
        (b, ls, Some l) \<Rightarrow> (Line l, \<lparr>buf = b, line_start = ls\<rparr>, sc)
      | (b, ls, None) \<Rightarrow>
          (case read_fd (LINE_BUF_LEN - length (compact b ls)) sc of
             (End_Of_File, sc') \<Rightarrow> (Eof, \<lparr>buf = compact b ls, line_start = 0\<rparr>, sc')
           | (Failed, sc') \<Rightarrow> (Io_Error, \<lparr>buf = compact b ls, line_start = 0\<rparr>, sc')
           | (Bytes s, sc') \<Rightarrow> line_reader_next \<lparr>buf = compact b ls @ s, line_start = 0\<rparr> sc'))"
  by auto
termination
proof (relation "measure (script_size \<circ> snd)")
qed (auto dest!: read_fd_smaller [OF sym] simp: compact_room)

declare line_reader_next.simps [simp del]

section \<open>Lines of a stream\<close>

text \<open>The next line of a stream of characters: empty lines are skipped, the rest follows its end.\<close>

definition next_line :: "string \<Rightarrow> (string \<times> string) option" where
  "next_line st =
     (let q = dropWhile is_nl st; t = dropWhile (\<lambda>c. \<not> is_nl c) q
      in if t = [] then None else Some (takeWhile (\<lambda>c. \<not> is_nl c) q, tl t))"

fun script_bytes :: "read_result list \<Rightarrow> string" where
  "script_bytes [] = []"
| "script_bytes (Data s # rs) = s @ script_bytes rs"
| "script_bytes (Read_Error # rs) = []"

text \<open>What has been received and not handed out, and what is still to come.\<close>

definition pending :: "line_reader \<times> read_result list \<Rightarrow> string" where
  "pending r = drop (line_start (fst r)) (buf (fst r)) @ script_bytes (snd r)"

text \<open>No pending error or end of file before the last result.\<close>

definition script_ok :: "read_result list \<Rightarrow> bool" where
  "script_ok sc \<longleftrightarrow> list_all (\<lambda>x. case x of Data s \<Rightarrow> s \<noteq> [] | Read_Error \<Rightarrow> False) sc"

lemma next_line_skip: "is_nl c \<Longrightarrow> next_line (c # st) = next_line st"
  by (simp add: next_line_def)

lemma next_line_append: "next_line p = Some (l, rest) \<Longrightarrow> next_line (p @ s) = Some (l, rest @ s)"
proof -
  assume a: "next_line p = Some (l, rest)"
  define q where "q = dropWhile is_nl p"
  have t: "dropWhile (\<lambda>c. \<not> is_nl c) q \<noteq> []" "l = takeWhile (\<lambda>c. \<not> is_nl c) q" "rest = tl (dropWhile (\<lambda>c. \<not> is_nl c) q)"
    using a by (auto simp: next_line_def Let_def q_def split: if_splits)
  then have n: "\<exists>x\<in>set q. is_nl x" by (auto simp: dropWhile_eq_Nil_conv)
  then have "q \<noteq> []" by auto
  then have "\<exists>x\<in>set p. \<not> is_nl x" by (auto simp: q_def dropWhile_eq_Nil_conv)
  then have "dropWhile is_nl (p @ s) = q @ s" by (auto simp: q_def dropWhile_append1)
  moreover have "dropWhile (\<lambda>c. \<not> is_nl c) (q @ s) = dropWhile (\<lambda>c. \<not> is_nl c) q @ s"
    "takeWhile (\<lambda>c. \<not> is_nl c) (q @ s) = l"
    using n t by (auto simp: dropWhile_append1 takeWhile_append1)
  ultimately show ?thesis using t by (auto simp: next_line_def Let_def)
qed

text \<open>The scan finds the next line of the characters from the line start on.\<close>

lemma scan_lines_spec:
  assumes "ls \<le> i" "i \<le> length b" "\<forall>c\<in>set (take (i - ls) (drop ls b)). \<not> is_nl c"
    and "scan_lines b ls i = (b', ls', res)"
  shows "(case res of Some l \<Rightarrow> next_line (drop ls b) = Some (l, drop ls' b')
          | None \<Rightarrow> next_line (drop ls b) = None \<and> drop ls' b' = dropWhile is_nl (drop ls b))
         \<and> ls' \<le> length b'"
  using assms
proof (induction b ls i rule: scan_lines.induct)
  case (1 b ls i)
  let ?w = "take (i - ls) (drop ls b)"
  have split: "drop ls b = ?w @ drop i b" using 1(3) append_take_drop_id [of "i - ls" "drop ls b"] by simp
  have hd_ok: "dropWhile is_nl (drop ls b) = drop ls b" if "\<forall>c\<in>set (drop ls b). \<not> is_nl c"
    using that by (cases "drop ls b") auto
  consider (ended) "i \<ge> length b" | (line) "i < length b" "is_nl (b ! i)" "ls < i"
    | (empty) "i < length b" "is_nl (b ! i)" "ls = i" | (char) "i < length b" "\<not> is_nl (b ! i)"
    using 1(3) by fastforce
  then show ?case
  proof cases
    case ended
    then have e: "\<forall>c\<in>set (drop ls b). \<not> is_nl c" using 1(4,5) by simp
    then show ?thesis
      using 1(3,4,6) ended hd_ok by (auto simp: scan_lines.simps [of b] next_line_def Let_def dropWhile_eq_Nil_conv)
  next
    case line
    have d: "drop i b = b ! i # drop (Suc i) b" using line by (simp add: Cons_nth_drop_Suc)
    have w: "?w \<noteq> []" using line 1(3,4) by simp
    then have "\<not> is_nl (hd ?w)" using 1(5) by (meson hd_in_set)
    then have "dropWhile is_nl (drop ls b) = drop ls b"
      using w split by (cases ?w) (auto simp: dropWhile_eq_self_iff)
    moreover have "takeWhile (\<lambda>c. \<not> is_nl c) (?w @ drop i b) = ?w" "dropWhile (\<lambda>c. \<not> is_nl c) (?w @ drop i b) = drop i b"
      using 1(5) line d by (auto simp: takeWhile_append2 dropWhile_append2)
    ultimately have "next_line (drop ls b) = Some (?w, drop (Suc i) b)"
      using split d by (simp add: next_line_def Let_def del: dropWhile_eq_Nil_conv)
    then show ?thesis using line 1(6) by (auto simp: scan_lines.simps [of b])
  next
    case empty
    have d: "drop ls b = b ! i # drop (Suc i) b" using empty by (simp add: Cons_nth_drop_Suc)
    have "scan_lines (b[i := CHR 0x00]) (i + 1) (i + 1) = (b', ls', res)"
      using 1(6) empty by (simp add: scan_lines.simps [of b])
    from 1(1) [OF _ _ _ _ _ _ this] show ?thesis
      using empty d by (auto simp: next_line_skip split: option.splits)
  next
    case char
    have "scan_lines b ls (i + 1) = (b', ls', res)"
      using 1(6) char by (simp add: scan_lines.simps [of b])
    moreover have "\<forall>c\<in>set (take (i + 1 - ls) (drop ls b)). \<not> is_nl c"
    proof -
      have "take (i + 1 - ls) (drop ls b) = ?w @ [b ! i]"
        using char 1(3) by (simp add: Suc_diff_le take_Suc_conv_app_nth)
      then show ?thesis using 1(5) char by auto
    qed
    ultimately show ?thesis using 1(2) [OF _ _ _ _ _] char 1(3) by auto
  qed
qed

lemma scan_lines_length: "scan_lines b ls i = (b', ls', res) \<Longrightarrow> length b' = length b"
proof (induction b ls i rule: scan_lines.induct)
  case (1 b ls i)
  then show ?case by (subst (asm) (3) scan_lines.simps) (auto split: if_splits)
qed

lemma next_line_more:
  assumes "next_line p = None" "next_line (p @ s) = Some (l, rest)"
  shows "next_line (dropWhile is_nl p @ s) = Some (l, rest)" "length (dropWhile is_nl p) \<le> length l"
proof -
  let ?q = "dropWhile is_nl p"
  have nn: "\<forall>c\<in>set ?q. \<not> is_nl c"
    using assms(1) by (auto simp: next_line_def Let_def split: if_splits)
  have d: "dropWhile is_nl (p @ s) = dropWhile is_nl (?q @ s)"
  proof (cases "?q = []")
    case True
    then have "\<forall>x\<in>set p. is_nl x" by (simp only: dropWhile_eq_Nil_conv)
    then show ?thesis by (simp only: True dropWhile_append2 append_Nil)
  next
    case False
    then have "\<exists>x\<in>set p. \<not> is_nl x" by (simp add: dropWhile_eq_Nil_conv)
    then have "dropWhile is_nl (p @ s) = ?q @ s" by (auto simp: dropWhile_append1)
    moreover have "dropWhile is_nl (?q @ s) = ?q @ s" using nn False by (cases ?q) auto
    ultimately show ?thesis by simp
  qed
  then show n: "next_line (?q @ s) = Some (l, rest)" using assms(2) by (simp add: next_line_def Let_def)
  show "length ?q \<le> length l"
  proof (cases "?q = []")
    case False
    then have "dropWhile is_nl (?q @ s) = ?q @ s" using nn by (cases ?q) auto
    then have "l = ?q @ takeWhile (\<lambda>c. \<not> is_nl c) s"
      using n nn by (auto simp: next_line_def Let_def takeWhile_append2 split: if_splits)
    then show ?thesis by simp
  next
    case True
    show ?thesis by (simp only: True list.size le0)
  qed
qed

definition reader_wf :: "line_reader \<times> read_result list \<Rightarrow> bool" where
  "reader_wf r \<longleftrightarrow> line_start (fst r) \<le> length (buf (fst r)) \<and> length (buf (fst r)) \<le> LINE_BUF_LEN \<and> script_ok (snd r)"

text \<open>Whatever the pieces in which the stream arrives, the reader returns its next line.\<close>

lemma line_reader_next_spec:
  assumes "reader_wf (lr, sc)" "next_line (pending (lr, sc)) = Some (l, rest)" "length l < LINE_BUF_LEN"
  shows "\<exists>lr' sc'. line_reader_next lr sc = (Line l, lr', sc') \<and> reader_wf (lr', sc') \<and> pending (lr', sc') = rest"
  using assms(1,2)
proof (induction lr sc rule: line_reader_next.induct)
  case (1 lr sc)
  let ?p = "drop (line_start lr) (buf lr)"
  have wf: "line_start lr \<le> length (buf lr)" "length (buf lr) \<le> LINE_BUF_LEN" "script_ok sc"
    using 1(2) by (auto simp: reader_wf_def)
  obtain b ls res where sc: "scan_lines (buf lr) (line_start lr) (line_start lr) = (b, ls, res)"
    by (cases "scan_lines (buf lr) (line_start lr) (line_start lr)") auto
  note sp = scan_lines_spec [OF le_refl wf(1) _ sc] and len = scan_lines_length [OF sc]
  have p: "next_line (?p @ script_bytes sc) = Some (l, rest)" using 1(3) by (simp add: pending_def)
  show ?case
  proof (cases res)
    case (Some l')
    then have "next_line ?p = Some (l', drop ls b)" "ls \<le> length b" using sp by auto
    then have "l' = l" "drop ls b @ script_bytes sc = rest" using next_line_append [of ?p] p by auto
    then show ?thesis
      using Some sc wf len \<open>ls \<le> length b\<close>
      by (subst line_reader_next.simps) (auto simp: reader_wf_def pending_def)
  next
    case None
    then have n: "next_line ?p = None" "drop ls b = dropWhile is_nl ?p" using sp by auto
    note m = next_line_more [OF n(1) p]
    have k: "compact b ls = dropWhile is_nl ?p" using m(2) assms(3) by (simp add: compact_def n(2) Let_def)
    let ?n = "LINE_BUF_LEN - length (compact b ls)"
    have "sc \<noteq> []" using p n(1) by auto
    then obtain s rs where s: "sc = Data s # rs" "s \<noteq> []" "script_ok rs"
      using wf(3) by (cases sc) (auto simp: script_ok_def split: read_result.splits)
    define sc' where "sc' = (if length s \<le> ?n then rs else Data (drop ?n s) # rs)"
    have rd: "read_fd ?n sc = (Bytes (take ?n s), sc')" using s by (simp add: sc'_def)
    let ?lr = "\<lparr>buf = compact b ls @ take ?n s, line_start = 0\<rparr>"
    have "pending (?lr, sc') = dropWhile is_nl ?p @ script_bytes sc"
      by (simp add: pending_def sc'_def k s(1))
    moreover have "reader_wf (?lr, sc')"
      using s(3) compact_room [of b ls] by (auto simp: reader_wf_def sc'_def script_ok_def)
    ultimately have "\<exists>lr' sc''. line_reader_next ?lr sc' = (Line l, lr', sc'') \<and> reader_wf (lr', sc'') \<and> pending (lr', sc'') = rest"
      using 1(1) [OF sc [symmetric] refl None rd [symmetric] refl] m(1) by simp
    then show ?thesis using sc None rd by (subst line_reader_next.simps) simp
  qed
qed

text \<open>Every line shortens what is still to be read, whatever the state of the reader.\<close>

definition reader_size :: "line_reader \<Rightarrow> read_result list \<Rightarrow> nat" where
  "reader_size lr sc = length (drop (line_start lr) (buf lr)) + script_size sc"

lemma scan_lines_start:
  "ls \<le> i \<Longrightarrow> scan_lines b ls i = (b', ls', res) \<Longrightarrow>
   length b' = length b \<and> ls \<le> ls' \<and> (res \<noteq> None \<longrightarrow> ls < ls' \<and> ls' \<le> length b)"
proof (induction b ls i rule: scan_lines.induct)
  case (1 b ls i)
  then show ?case
    by (subst (asm) (3) scan_lines.simps) (fastforce split: if_splits)
qed

lemma read_fd_size: "read_fd n sc = (Bytes s, sc') \<Longrightarrow> length s + script_size sc' \<le> script_size sc"
  by (cases "(n, sc)" rule: read_fd.cases) (auto split: if_splits)

lemma line_reader_next_size:
  "line_reader_next lr sc = (Line l, lr', sc') \<Longrightarrow> reader_size lr' sc' < reader_size lr sc"
proof (induction lr sc rule: line_reader_next.induct)
  case (1 lr sc)
  obtain b ls res where sc: "scan_lines (buf lr) (line_start lr) (line_start lr) = (b, ls, res)"
    by (cases "scan_lines (buf lr) (line_start lr) (line_start lr)") auto
  note st = scan_lines_start [OF le_refl sc]
  show ?case
  proof (cases res)
    case (Some l')
    then show ?thesis
      using 1(2) sc st by (subst (asm) line_reader_next.simps) (auto simp: reader_size_def)
  next
    case None
    obtain io sc1 where rd: "read_fd (LINE_BUF_LEN - length (compact b ls)) sc = (io, sc1)" by fastforce
    note step = 1(2) [unfolded line_reader_next.simps [of lr sc] sc None rd, simplified]
    obtain s where io: "io = Bytes s" using step rd by (cases io) simp_all
    have n: "line_reader_next \<lparr>buf = compact b ls @ s, line_start = 0\<rparr> sc1 = (Line l, lr', sc')"
      using step rd io by simp
    have "reader_size lr' sc' < reader_size \<lparr>buf = compact b ls @ s, line_start = 0\<rparr> sc1"
      using 1(1) [OF sc [symmetric] refl None rd [symmetric] io n] .
    also have "\<dots> \<le> reader_size lr sc"
      using st read_fd_size [OF rd [unfolded io]] by (auto simp: reader_size_def compact_def Let_def)
    finally show ?thesis .
  qed
qed

section \<open>A source of lines\<close>

text \<open>
  What the command loop relies on: the lines of the stream come out one by one, in order, unless one
  is as long as the buffer.
\<close>

definition line_ok :: "nat \<Rightarrow> string \<times> string \<Rightarrow> bool" where
  "line_ok cap p \<longleftrightarrow> fst p \<noteq> [] \<and> length (fst p) < cap \<and> list_all (\<lambda>c. \<not> is_nl c) (fst p) \<and> snd p \<noteq> [] \<and> list_all is_nl (snd p)"

lemma next_line_one:
  assumes "line_ok cap (l, e)" "\<forall>c\<in>set es. is_nl c"
  shows "\<exists>es'. next_line (es @ l @ e @ tail) = Some (l, es' @ tail) \<and> (\<forall>c\<in>set es'. is_nl c)"
proof -
  have l: "l \<noteq> []" "\<forall>c\<in>set l. \<not> is_nl c" "e \<noteq> []" "\<forall>c\<in>set e. is_nl c"
    using assms(1) by (simp_all add: line_ok_def list_all_iff)
  obtain e0 e1 where e: "e = e0 # e1" using l(3) by (cases e) auto
  have "dropWhile is_nl (es @ l @ e @ tail) = l @ e @ tail"
    using l assms(2) by (cases l) (auto simp: dropWhile_append2)
  moreover have "takeWhile (\<lambda>c. \<not> is_nl c) (l @ e @ tail) = l" "dropWhile (\<lambda>c. \<not> is_nl c) (l @ e @ tail) = e @ tail"
    using l e by (auto simp: takeWhile_append2 dropWhile_append2)
  ultimately show ?thesis
    using l(4) e by (intro exI [of _ e1]) (simp add: next_line_def Let_def del: dropWhile_eq_Nil_conv)
qed

locale line_source =
  fixes next_of :: "'r \<Rightarrow> line_result \<times> 'r" and stream :: "'r \<Rightarrow> string" and ok :: "'r \<Rightarrow> bool" and cap :: nat
  assumes next_delivers:
    "ok r \<Longrightarrow> next_line (stream r) = Some (l, rest) \<Longrightarrow> length l < cap \<Longrightarrow>
     \<exists>r'. next_of r = (Line l, r') \<and> ok r' \<and> stream r' = rest"
begin

fun deliver :: "nat \<Rightarrow> 'r \<Rightarrow> string list \<times> 'r" where
  "deliver 0 r = ([], r)"
| "deliver (Suc n) r =
     (case next_of r of (Line l, r') \<Rightarrow> (l # fst (deliver n r'), snd (deliver n r')) | (_, r') \<Rightarrow> ([], r'))"

lemma deliver_lines:
  assumes "ok r" "stream r = es @ concat (map (\<lambda>(l, e). l @ e) ls) @ rest" "\<forall>c\<in>set es. is_nl c"
    and "list_all (line_ok cap) ls"
  shows "fst (deliver (length ls) r) = map fst ls"
  using assms
proof (induction ls arbitrary: r es)
  case (Cons q ls)
  let ?t = "concat (map (\<lambda>(l, e). l @ e) ls) @ rest"
  obtain l e where q: "q = (l, e)" by (cases q)
  have le: "line_ok cap (l, e)" using Cons.prems(4) q by simp
  obtain es' where "next_line (stream r) = Some (l, es' @ ?t)" "\<forall>c\<in>set es'. is_nl c"
    using next_line_one [OF le Cons.prems(3), of ?t] Cons.prems(2) q by auto
  moreover from next_delivers [OF Cons.prems(1) this(1)]
  obtain r' where "next_of r = (Line l, r')" "ok r'" "stream r' = es' @ ?t"
    using le by (auto simp: line_ok_def)
  ultimately show ?case using Cons.IH [of r' es'] Cons.prems(4) q by auto
qed simp

end

definition reader_next :: "line_reader \<times> read_result list \<Rightarrow> line_result \<times> line_reader \<times> read_result list" where
  "reader_next r = line_reader_next (fst r) (snd r)"

interpretation lines: line_source reader_next pending reader_wf LINE_BUF_LEN
proof
  fix r l rest
  assume "reader_wf r" "next_line (pending r) = Some (l, rest)" "length l < LINE_BUF_LEN"
  then show "\<exists>r'. reader_next r = (Line l, r') \<and> reader_wf r' \<and> pending r' = rest"
    using line_reader_next_spec [of "fst r" "snd r" l rest] by (auto simp: reader_next_def)
qed

section \<open>Properties\<close>

text \<open>
  Reading \<open>n\<close> lines, as the command loop does.
\<close>

fun read_lines :: "nat \<Rightarrow> line_reader \<Rightarrow> read_result list \<Rightarrow> string list" where
  "read_lines 0 lr sc = []"
| "read_lines (Suc n) lr sc =
     (case line_reader_next lr sc of (Line l, lr', sc') \<Rightarrow> l # read_lines n lr' sc' | _ \<Rightarrow> [])"

lemma read_lines_deliver: "read_lines n lr sc = fst (lines.deliver n (lr, sc))"
  by (induction n arbitrary: lr sc) (auto simp: reader_next_def split: prod.splits line_result.splits)

text \<open>
  C31: the lines that the simulator process writes, each ended by any mix of carriage returns and line
  feeds, are read one by one and in order, however the stream is cut into the pieces that \<open>read\<close>
  returns and however the pieces fall on the buffer; only a line of 2049 characters or more is lost.
\<close>

theorem lines_read_in_order:
  assumes "script_ok sc" "script_bytes sc = concat (map (\<lambda>(l, e). l @ e) ls)" "list_all (line_ok LINE_BUF_LEN) ls"
  shows "read_lines (length ls) line_reader_init sc = map fst ls"
proof -
  have "reader_wf (line_reader_init, sc)" using assms(1) by (simp add: reader_wf_def line_reader_init_def LINE_BUF_LEN_def)
  moreover have "pending (line_reader_init, sc) = [] @ concat (map (\<lambda>(l, e). l @ e) ls) @ []"
    by (simp add: pending_def line_reader_init_def assms(2))
  ultimately show ?thesis
    unfolding read_lines_deliver by (rule lines.deliver_lines) (simp_all add: assms(3))
qed

theorem lines_read_in_order_witness:
  "read_lines 2 line_reader_init [Data ''r cl'', Data ''k 1'', Data [CHR 0x0D, CHR 0x0A, CHR ''.''], Data '' 7'', Data [CHR 0x0A]]
   = [''r clk 1'', ''. 7'']"
proof -
  let ?sc = "[Data ''r cl'', Data ''k 1'', Data [CHR 0x0D, CHR 0x0A, CHR ''.''], Data '' 7'', Data [CHR 0x0A]]"
  let ?ls = "[(''r clk 1'', [CHR 0x0D, CHR 0x0A]), (''. 7'', [CHR 0x0A])]"
  have h: "script_ok ?sc" "script_bytes ?sc = concat (map (\<lambda>(l, e). l @ e) ?ls)" "list_all (line_ok LINE_BUF_LEN) ?ls"
    by (simp_all add: script_ok_def line_ok_def LINE_BUF_LEN_def is_nl_def)
  show ?thesis using lines_read_in_order [OF h] by (simp only: list.map list.size fst_conv One_nat_def) (simp add: eval_nat_numeral)
qed

end
