(* ===== verification/Sim_Cmd.thy ===== *)
theory Sim_Cmd
  imports C_String
begin

text \<open>
  The messages of the simulator process and their parser (src/sim/sim/simulator.c, and the signal table
  of simulator.h). A pointer to a signal is its position in the table. The writers of the messages are
  the VHDL processes of sim_macros.h, whose format is \<open>print_cmd\<close>, and for a Verilog design the bridge
  (vpibridge.c), whose format is \<open>print_cmd_vpi\<close>.
\<close>

section \<open>Signals\<close>

record signal =
  sig_index :: nat
  sig_name :: string
  sig_type :: string
  sig_value :: "string option"
  value_len :: nat
  read_only :: bool
  event :: bool

fun lookup_from :: "signal list \<Rightarrow> nat \<Rightarrow> string \<Rightarrow> nat option" where
  "lookup_from [] i name = None"
| "lookup_from (s # ss) i name = (if name = sig_name s then Some i else lookup_from ss (i + 1) name)"

definition sim_lookup_signal :: "signal list \<Rightarrow> string \<Rightarrow> nat option" where
  "sim_lookup_signal ss name = lookup_from ss 0 name"

section \<open>Splitting a line\<close>

lemma split_string_shorter:
  assumes "dropWhile c_isblank str \<noteq> []"
  shows "length (dropWhile (\<lambda>x. \<not> c_isblank x) (dropWhile c_isblank str)) < length str"
proof -
  obtain c cs where c: "dropWhile c_isblank str = c # cs" using assms by (cases "dropWhile c_isblank str") auto
  then have "\<not> c_isblank c" using hd_dropWhile [of c_isblank str] by simp
  then have "length (dropWhile (\<lambda>x. \<not> c_isblank x) (c # cs)) \<le> length cs" by (simp add: length_dropWhile_le)
  moreover have "length (c # cs) \<le> length str" using c length_dropWhile_le [of c_isblank str] by simp
  ultimately show ?thesis using c by simp
qed

text \<open>\<open>None\<close>: a part after the last place of the array is stored past its end.\<close>

function split_string :: "string \<Rightarrow> nat \<Rightarrow> nat \<Rightarrow> string list option" where
  "split_string str n max_parts =
     (let c = dropWhile c_isblank str in
      if c = [] then Some []
      else if n = max_parts then None
      else map_option (Cons (takeWhile (\<lambda>x. \<not> c_isblank x) c))
             (split_string (dropWhile (\<lambda>x. \<not> c_isblank x) c) (n + 1) max_parts))"
  by auto
termination
proof (relation "measure (length \<circ> fst)")
  fix str :: string and n max_parts :: nat and c
  assume "c = dropWhile c_isblank str" "c \<noteq> []"
  then show "((dropWhile (\<lambda>x. \<not> c_isblank x) c, n + 1, max_parts), str, n, max_parts) \<in> measure (length \<circ> fst)"
    using split_string_shorter [of str] by simp
qed simp

declare split_string.simps [simp del]

section \<open>Commands\<close>

datatype cmd = CMD_ECHO string | CMD_TIME u64 | CMD_VALUE nat u64 string | CMD_READ nat string

text \<open>Up to three digits after the point; missing ones count as zeros.\<close>

fun frac_loop :: "nat \<Rightarrow> u64 \<Rightarrow> string \<Rightarrow> (u64 \<times> string) option" where
  "frac_loop 0 t s = Some (t, s)"
| "frac_loop (Suc n) t [] = frac_loop n (t * 10) []"
| "frac_loop (Suc n) t (c # cs) =
     (if c_isdigit c then frac_loop n (t * 10 + of_nat (of_char c - 48)) cs else None)"

definition parse_time :: "u64 \<Rightarrow> string \<Rightarrow> string option \<Rightarrow> u64 option" where
  "parse_time pico_scale num unit =
     (let (picos, endptr) = strtoull num 10;
          scaled =
            (case unit of None \<Rightarrow> Some (picos, endptr)
             | Some u \<Rightarrow>
                 if u = ''ns'' then
                   (if endptr \<noteq> [] \<and> hd endptr = CHR ''.'' then
                      map_option (\<lambda>(t, rest). (picos * 1000 + t, rest)) (frac_loop 3 0 (tl endptr))
                    else Some (picos * 1000, endptr))
                 else if u \<noteq> ''ps'' then None else Some (picos, endptr))
      in case scaled of None \<Rightarrow> None
         | Some (p, rest) \<Rightarrow> if rest \<noteq> [] then None else Some (p * pico_scale))"

definition MAX_PARTS :: nat where
  "MAX_PARTS = 10"

datatype parsed = Parsed cmd | Bad_Cmd | Parts_Overrun

text \<open>The parts after the first, by the command letter.\<close>

definition parse_parts :: "signal list \<Rightarrow> u64 \<Rightarrow> string list \<Rightarrow> parsed" where
  "parse_parts ss pico_scale parts =
     (if parts \<noteq> [] \<and> length (parts ! 0) = 1 then
        (let c = parts ! 0 ! 0 in
         if c = CHR ''.'' then Parsed (CMD_ECHO (if length parts > 1 then parts ! 1 else []))
         else if c = CHR ''r'' then
           (if length parts = 3 then
              (case sim_lookup_signal ss (parts ! 1) of None \<Rightarrow> Bad_Cmd | Some i \<Rightarrow> Parsed (CMD_READ i (parts ! 2)))
            else Bad_Cmd)
         else if c = CHR ''t'' then
           (if length parts = 2 \<or> length parts = 3 then
              (case parse_time pico_scale (parts ! 1) (if length parts = 3 then Some (parts ! 2) else None) of
                 None \<Rightarrow> Bad_Cmd | Some p \<Rightarrow> Parsed (CMD_TIME p))
            else Bad_Cmd)
         else if c = CHR ''v'' then
           (if length parts = 5 then
              (case parse_time pico_scale (parts ! 2) (Some (parts ! 3)) of None \<Rightarrow> Bad_Cmd
               | Some p \<Rightarrow>
                   (case sim_lookup_signal ss (parts ! 1) of None \<Rightarrow> Bad_Cmd | Some i \<Rightarrow> Parsed (CMD_VALUE i p (parts ! 4))))
            else Bad_Cmd)
         else Bad_Cmd)
      else Bad_Cmd)"

text \<open>
  A line of more parts than the array holds is undefined behaviour in C; \<open>Parts_Overrun\<close> says only that it happened, and
  the caller sets \<open>wild_write\<close>.
\<close>

definition parse_command :: "signal list \<Rightarrow> u64 \<Rightarrow> string \<Rightarrow> parsed" where
  "parse_command ss pico_scale line =
     (case split_string (cstr line) 0 MAX_PARTS of None \<Rightarrow> Parts_Overrun | Some parts \<Rightarrow> parse_parts ss pico_scale parts)"

section \<open>What the process writes\<close>

text \<open>
  A VHDL \<open>write\<close> of a time prints nanoseconds, with the picoseconds as a fraction without trailing
  zeros. A read reply has two blanks before the value.
\<close>

definition frac_string :: "nat \<Rightarrow> string" where
  "frac_string m =
     rev (dropWhile (\<lambda>c. c = CHR ''0'')
       [digit_char (m mod 10), digit_char (m div 10 mod 10), digit_char (m div 100)])"

definition print_time :: "u64 \<Rightarrow> string" where
  "print_time p =
     dec_string (unat p div 1000) @ (if unat p mod 1000 = 0 then [] else CHR ''.'' # frac_string (unat p mod 1000)) @ '' ns''"

fun print_cmd :: "signal list \<Rightarrow> cmd \<Rightarrow> string" where
  "print_cmd ss (CMD_ECHO a) = ''. '' @ a"
| "print_cmd ss (CMD_TIME p) = ''t '' @ print_time p"
| "print_cmd ss (CMD_VALUE i p v) = ''v '' @ sig_name (ss ! i) @ '' '' @ print_time p @ '' '' @ v"
| "print_cmd ss (CMD_READ i v) = ''r '' @ sig_name (ss ! i) @ ''  '' @ v"

text \<open>
  The bridge prints its times in the time unit of the simulation, without a unit in a time message and as \<open>ps\<close>
  in a value change; the bench multiplies them by its \<open>pico_scale\<close>. A read reply has one blank before the value.
\<close>

fun print_cmd_vpi :: "signal list \<Rightarrow> cmd \<Rightarrow> string" where
  "print_cmd_vpi ss (CMD_ECHO a) = ''. '' @ a"
| "print_cmd_vpi ss (CMD_TIME p) = ''t '' @ dec_string (unat p)"
| "print_cmd_vpi ss (CMD_VALUE i p v) = ''v '' @ sig_name (ss ! i) @ '' '' @ dec_string (unat p) @ '' ps '' @ v"
| "print_cmd_vpi ss (CMD_READ i v) = ''r '' @ sig_name (ss ! i) @ '' '' @ v"

fun scale_time :: "u64 \<Rightarrow> cmd \<Rightarrow> cmd" where
  "scale_time k (CMD_TIME p) = CMD_TIME (p * k)"
| "scale_time k (CMD_VALUE i p v) = CMD_VALUE i (p * k) v"
| "scale_time k c = c"

definition word_ok :: "string \<Rightarrow> bool" where
  "word_ok w \<longleftrightarrow> w \<noteq> [] \<and> list_all (\<lambda>c. \<not> c_isblank c \<and> c \<noteq> CHR 0x00) w"

fun cmd_ok :: "signal list \<Rightarrow> cmd \<Rightarrow> bool" where
  "cmd_ok ss (CMD_ECHO a) \<longleftrightarrow> word_ok a"
| "cmd_ok ss (CMD_TIME p) \<longleftrightarrow> True"
| "cmd_ok ss (CMD_VALUE i p v) \<longleftrightarrow> i < length ss \<and> word_ok v"
| "cmd_ok ss (CMD_READ i v) \<longleftrightarrow> i < length ss \<and> word_ok v"

text \<open>The table of a bench: distinct names without blanks.\<close>

definition table_ok :: "signal list \<Rightarrow> bool" where
  "table_ok ss \<longleftrightarrow> distinct (map sig_name ss) \<and> list_all (\<lambda>s. word_ok (sig_name s)) ss"

section \<open>Reading back what was written\<close>

lemma lookup_from_nth: "distinct (map sig_name ss) \<Longrightarrow> i < length ss \<Longrightarrow> lookup_from ss k (sig_name (ss ! i)) = Some (k + i)"
proof (induction ss arbitrary: i k)
  case (Cons s ss)
  then show ?case by (cases i) (auto, metis image_eqI nth_mem)
qed simp

lemma sim_lookup_nth: "table_ok ss \<Longrightarrow> i < length ss \<Longrightarrow> sim_lookup_signal ss (sig_name (ss ! i)) = Some i"
  by (simp add: table_ok_def sim_lookup_signal_def lookup_from_nth)

lemma sim_lookup_range: "sim_lookup_signal ss name = Some i \<Longrightarrow> i < length ss"
proof -
  have "lookup_from ss k name = Some i \<Longrightarrow> k \<le> i \<and> i < k + length ss" for k
    by (induction ss arbitrary: k) (fastforce split: if_splits)+
  then show "sim_lookup_signal ss name = Some i \<Longrightarrow> i < length ss" by (fastforce simp: sim_lookup_signal_def)
qed

lemma split_string_blanks: "split_string (CHR '' '' # s) n m = split_string s n m"
  by (simp add: split_string.simps [of "CHR '' '' # s"] split_string.simps [of s] c_isblank_def)

lemma split_string_word:
  assumes "word_ok w" "n < m" "rest = [] \<or> c_isblank (hd rest)"
  shows "split_string (w @ rest) n m = map_option (Cons w) (split_string rest (n + 1) m)"
proof -
  have w: "w \<noteq> []" "\<forall>c\<in>set w. \<not> c_isblank c" using assms(1) by (auto simp: word_ok_def list_all_iff)
  then have "dropWhile c_isblank (w @ rest) = w @ rest" by (cases w) auto
  moreover have "takeWhile (\<lambda>x. \<not> c_isblank x) (w @ rest) = w" "dropWhile (\<lambda>x. \<not> c_isblank x) (w @ rest) = rest"
    using w(2) assms(3) by (cases rest; auto simp: takeWhile_append2 dropWhile_append2)+
  ultimately show ?thesis using w(1) assms(2) by (subst split_string.simps) (simp add: Let_def)
qed

lemma split_string_Nil: "split_string [] n m = Some []"
  by (simp add: split_string.simps)

lemma split_string_sep:
  assumes "word_ok w" "n < m"
  shows "split_string (w @ CHR '' '' # r) n m = map_option (Cons w) (split_string r (n + 1) m)"
  using split_string_word [OF assms, of "CHR '' '' # r"] by (simp add: c_isblank_def split_string_blanks)

lemma split_string_last: "word_ok w \<Longrightarrow> n < m \<Longrightarrow> split_string w n m = Some [w]"
  using split_string_word [of w n m "[]"] by (simp add: split_string_Nil)

lemmas split_string_char = split_string_sep [of "[c]" for c, simplified]
  split_string_sep [of "''ns''", simplified] split_string_sep [of "''ps''", simplified]

lemma word_ok_simps: "word_ok ''ns''" "word_ok ''ps''" "word_ok ''v''" "word_ok ''r''" "word_ok ''t''" "word_ok ''.''"
  by (simp_all add: word_ok_def c_isblank_def)

lemmas split_words = split_string_blanks split_string_word split_string_Nil word_ok_simps

lemma cstr_plain: "list_all (\<lambda>c. c \<noteq> CHR 0x00) s \<Longrightarrow> cstr s = s"
  by (simp add: cstr_def list_all_iff takeWhile_eq_all_conv)

lemma frac_loop_string: "m < 1000 \<Longrightarrow> frac_loop 3 0 (frac_string m) = Some (of_nat m, [])"
proof -
  assume m: "m < 1000"
  define a b c where abc: "a = m div 100" "b = m div 10 mod 10" "c = m mod 10"
  have lt: "a < 10" "b < 10" "c < 10" using m by (auto simp: abc)
  have mm: "m = 100 * a + 10 * b + c" 
    unfolding abc using mult_div_mod_eq [of 10 m] mult_div_mod_eq [of 10 "m div 10"] div_mult2_eq [of m 10 10, simplified] by linarith
  have z: "digit_char d = CHR ''0'' \<longleftrightarrow> d = 0" if "d < 10" for d
  proof
    assume "digit_char d = CHR ''0''"
    then show "d = 0" using digit_char_value [OF that] by (simp del: digit_char_value)
  next
    assume "d = 0"
    then show "digit_char d = CHR ''0''" by (simp add: digit_char_def char_of_def bit_0)
  qed
  have dig: "c_isdigit (digit_char d)" "of_char (digit_char d) - 48 = (d :: nat)" if "d < 10" for d
    using digit_char_value [OF that] by auto
  have fs: "frac_string m = rev (dropWhile (\<lambda>c. c = CHR ''0'') [digit_char c, digit_char b, digit_char a])"
    by (simp only: frac_string_def abc)
  have "frac_loop 3 0 (rev (dropWhile (\<lambda>c. c = CHR ''0'') [digit_char c, digit_char b, digit_char a])) =
    Some (of_nat (100 * a + 10 * b + c), [])"
    using lt by (simp add: z numeral_3_eq_3 dig algebra_simps)
  then show "frac_loop 3 0 (frac_string m) = Some (of_nat m, [])" by (simp only: fs mm [symmetric])
qed

lemma parse_print_time:
  "\<exists>num. print_time p = num @ '' ns'' \<and> word_ok num \<and> parse_time 1 num (Some ''ns'') = Some p"
proof (intro exI conjI)
  let ?q = "unat p div 1000" and ?m = "unat p mod 1000"
  let ?f = "if ?m = 0 then [] else CHR ''.'' # frac_string ?m"
  let ?num = "dec_string ?q @ ?f"
  show "print_time p = ?num @ '' ns''" by (simp add: print_time_def)
  have fd: "c_isdigit c" if "c \<in> set (frac_string ?m)" for c
  proof -
    have "c \<in> set [digit_char (?m mod 10), digit_char (?m div 10 mod 10), digit_char (?m div 100)]"
      using that set_dropWhileD unfolding frac_string_def set_rev by fastforce
    then show ?thesis using digit_char_value [of "?m mod 10"] digit_char_value [of "?m div 10 mod 10"]
        digit_char_value [of "?m div 100"] by auto
  qed
  have nb: "\<not> c_isblank c \<and> c \<noteq> CHR 0x00" if "c_isdigit c" for c
    using that by (auto simp: c_isdigit_def c_isblank_def)
  show "word_ok ?num"
    using fd nb dec_string_digits [of ?q] by (auto simp: word_ok_def list_all_iff dec_string_ne c_isblank_def)
  have "unat p < 2 ^ 64" using unsigned_less [of p] by simp
  then have "?q < 2 ^ 64" by simp
  then have s: "strtoull ?num 10 = (of_nat ?q, ?f)" by (intro strtoull_dec) auto
  have v: "of_nat ?q * 1000 + of_nat ?m = p"
  proof -
    have "of_nat ?q * 1000 + of_nat ?m = (of_nat (?q * 1000 + ?m) :: u64)" by (simp only: of_nat_add of_nat_mult of_nat_numeral)
    also have "\<dots> = p" by (simp only: div_mult_mod_eq word_of_nat_eq_iff of_nat_unat ucast_id)
    finally show ?thesis .
  qed
  have "frac_loop 3 0 (frac_string ?m) = Some (of_nat ?m, [])" by (rule frac_loop_string) simp
  then show "parse_time 1 ?num (Some ''ns'') = Some p"
    unfolding parse_time_def s using v by (cases "?m = 0") simp_all
qed

section \<open>Properties\<close>

lemma parse_print_cmd:
  assumes "table_ok ss" "cmd_ok ss c"
  shows "parse_command ss 1 (print_cmd ss c) = Parsed c"
proof -
  have t: "word_ok (sig_name (ss ! i))" if "i < length ss" for i
    using assms(1) that by (simp add: table_ok_def list_all_iff)
  have plain: "cstr s = s" if "list_all (\<lambda>c. c \<noteq> CHR 0x00) s" for s using that by (rule cstr_plain)
  have wp: "list_all (\<lambda>c. c \<noteq> CHR 0x00) w" if "word_ok w" for w using that by (simp add: word_ok_def list_all_iff)
  note defs = parse_command_def plain wp split_string_sep split_string_last split_string_char word_ok_simps MAX_PARTS_def parse_parts_def Let_def split_string_blanks
  show ?thesis
  proof (cases c)
    case (CMD_ECHO a)
    then show ?thesis using assms(2) by (simp add: defs)
  next
    case (CMD_TIME p)
    obtain num where "print_time p = num @ '' ns''" "word_ok num" "parse_time 1 num (Some ''ns'') = Some p"
      using parse_print_time by blast
    then show ?thesis by (simp add: CMD_TIME defs numeral_3_eq_3)
  next
    case (CMD_VALUE i p v)
    obtain num where "print_time p = num @ '' ns''" "word_ok num" "parse_time 1 num (Some ''ns'') = Some p"
      using parse_print_time by blast
    then show ?thesis using assms t [of i] sim_lookup_nth [of ss i] by (simp add: CMD_VALUE defs eval_nat_numeral)
  next
    case (CMD_READ i v)
    then show ?thesis using assms t [of i] sim_lookup_nth [of ss i] by (simp add: defs eval_nat_numeral)
  qed
qed

definition sample_table :: "signal list" where
  "sample_table =
     [\<lparr>sig_index = 0, sig_name = ''clk'', sig_type = ''std_logic'', sig_value = None, value_len = 0, read_only = True, event = False\<rparr>,
      \<lparr>sig_index = 1, sig_name = ''db.ack'', sig_type = ''std_logic'', sig_value = None, value_len = 0, read_only = False, event = False\<rparr>]"

lemma dec_string_word: "word_ok (dec_string n)"
  using dec_string_digits [of n] by (auto simp: word_ok_def list_all_iff dec_string_ne c_isblank_def c_isdigit_def)

lemma parse_plain_time:
  "parse_time k (dec_string (unat t)) (Some ''ps'') = Some (t * k)" "parse_time k (dec_string (unat t)) None = Some (t * k)"
proof -
  have "unat t < 2 ^ 64" using unsigned_less [of t] by simp
  then show "parse_time k (dec_string (unat t)) (Some ''ps'') = Some (t * k)" "parse_time k (dec_string (unat t)) None = Some (t * k)"
    using strtoull_dec [of "[]" "unat t"] by (simp_all add: parse_time_def)
qed

lemma parse_print_vpi:
  assumes "table_ok ss" "cmd_ok ss c"
  shows "parse_command ss k (print_cmd_vpi ss c) = Parsed (scale_time k c)"
proof -
  have t: "word_ok (sig_name (ss ! i))" if "i < length ss" for i
    using assms(1) that by (simp add: table_ok_def list_all_iff)
  have plain: "cstr s = s" if "list_all (\<lambda>c. c \<noteq> CHR 0x00) s" for s using that by (rule cstr_plain)
  have wp: "list_all (\<lambda>c. c \<noteq> CHR 0x00) w" if "word_ok w" for w using that by (simp add: word_ok_def list_all_iff)
  note defs = parse_command_def plain wp split_string_sep split_string_last split_string_char word_ok_simps MAX_PARTS_def parse_parts_def Let_def
    dec_string_word parse_plain_time
  show ?thesis
  proof (cases c)
    case (CMD_VALUE i p v)
    then show ?thesis using assms t [of i] sim_lookup_nth [of ss i] by (simp add: defs eval_nat_numeral)
  next
    case (CMD_READ i v)
    then show ?thesis using assms t [of i] sim_lookup_nth [of ss i] by (simp add: defs eval_nat_numeral)
  qed (use assms(2) in \<open>simp_all add: defs\<close>)
qed

text \<open>
  C32: every message of the simulator process, an echo, a time, a value change with its time, or a reply
  to a read, is parsed to exactly what was sent. For a VHDL design, with the bench's \<open>pico_scale\<close> 1, times are
  whole picoseconds printed as nanoseconds with up to three decimals; for a Verilog design they are numbers of
  time units of any \<open>pico_scale\<close>, and the time that is parsed is the number times the scale, modulo 2^64.
\<close>

theorem parse_command_roundtrip:
  assumes "table_ok ss" "cmd_ok ss c"
  shows "parse_command ss 1 (print_cmd ss c) = Parsed c \<and> parse_command ss k (print_cmd_vpi ss c) = Parsed (scale_time k c)"
  using assms by (intro conjI parse_print_cmd parse_print_vpi)

theorem parse_command_roundtrip_witness:
  "parse_command sample_table 1 (print_cmd sample_table (CMD_VALUE 1 12500 ''0'')) = Parsed (CMD_VALUE 1 12500 ''0'') \<and>
   parse_command sample_table 1000 (print_cmd_vpi sample_table (CMD_VALUE 1 12500 ''0'')) = Parsed (CMD_VALUE 1 12500000 ''0'')"
proof -
  have "table_ok sample_table" "cmd_ok sample_table (CMD_VALUE 1 12500 ''0'')"
    by (simp_all add: table_ok_def sample_table_def word_ok_def c_isblank_def)
  from parse_command_roundtrip [OF this, of 1000] show ?thesis by simp
qed

text \<open>
  \<open>split_string\<close> stores the start of a part before it compares the count with the size of its array:
  a line of eleven or more parts makes \<open>parse_command\<close> write past the array of ten.
\<close>

theorem parse_command_overruns:
  assumes "length ws > MAX_PARTS" "list_all word_ok ws"
  shows "parse_command ss scale (concat (map (\<lambda>w. w @ '' '') ws)) = Parts_Overrun"
proof -
  have "split_string (concat (map (\<lambda>w. w @ '' '') ws)) n m = None" if "n \<le> m" "n + length ws > m" for n m
    using assms(2) that
  proof (induction ws arbitrary: n)
    case (Cons w ws)
    let ?r = "concat (map (\<lambda>w. w @ '' '') ws)"
    obtain c cs where w: "w = c # cs" "\<not> c_isblank c" using Cons.prems(1) by (cases w) (auto simp: word_ok_def)
    show ?case
    proof (cases "n = m")
      case True
      then show ?thesis using w by (subst split_string.simps) simp
    next
      case False
      then show ?thesis
        using Cons split_string_word [of w n m "CHR '' '' # ?r"] by (simp add: c_isblank_def split_string_blanks)
    qed
  qed simp
  moreover have "cstr (concat (map (\<lambda>w. w @ '' '') ws)) = concat (map (\<lambda>w. w @ '' '') ws)"
    using assms(2) by (intro cstr_plain) (auto simp: list_all_iff word_ok_def)
  ultimately show ?thesis using assms(1) by (simp add: parse_command_def)
qed

theorem parse_command_overruns_witness:
  "parse_command sample_table 1 (concat (map (\<lambda>w. w @ '' '') (replicate 11 ''r''))) = Parts_Overrun"
proof -
  have "length (replicate 11 ''r'') > MAX_PARTS" "list_all word_ok (replicate 11 ''r'')"
    by (simp_all add: MAX_PARTS_def word_ok_simps list_all_iff)
  then show ?thesis by (rule parse_command_overruns)
qed

end
