(* ===== verification/Simulator.thy ===== *)
theory Simulator
  imports Bitvec Sim_Lines Sim_Cmd
begin

text \<open>
  The core of src/sim/sim/simulator.c: a bench drives a VHDL or Verilog simulation that runs as a child
  process. Commands are written to it, its messages update the signal table and the time, and hooks of
  the bench are called on signal events and at target times.

  The child is the sequence of results that reading from it will give (\<open>rd_script\<close>) and the text
  written to it (\<open>pty_out\<close>); it keeps running, so the polls of \<open>check_child_running\<close> change nothing
  (that routine is defined on its own with the result of \<open>waitpid\<close> as a parameter). A pointer to a
  hook is a number, and \<open>hook_of\<close> is the memory the hooks live in; number 0 is \<open>sig_wait\<close>. The type
  \<open>'cb\<close> stands for the callbacks of a bench, and the record can be extended by the bench's own state.
  The text of the messages on the console is not part of the model.
\<close>

section \<open>State\<close>

datatype sim_type = SIM_TYPE_GHDL | SIM_TYPE_IVERILOG

datatype sim_on_exit = SIMEXIT_NONE | SIMEXIT_EXIT | SIMEXIT_ERROR

datatype 'cb callback = Sig_Wait_Cb | User_Cb 'cb

record 'cb sig_hook =
  hk_cb :: "'cb callback"
  hk_signals :: bv
  hk_time :: u64

record 'cb simulator =
  sim_kind :: sim_type
  signals :: "signal list"
  on_exit :: sim_on_exit
  child_running :: bool
  exit_status :: int
  picos :: u64
  pico_scale :: u64
  lr :: line_reader
  rd_script :: "read_result list"
  pty_out :: string
  io_error :: bool
  any_event :: bool
  dirty_writes :: bool
  events :: bv
  calling_hooks :: bool
  hook_of :: "nat \<Rightarrow> 'cb sig_hook"
  hooks :: "nat list"
  immediate_hooks :: "nat list"
  sig_wait_occurred :: bool
  echo_arg :: u16
  wild_write :: bool

text \<open>\<open>wild_write\<close> records that an array has been overrun; what follows then means nothing.\<close>

type_synonym ('cb, 'm) sim = "('cb, 'm) simulator_scheme"
type_synonym ('cb, 'm) client = "'cb \<Rightarrow> nat \<Rightarrow> ('cb, 'm) simulator_scheme \<Rightarrow> int \<times> ('cb, 'm) simulator_scheme"

definition sig_wait_id :: nat where
  "sig_wait_id = 0"

definition set_hook_time :: "nat \<Rightarrow> u64 \<Rightarrow> ('cb, 'm) sim \<Rightarrow> ('cb, 'm) sim" where
  "set_hook_time h t s = s\<lparr>hook_of := (hook_of s)(h := (hook_of s h)\<lparr>hk_time := t\<rparr>)\<rparr>"

text \<open>
  The signal array ends with an entry without a name and a value, and the functions below accept its
  index too: their check is \<open>sig_index > num_signals\<close>.
\<close>

definition sentinel :: signal where
  "sentinel = \<lparr>sig_index = 0, sig_name = ''(null)'', sig_type = [], sig_value = None, value_len = 0, read_only = False, event = False\<rparr>"

definition sig_at :: "('cb, 'm) sim \<Rightarrow> nat \<Rightarrow> signal" where
  "sig_at s i = (if i < length (signals s) then signals s ! i else sentinel)"

section \<open>Handling messages\<close>

text \<open>The first value sets the length; later ones are cut, or padded with NULs, to it.\<close>

definition signal_set_value :: "signal \<Rightarrow> string \<Rightarrow> signal" where
  "signal_set_value sg val =
     (let n = (case sig_value sg of None \<Rightarrow> length val | Some _ \<Rightarrow> value_len sg)
      in sg\<lparr>sig_value := Some (map c_toupper (take n (val @ replicate n CHR 0x00))), value_len := n\<rparr>)"

definition upd_signal :: "nat \<Rightarrow> (signal \<Rightarrow> signal) \<Rightarrow> ('cb, 'm) sim \<Rightarrow> ('cb, 'm) sim" where
  "upd_signal i f s = s\<lparr>signals := (signals s)[i := f (signals s ! i)]\<rparr>"

fun sim_handle_cmd :: "cmd \<Rightarrow> ('cb, 'm) sim \<Rightarrow> ('cb, 'm) sim" where
  "sim_handle_cmd (CMD_ECHO a) s = s"
| "sim_handle_cmd (CMD_TIME p) s = s\<lparr>picos := p\<rparr>"
| "sim_handle_cmd (CMD_VALUE i p v) s =
     (let s1 = upd_signal i (\<lambda>sg. (signal_set_value sg v)\<lparr>event := True\<rparr>) s
      in s1\<lparr>picos := p, events := bv_set (events s1) (sig_index (signals s1 ! i)) True, any_event := True\<rparr>)"
| "sim_handle_cmd (CMD_READ i v) s = upd_signal i (\<lambda>sg. signal_set_value sg v) s"

definition sim_clear_events :: "('cb, 'm) sim \<Rightarrow> ('cb, 'm) sim" where
  "sim_clear_events s =
     s\<lparr>signals := map (\<lambda>sg. sg\<lparr>event := False\<rparr>) (signals s), any_event := False, events := bv_clear (events s)\<rparr>"

section \<open>Hooks\<close>

definition empty_bv :: bv where
  "empty_bv = \<lparr>bv_n = 0, bv_max_i = 0, bv_vals = replicate BITVEC_SIZE 0\<rparr>"

definition sim_hook_init :: "nat \<Rightarrow> 'cb callback \<Rightarrow> ('cb, 'm) sim \<Rightarrow> int \<times> ('cb, 'm) sim" where
  "sim_hook_init h c s =
     (let (r, b) = bv_init empty_bv (length (signals s))
      in (if r \<noteq> 0 then - 1 else 0, s\<lparr>hook_of := (hook_of s)(h := \<lparr>hk_cb = c, hk_signals = b, hk_time = 0\<rparr>)\<rparr>))"

text \<open>Before the first hook without a time or with a later one.\<close>

fun hook_insert :: "(nat \<Rightarrow> u64) \<Rightarrow> nat \<Rightarrow> nat list \<Rightarrow> nat list" where
  "hook_insert tm h [] = [h]"
| "hook_insert tm h (i # is) = (if tm i = 0 \<or> tm i > tm h then h # i # is else i # hook_insert tm h is)"

definition hook_time :: "('cb, 'm) sim \<Rightarrow> nat \<Rightarrow> u64" where
  "hook_time s h = hk_time (hook_of s h)"

definition sim_hook_add :: "nat \<Rightarrow> ('cb, 'm) sim \<Rightarrow> ('cb, 'm) sim" where
  "sim_hook_add h s =
     (if \<not> calling_hooks s \<and> hook_time s h \<noteq> 0 \<and> hooks s \<noteq> []
      then s\<lparr>hooks := hook_insert (hook_time s) h (hooks s)\<rparr>
      else s\<lparr>hooks := dl_append (hooks s) h\<rparr>)"

definition sim_hook_remove :: "nat \<Rightarrow> ('cb, 'm) sim \<Rightarrow> ('cb, 'm) sim" where
  "sim_hook_remove h s = s\<lparr>hooks := dl_delete (hooks s) h\<rparr>"

definition sim_immediate_hook_add :: "nat \<Rightarrow> ('cb, 'm) sim \<Rightarrow> ('cb, 'm) sim" where
  "sim_immediate_hook_add h s = s\<lparr>immediate_hooks := dl_append (immediate_hooks s) h\<rparr>"

definition next_hook_delay :: "('cb, 'm) sim \<Rightarrow> u64" where
  "next_hook_delay s =
     (if hooks s \<noteq> [] \<and> hook_time s (hd (hooks s)) \<noteq> 0 \<and> hook_time s (hd (hooks s)) > picos s
      then hook_time s (hd (hooks s)) - picos s else 0)"

definition sig_wait_cb :: "('cb, 'm) sim \<Rightarrow> int \<times> ('cb, 'm) sim" where
  "sig_wait_cb s = (0, s\<lparr>sig_wait_occurred := True\<rparr>)"

definition run_cb :: "('cb, 'm) client \<Rightarrow> nat \<Rightarrow> ('cb, 'm) sim \<Rightarrow> int \<times> ('cb, 'm) sim" where
  "run_cb call h s = (case hk_cb (hook_of s h) of Sig_Wait_Cb \<Rightarrow> sig_wait_cb s | User_Cb c \<Rightarrow> call c h s)"

text \<open>
  One round of callbacks. The list is detached, so \<open>hooks\<close> collects what is added meanwhile, and a hook
  whose time was changed by its callback is moved there too. The result is the rest of the detached
  list and the state. The immediate hooks are called as the list stands after the timed ones: the C loop walks the
  list while it calls them, so an immediate hook that added another would have that one called too, but the only
  immediate hooks of the benches are those that cancel the drop of an acknowledge, and they add none.
\<close>

definition hook_due :: "('cb, 'm) sim \<Rightarrow> nat \<Rightarrow> bool" where
  "hook_due s h \<longleftrightarrow>
     hook_time s h \<noteq> 0 \<and> hook_time s h \<le> picos s \<or> any_event s \<and> bv_and_reduce (events s) (hk_signals (hook_of s h))"

definition disable_past :: "nat \<Rightarrow> ('cb, 'm) sim \<Rightarrow> ('cb, 'm) sim" where
  "disable_past h s = (if hook_time s h \<le> picos s then set_hook_time h 0 s else s)"

fun fire_loop :: "('cb, 'm) client \<Rightarrow> nat list \<Rightarrow> ('cb, 'm) sim \<Rightarrow> nat list \<times> ('cb, 'm) sim" where
  "fire_loop call [] s = ([], s)"
| "fire_loop call (h # hs) s =
     (if hook_due s h then
        (let (res, s1) = run_cb call h s in
         if res \<noteq> 0 then fire_loop call hs (set_hook_time h 0 s1)
         else let s2 = disable_past h s1 in
           if hook_time s2 h \<noteq> hook_time s h then fire_loop call hs (s2\<lparr>hooks := dl_append (hooks s2) h\<rparr>)
           else let (kept, s3) = fire_loop call hs s2 in (h # kept, s3))
      else let (kept, s3) = fire_loop call hs s in (h # kept, s3))"

definition sim_fire_events :: "('cb, 'm) client \<Rightarrow> ('cb, 'm) sim \<Rightarrow> ('cb, 'm) sim" where
  "sim_fire_events call s =
     (let (kept, s1) = fire_loop call (hooks s) (s\<lparr>hooks := [], calling_hooks := True\<rparr>);
          added = hooks s1;
          s2 = fold sim_hook_add added (s1\<lparr>calling_hooks := False, hooks := kept\<rparr>);
          s3 = fold (\<lambda>h s. snd (run_cb call h s)) (immediate_hooks s2) s2
      in s3\<lparr>immediate_hooks := []\<rparr>)"

section \<open>Talking to the process\<close>

definition sim_write_pty :: "string \<Rightarrow> ('cb, 'm) sim \<Rightarrow> ('cb, 'm) sim" where
  "sim_write_pty txt s = s\<lparr>pty_out := pty_out s @ txt\<rparr>"

datatype wait_result = Wait_Error | Still_Running | Exited int | Signalled | Other_Status

text \<open>\<open>Inl\<close>: the bench exits with this status.\<close>

definition check_child_running :: "wait_result \<Rightarrow> ('cb, 'm) sim \<Rightarrow> int + bool \<times> ('cb, 'm) sim" where
  "check_child_running wr s =
     (if \<not> child_running s then Inr (False, s)
      else case wr of
        Wait_Error \<Rightarrow> Inr (True, s)
      | Still_Running \<Rightarrow> Inr (True, s)
      | Exited st \<Rightarrow>
          (if on_exit s = SIMEXIT_EXIT \<or> st \<noteq> 0 \<and> on_exit s = SIMEXIT_ERROR then Inl st
           else Inr (False, s\<lparr>child_running := False, exit_status := st\<rparr>))
      | Signalled \<Rightarrow>
          (if on_exit s = SIMEXIT_EXIT \<or> on_exit s = SIMEXIT_ERROR then Inl 1
           else Inr (False, s\<lparr>child_running := False\<rparr>))
      | Other_Status \<Rightarrow> Inr (False, s\<lparr>child_running := False\<rparr>))"

text \<open>Every echo carries the next number; what comes back is compared as text.\<close>

definition send_echo :: "('cb, 'm) sim \<Rightarrow> ('cb, 'm) sim" where
  "send_echo s = sim_write_pty (''. '' @ dec_string (unat (echo_arg s)) @ [CHR 0x0A]) (s\<lparr>echo_arg := echo_arg s + 1\<rparr>)"

lemma sim_handle_cmd_reader [simp]:
  "lr (sim_handle_cmd c s) = lr s" "rd_script (sim_handle_cmd c s) = rd_script s"
  "lr (send_echo s) = lr s" "rd_script (send_echo s) = rd_script s"
  by (cases c; simp add: upd_signal_def Let_def send_echo_def sim_write_pty_def)+

lemma upd_signal_reader [simp]: "lr (upd_signal i f s) = lr s" "rd_script (upd_signal i f s) = rd_script s"
  by (simp_all add: upd_signal_def)

function idle_loop :: "u16 \<Rightarrow> ('cb, 'm) sim \<Rightarrow> ('cb, 'm) sim" where
  "idle_loop sent s =
     (case line_reader_next (lr s) (rd_script s) of
        (Eof, l', sc') \<Rightarrow> s\<lparr>lr := l', rd_script := sc'\<rparr>
      | (Io_Error, l', sc') \<Rightarrow> s\<lparr>lr := l', rd_script := sc', io_error := True\<rparr>
      | (Line line, l', sc') \<Rightarrow>
          (let s1 = s\<lparr>lr := l', rd_script := sc'\<rparr> in
           case parse_command (signals s1) (pico_scale s1) line of
             Parts_Overrun \<Rightarrow> s1\<lparr>wild_write := True\<rparr>
           | Bad_Cmd \<Rightarrow> idle_loop sent s1
           | Parsed c \<Rightarrow>
               (case c of
                  CMD_ECHO a \<Rightarrow> if a = dec_string (unat sent) then s1 else idle_loop sent s1
                | _ \<Rightarrow> idle_loop (echo_arg s1) (sim_handle_cmd c (send_echo s1)))))"
  by auto
termination
  by (relation "measure (\<lambda>(k, s). reader_size (lr s) (rd_script s))")
    (auto dest: line_reader_next_size [OF sym] simp: Let_def)

declare idle_loop.simps [simp del]

definition sim_go_to_idle :: "('cb, 'm) sim \<Rightarrow> ('cb, 'm) sim" where
  "sim_go_to_idle s = (if io_error s then s else idle_loop (echo_arg s) (send_echo s))"

definition sim_idle :: "('cb, 'm) client \<Rightarrow> ('cb, 'm) sim \<Rightarrow> ('cb, 'm) sim" where
  "sim_idle call s = sim_clear_events (sim_fire_events call (sim_go_to_idle s))"

fun startup_reads :: "nat \<Rightarrow> signal list \<Rightarrow> ('cb, 'm) sim \<Rightarrow> ('cb, 'm) sim" where
  "startup_reads i [] s = s"
| "startup_reads i (sg # sgs) s =
     (let s1 = sim_write_pty (''r '' @ sig_name sg @ [CHR 0x0A]) s
      in startup_reads (i + 1) sgs (if (i + 1) mod 10 = 0 then sim_go_to_idle s1 else s1))"

definition sim_startup :: "('cb, 'm) sim \<Rightarrow> ('cb, 'm) sim" where
  "sim_startup s = sim_clear_events (sim_go_to_idle (startup_reads 0 (signals s) s))"

section \<open>Waiting\<close>

definition CMD_BUF_LEN :: nat where
  "CMD_BUF_LEN = 256"

text \<open>One wait of at most \<open>d\<close> picoseconds, cut short by a hook's target time.\<close>

definition wait_delay :: "u64 \<Rightarrow> ('cb, 'm) sim \<Rightarrow> u64" where
  "wait_delay d s =
     (let n = next_hook_delay s; delay = (if n = 0 \<or> n > d then d else n)
      in (delay + pico_scale s - 1) div pico_scale s)"

definition wait_cmd :: "u64 \<Rightarrow> ('cb, 'm) sim \<Rightarrow> string" where
  "wait_cmd d s =
     ''wait '' @ dec_string (unat (wait_delay d s)) @ (if sim_kind s = SIM_TYPE_IVERILOG then [] else '' ps'') @ [CHR 0x0A]"

definition sim_wait_once :: "('cb, 'm) client \<Rightarrow> u64 \<Rightarrow> ('cb, 'm) sim \<Rightarrow> ('cb, 'm) sim" where
  "sim_wait_once call d s = (if calling_hooks s then s else sim_idle call (sim_write_pty (wait_cmd d s) s))"

text \<open>The forced wait repeats until the time is reached, and for ever if it never is.\<close>

partial_function (option) wait_until ::
  "('cb, 'm) client \<Rightarrow> u64 \<Rightarrow> ('cb, 'm) sim \<Rightarrow> ('cb, 'm) sim option" where
  "wait_until call target s =
     (if picos s < target then wait_until call target (sim_wait_once call (target - picos s) s) else Some s)"

definition sim_wait_time :: "('cb, 'm) client \<Rightarrow> u64 \<Rightarrow> bool \<Rightarrow> ('cb, 'm) sim \<Rightarrow> ('cb, 'm) sim option" where
  "sim_wait_time call d force s =
     (if calling_hooks s then Some s
      else if force then wait_until call (picos s + d) s
      else Some (sim_wait_once call d s))"

definition sim_wait :: "('cb, 'm) client \<Rightarrow> ('cb, 'm) sim \<Rightarrow> ('cb, 'm) sim" where
  "sim_wait call s =
     (if calling_hooks s then s
      else let target = next_hook_delay s in
        if target \<noteq> 0 then sim_wait_once call target s
        else sim_idle call (sim_write_pty (''wait'' @ [CHR 0x0A]) s))"

definition sim_wait_clk_edge :: "('cb, 'm) client \<Rightarrow> bool \<Rightarrow> ('cb, 'm) sim \<Rightarrow> ('cb, 'm) sim" where
  "sim_wait_clk_edge call rising s =
     (if calling_hooks s then s
      else sim_idle call (sim_write_pty ((if rising then ''clkwait r'' else ''clkwait f'') @ [CHR 0x0A]) s))"

partial_function (option) wait_sig :: "('cb, 'm) client \<Rightarrow> ('cb, 'm) sim \<Rightarrow> ('cb, 'm) sim option" where
  "wait_sig call s = (if sig_wait_occurred s then Some s else wait_sig call (sim_wait call s))"

definition watch_signal :: "nat \<Rightarrow> bool \<Rightarrow> nat \<Rightarrow> ('cb, 'm) sim \<Rightarrow> ('cb, 'm) sim" where
  "watch_signal h on i s =
     s\<lparr>hook_of := (hook_of s)(h := (hook_of s h)\<lparr>hk_signals := bv_set (hk_signals (hook_of s h)) i on\<rparr>)\<rparr>"

definition sim_wait_signal :: "('cb, 'm) client \<Rightarrow> nat \<Rightarrow> ('cb, 'm) sim \<Rightarrow> ('cb, 'm) sim option" where
  "sim_wait_signal call i s =
     (if calling_hooks s \<or> i > length (signals s) then Some s
      else map_option
        (\<lambda>s'. watch_signal sig_wait_id False i (sim_hook_remove sig_wait_id (s'\<lparr>sig_wait_occurred := False\<rparr>)))
        (wait_sig call (sim_hook_add sig_wait_id (watch_signal sig_wait_id True i s))))"

section \<open>Writing signals\<close>

definition conv_char :: "sim_type \<Rightarrow> char \<Rightarrow> char" where
  "conv_char k c =
     (case k of SIM_TYPE_GHDL \<Rightarrow> c_toupper c
      | SIM_TYPE_IVERILOG \<Rightarrow>
          if c = CHR ''H'' then CHR ''1'' else if c = CHR ''L'' then CHR ''0''
          else if c = CHR ''U'' \<or> c = CHR ''W'' then CHR ''x'' else c_tolower c)"

text \<open>From the end of the command back to its last blank.\<close>

definition conv_tail :: "(char \<Rightarrow> char) \<Rightarrow> string \<Rightarrow> string" where
  "conv_tail f t =
     (let k = length (takeWhile (\<lambda>c. c \<noteq> CHR '' '') (rev t))
      in take (length t - k) t @ map f (drop (length t - k) t))"

definition sim_set :: "nat \<Rightarrow> string \<Rightarrow> ('cb, 'm) sim \<Rightarrow> int \<times> ('cb, 'm) sim" where
  "sim_set i val s =
     (if i > length (signals s) then (- 1, s)
      else let sg = sig_at s i in
        if read_only sg then (- 1, s)
        else if length val \<noteq> value_len sg then (- 1, s)
        else let cmd = ''w '' @ sig_name sg @ '' '' @ val @ [CHR 0x0A] in
          if length cmd \<ge> CMD_BUF_LEN then (0, s\<lparr>wild_write := True\<rparr>)
          else (0, (sim_write_pty (conv_tail (conv_char (sim_kind s)) cmd) s)\<lparr>dirty_writes := True\<rparr>))"

text \<open>The bits of a value, most significant first; a shift distance counts modulo 32.\<close>

definition bits_string :: "nat \<Rightarrow> u32 \<Rightarrow> string" where
  "bits_string n v = map (\<lambda>i. if bit v (i mod 32) then CHR ''1'' else CHR ''0'') (rev [0..<n])"

definition sim_seti :: "nat \<Rightarrow> u32 \<Rightarrow> ('cb, 'm) sim \<Rightarrow> int \<times> ('cb, 'm) sim" where
  "sim_seti i val s =
     (if i > length (signals s) then (- 1, s)
      else let sg = sig_at s i in
        if read_only sg then (- 1, s)
        else let cmd = ''w '' @ sig_name sg @ '' '' @ bits_string (value_len sg) val @ [CHR 0x0A] in
          if length cmd > CMD_BUF_LEN then (0, s\<lparr>wild_write := True\<rparr>)
          else (0, (sim_write_pty cmd s)\<lparr>dirty_writes := True\<rparr>))"

definition sim_set_X :: "nat \<Rightarrow> ('cb, 'm) sim \<Rightarrow> int \<times> ('cb, 'm) sim" where
  "sim_set_X i s =
     (if i > length (signals s) then (- 1, s)
      else if value_len (sig_at s i) > 64 then (0, s\<lparr>wild_write := True\<rparr>)
      else sim_set i (replicate (value_len (sig_at s i)) CHR ''X'') s)"

definition sim_set_all :: "nat \<Rightarrow> char \<Rightarrow> ('cb, 'm) sim \<Rightarrow> int \<times> ('cb, 'm) sim" where
  "sim_set_all i c s =
     (if i > length (signals s) then (- 1, s) else sim_set i (replicate (value_len (sig_at s i)) c) s)"

section \<open>Reading signals\<close>

definition refresh :: "('cb, 'm) client \<Rightarrow> ('cb, 'm) sim \<Rightarrow> ('cb, 'm) sim" where
  "refresh call s =
     (if \<not> calling_hooks s \<and> dirty_writes s then sim_idle call (s\<lparr>dirty_writes := False\<rparr>) else s)"

definition sim_get :: "('cb, 'm) client \<Rightarrow> nat \<Rightarrow> ('cb, 'm) sim \<Rightarrow> string option \<times> ('cb, 'm) sim" where
  "sim_get call i s =
     (if i > length (signals s) then (None, s)
      else let s1 = refresh call s in (sig_value (sig_at s1 i), s1))"

fun bits_value :: "u32 \<Rightarrow> string \<Rightarrow> u32 option" where
  "bits_value v [] = Some v"
| "bits_value v (c # cs) =
     (if c = CHR ''0'' \<or> c = CHR ''L'' then bits_value (push_bit 1 v) cs
      else if c = CHR ''1'' \<or> c = CHR ''H'' then bits_value (push_bit 1 v OR 1) cs
      else None)"

definition sim_geti_check :: "('cb, 'm) client \<Rightarrow> nat \<Rightarrow> ('cb, 'm) sim \<Rightarrow> u32 option \<times> ('cb, 'm) sim" where
  "sim_geti_check call i s =
     (if i > length (signals s) then (None, s)
      else let s1 = refresh call s; sg = sig_at s1 i
        in (case sig_value sg of None \<Rightarrow> Some 0 | Some val \<Rightarrow> bits_value 0 (take (value_len sg) val), s1))"

definition sim_geti :: "('cb, 'm) client \<Rightarrow> nat \<Rightarrow> ('cb, 'm) sim \<Rightarrow> u32 \<times> ('cb, 'm) sim" where
  "sim_geti call i s =
     (case sim_geti_check call i s of (None, s1) \<Rightarrow> (0, s1) | (Some v, s1) \<Rightarrow> (v, s1))"

definition sim_force_read :: "('cb, 'm) client \<Rightarrow> nat \<Rightarrow> ('cb, 'm) sim \<Rightarrow> ('cb, 'm) sim" where
  "sim_force_read call i s =
     (if i > length (signals s) then s
      else sim_idle call (sim_write_pty (''r '' @ sig_name (sig_at s i) @ [CHR 0x0A]) s))"

section \<open>Signals inside a callback\<close>

text \<open>While hooks are called, reading a signal does not talk to the process.\<close>

definition geti_check :: "nat \<Rightarrow> ('cb, 'm) sim \<Rightarrow> u32 option" where
  "geti_check i s =
     (if i > length (signals s) then None
      else case sig_value (sig_at s i) of None \<Rightarrow> Some 0 | Some v \<Rightarrow> bits_value 0 (take (value_len (sig_at s i)) v))"

definition geti :: "nat \<Rightarrow> ('cb, 'm) sim \<Rightarrow> u32" where
  "geti i s = (case geti_check i s of None \<Rightarrow> 0 | Some v \<Rightarrow> v)"

lemma geti_in_callback:
  "calling_hooks s \<Longrightarrow> sim_geti_check call i s = (geti_check i s, s)"
  "calling_hooks s \<Longrightarrow> sim_geti call i s = (geti i s, s)"
  by (simp_all add: sim_geti_check_def sim_geti_def geti_check_def geti_def refresh_def Let_def split: option.split)

definition seti :: "nat \<Rightarrow> u32 \<Rightarrow> ('cb, 'm) sim \<Rightarrow> ('cb, 'm) sim" where
  "seti i v s = snd (sim_seti i v s)"

definition set_all :: "nat \<Rightarrow> char \<Rightarrow> ('cb, 'm) sim \<Rightarrow> ('cb, 'm) sim" where
  "set_all i c s = snd (sim_set_all i c s)"

end
