(* ===== verification/Sim_Hooks.thy ===== *)
theory Sim_Hooks
  imports Simulator
begin

text \<open>
  The list of hooks of a simulator: distinct, the hooks with a target time in front in increasing order,
  and after a round of callbacks no target in the past. The locale \<open>hook_client\<close> states what the
  callbacks of a bench may do, after the comment on sig_hooks in simulator.h; the lemmas in it hold for
  every such bench.
\<close>

section \<open>Order of the list\<close>

definition before :: "(nat \<Rightarrow> u64) \<Rightarrow> nat \<Rightarrow> nat \<Rightarrow> bool" where
  "before tm a b \<longleftrightarrow> tm b = 0 \<or> tm a \<noteq> 0 \<and> tm a \<le> tm b"

definition hook_list_ok :: "('cb, 'm) sim \<Rightarrow> bool" where
  "hook_list_ok s \<longleftrightarrow> distinct (hooks s) \<and> sorted_wrt (before (hook_time s)) (hooks s)"

definition future :: "('cb, 'm) sim \<Rightarrow> nat \<Rightarrow> bool" where
  "future s h \<longleftrightarrow> hook_time s h = 0 \<or> picos s < hook_time s h"

lemma hook_time_simps [simp]:
  "hook_time (set_hook_time h t s) = (hook_time s)(h := t)"
  "hook_time (s\<lparr>hooks := l\<rparr>) = hook_time s"
  "hook_time (s\<lparr>calling_hooks := b\<rparr>) = hook_time s"
  "hook_time (s\<lparr>immediate_hooks := l\<rparr>) = hook_time s"
  by (auto simp: hook_time_def set_hook_time_def)

lemma set_hook_time_simps [simp]:
  "hooks (set_hook_time h t s) = hooks s" "calling_hooks (set_hook_time h t s) = calling_hooks s"
  "picos (set_hook_time h t s) = picos s" "immediate_hooks (set_hook_time h t s) = immediate_hooks s"
  by (simp_all add: set_hook_time_def)

lemma disable_past_simps [simp]:
  "hooks (disable_past h s) = hooks s" "calling_hooks (disable_past h s) = calling_hooks s"
  "picos (disable_past h s) = picos s" "k \<noteq> h \<Longrightarrow> hook_time (disable_past h s) k = hook_time s k"
  by (simp_all add: disable_past_def)

lemma disable_past_future: "future (disable_past h s) h"
  by (auto simp: disable_past_def future_def not_le)

lemma set_hook_insert [simp]: "set (hook_insert tm h hs) = insert h (set hs)"
  by (induction hs) auto

lemma hook_insert_distinct: "distinct (h # hs) \<Longrightarrow> distinct (hook_insert tm h hs)"
  by (induction hs) auto

lemma hook_insert_sorted:
  "tm h \<noteq> 0 \<Longrightarrow> sorted_wrt (before tm) hs \<Longrightarrow> sorted_wrt (before tm) (hook_insert tm h hs)"
proof (induction hs)
  case (Cons i hs)
  then show ?case by (auto simp: before_def)
qed simp

lemma sim_hook_add_simps [simp]:
  "set (hooks (sim_hook_add h s)) = insert h (set (hooks s))" "calling_hooks (sim_hook_add h s) = calling_hooks s"
  "picos (sim_hook_add h s) = picos s" "hook_time (sim_hook_add h s) = hook_time s"
  "immediate_hooks (sim_hook_add h s) = immediate_hooks s" "hook_of (sim_hook_add h s) = hook_of s"
  "simulator.more (sim_hook_add h s) = simulator.more s"
  by (auto simp: sim_hook_add_def dl_append_def hook_time_def)

lemma sim_hook_add_ok:
  "hook_list_ok s \<Longrightarrow> h \<notin> set (hooks s) \<Longrightarrow> \<not> calling_hooks s \<Longrightarrow> hook_list_ok (sim_hook_add h s)"
proof -
  assume ok: "hook_list_ok s" "h \<notin> set (hooks s)" "\<not> calling_hooks s"
  show ?thesis
  proof (cases "hook_time s h \<noteq> 0 \<and> hooks s \<noteq> []")
    case True
    then have "hooks (sim_hook_add h s) = hook_insert (hook_time s) h (hooks s)"
      using ok(3) by (simp add: sim_hook_add_def)
    then show ?thesis
      using ok True hook_insert_distinct [of h "hooks s"] hook_insert_sorted [of "hook_time s" h "hooks s"]
      by (simp add: hook_list_ok_def)
  next
    case False
    then have "hooks (sim_hook_add h s) = hooks s @ [h]" using ok(3) by (auto simp: sim_hook_add_def dl_append_def)
    then show ?thesis using ok False by (auto simp: hook_list_ok_def sorted_wrt_append before_def)
  qed
qed

lemma sim_hook_remove_ok: "hook_list_ok s \<Longrightarrow> hook_list_ok (sim_hook_remove h s)"
proof -
  assume "hook_list_ok s"
  moreover have "sorted_wrt P xs \<Longrightarrow> sorted_wrt P (remove1 x xs)" for P and x :: nat and xs
    by (induction xs) (auto dest: notin_set_remove1)
  ultimately show ?thesis by (simp add: hook_list_ok_def sim_hook_remove_def dl_delete_def)
qed

text \<open>With the list in order and no target in the past, the head decides how long to sleep.\<close>

lemma next_hook_delay_least:
  assumes "hook_list_ok s" "\<forall>h\<in>set (hooks s). future s h"
  shows "next_hook_delay s = 0 \<longleftrightarrow> (\<forall>h\<in>set (hooks s). hook_time s h = 0)"
    and "h \<in> set (hooks s) \<Longrightarrow> hook_time s h \<noteq> 0 \<Longrightarrow> picos s + next_hook_delay s \<le> hook_time s h"
proof -
  have z: "b - a \<noteq> 0" if "a < b" for a b :: u64 using that by simp
  show "next_hook_delay s = 0 \<longleftrightarrow> (\<forall>h\<in>set (hooks s). hook_time s h = 0)"
    using assms z by (cases "hooks s") (auto simp: next_hook_delay_def hook_list_ok_def future_def before_def)
  show "h \<in> set (hooks s) \<Longrightarrow> hook_time s h \<noteq> 0 \<Longrightarrow> picos s + next_hook_delay s \<le> hook_time s h"
    using assms by (cases "hooks s") (auto simp: next_hook_delay_def hook_list_ok_def future_def before_def)
qed

section \<open>Clients\<close>

text \<open>
  \<open>inv L s\<close> is the client's own invariant when \<open>L\<close> is the set of scheduled hooks. A callback may
  schedule hooks that are not scheduled yet, in the future, and change the time of its own hook; an
  immediate hook (\<open>imm\<close>) may also remove hooks. The simulated time stays below 2^63 ps (106 days).
\<close>

locale hook_client =
  fixes call :: "('cb, 'm) client" and inv :: "nat set \<Rightarrow> ('cb, 'm) sim \<Rightarrow> bool" and imm :: "nat \<Rightarrow> bool"
  assumes cb_step:
    "inv L s \<Longrightarrow> h \<in> L \<Longrightarrow> set (hooks s) \<subseteq> L \<Longrightarrow> calling_hooks s \<Longrightarrow> picos s < 2 ^ 63 \<Longrightarrow> run_cb call h s = (res, s') \<Longrightarrow>
     calling_hooks s' \<and> picos s' = picos s \<and>
     (\<exists>new. hooks s' = hooks s @ new \<and> distinct new \<and> set new \<inter> L = {} \<and> (\<forall>k\<in>set new. future s' k) \<and>
        (\<forall>k\<in>L - {h}. hook_time s' k = hook_time s k) \<and>
        (if res \<noteq> 0 then inv (L \<union> set new - {h}) (set_hook_time h 0 s') else inv (L \<union> set new) (disable_past h s')))"
    and imm_step:
    "inv (set (hooks s)) s \<Longrightarrow> hook_list_ok s \<Longrightarrow> (\<forall>k\<in>set (hooks s). future s k) \<Longrightarrow> \<not> calling_hooks s \<Longrightarrow> imm h \<Longrightarrow>
     run_cb call h s = (res, s') \<Longrightarrow>
     inv (set (hooks s')) s' \<and> hook_list_ok s' \<and> (\<forall>k\<in>set (hooks s'). future s' k) \<and> \<not> calling_hooks s'"
    and inv_imm: "inv L s \<Longrightarrow> h \<in> set (immediate_hooks s) \<Longrightarrow> imm h"
    and inv_frame:
    "inv L s \<Longrightarrow> hook_of s' = hook_of s \<Longrightarrow> set (immediate_hooks s') \<subseteq> set (immediate_hooks s) \<Longrightarrow>
     simulator.more s' = simulator.more s \<Longrightarrow> inv L s'"
begin

lemma inv_updates [simp]:
  "inv L (s\<lparr>hooks := l\<rparr>) \<longleftrightarrow> inv L s" "inv L (s\<lparr>calling_hooks := b\<rparr>) \<longleftrightarrow> inv L s"
  "inv L s \<Longrightarrow> inv L (s\<lparr>immediate_hooks := []\<rparr>)"
  by (auto intro: inv_frame)


definition loop_post :: "nat list \<Rightarrow> nat list \<Rightarrow> ('cb, 'm) sim \<Rightarrow> nat list \<Rightarrow> ('cb, 'm) sim \<Rightarrow> bool" where
  "loop_post K hs s kept s' \<longleftrightarrow>
     distinct (K @ kept @ hooks s') \<and> inv (set K \<union> set kept \<union> set (hooks s')) s' \<and> calling_hooks s' \<and>
     picos s' = picos s \<and> set kept \<subseteq> set hs \<and> (\<forall>P. sorted_wrt P hs \<longrightarrow> sorted_wrt P kept) \<and>
     (\<forall>k\<in>set K \<union> set kept. hook_time s' k = hook_time s k) \<and> (\<forall>k\<in>set kept \<union> set (hooks s'). future s' k)"

lemma loop_post_drop:
  assumes "loop_post K hs s1 kept s'" "picos s1 = picos s" "\<forall>k\<in>set K \<union> set hs. hook_time s1 k = hook_time s k"
  shows "loop_post K (h # hs) s kept s'"
  using assms unfolding loop_post_def by auto

lemma loop_post_keep:
  assumes "loop_post (K @ [h]) hs s1 kept s'" "picos s1 = picos s" "\<forall>k\<in>insert h (set K \<union> set hs). hook_time s1 k = hook_time s k"
    "future s1 h"
  shows "loop_post K (h # hs) s (h # kept) s'"
proof -
  have "hook_time s' h = hook_time s1 h" "picos s' = picos s1" using assms(1) by (simp_all add: loop_post_def)
  then have "future s' h" using assms(4) by (simp add: future_def)
  moreover have "set K \<union> set (h # kept) \<union> set (hooks s') = set (K @ [h]) \<union> set kept \<union> set (hooks s')" by auto
  ultimately show ?thesis
    using assms unfolding loop_post_def by (auto simp del: set_append) (simp_all add: subset_iff)
qed

lemma fire_loop_ok:
  assumes "distinct (K @ hs @ hooks s)" "inv (set K \<union> set hs \<union> set (hooks s)) s" "calling_hooks s"
    "\<forall>k\<in>set (hooks s). future s k" "picos s < 2 ^ 63" "fire_loop call hs s = (kept, s')"
  shows "loop_post K hs s kept s'"
  using assms
proof (induction hs arbitrary: s K kept s')
  case Nil
  then show ?case by (auto simp: loop_post_def)
next
  case (Cons h hs)
  let ?L = "set K \<union> set (h # hs) \<union> set (hooks s)"
  obtain res s1 where cb: "run_cb call h s = (res, s1)" by fastforce
  show ?case
  proof (cases "hook_due s h")
    case False
    then obtain k' where k': "fire_loop call hs s = (k', s')" "kept = h # k'"
      using Cons.prems(6) by (auto split: prod.splits)
    have "future s h" using False by (auto simp: hook_due_def future_def not_le)
    moreover have "set (K @ [h]) \<union> set hs \<union> set (hooks s) = ?L" by auto
    then have "loop_post (K @ [h]) hs s k' s'"
      using Cons.prems(1-5) k'(1) by (intro Cons.IH) (auto simp del: set_append)
    ultimately show ?thesis unfolding k'(2) by (intro loop_post_keep) simp_all
  next
    case True
    obtain new where n: "hooks s1 = hooks s @ new" "distinct new" "set new \<inter> ?L = {}" "\<forall>k\<in>set new. future s1 k"
      "\<forall>k\<in>?L - {h}. hook_time s1 k = hook_time s k" "calling_hooks s1" "picos s1 = picos s"
      "if res \<noteq> 0 then inv (?L \<union> set new - {h}) (set_hook_time h 0 s1) else inv (?L \<union> set new) (disable_past h s1)"
      using cb_step [OF Cons.prems(2) _ _ Cons.prems(3,5) cb] by auto
    have ds: "distinct (K @ hs @ hooks s1)" "h \<notin> set K" "h \<notin> set hs" "h \<notin> set (hooks s1)"
      using Cons.prems(1) n(1-3) by auto
    have "\<forall>k\<in>set (hooks s). hook_time s1 k = hook_time s k" using n(1,5) ds(4) by auto
    then have fut: "\<forall>k\<in>set (hooks s1). future s1 k"
      using Cons.prems(4) n(1,4,7) by (auto simp: future_def)
    have tm: "\<forall>k\<in>set K \<union> set hs. hook_time s1 k = hook_time s k" using n(5) ds(2,3) by auto
    consider (removed) "res \<noteq> 0" "fire_loop call hs (set_hook_time h 0 s1) = (kept, s')"
      | (moved) "res = 0" "hook_time (disable_past h s1) h \<noteq> hook_time s h"
          "fire_loop call hs ((disable_past h s1)\<lparr>hooks := hooks s1 @ [h]\<rparr>) = (kept, s')"
      | (stays) k' where "res = 0" "hook_time (disable_past h s1) h = hook_time s h"
          "fire_loop call hs (disable_past h s1) = (k', s')" "kept = h # k'"
      using Cons.prems(6) True cb by (auto simp: Let_def dl_append_def split: prod.splits if_splits)
    then show ?thesis
    proof cases
      case removed
      have L: "?L \<union> set new - {h} = set K \<union> set hs \<union> set (hooks s1)" using ds n(1) by auto
      have "inv (set K \<union> set hs \<union> set (hooks s1)) (set_hook_time h 0 s1)"
        using n(8) removed(1) unfolding L [symmetric] by simp
      then have "loop_post K hs (set_hook_time h 0 s1) kept s'"
        using removed ds fut n(6,7) Cons.prems(5) by (intro Cons.IH) (auto simp: future_def)
      then show ?thesis by (rule loop_post_drop) (use n(7) tm ds in auto)
    next
      case moved
      let ?s = "(disable_past h s1)\<lparr>hooks := hooks s1 @ [h]\<rparr>"
      have L: "?L \<union> set new = set K \<union> set hs \<union> set (hooks ?s)" using n(1) by auto
      have "inv (set K \<union> set hs \<union> set (hooks ?s)) ?s" using n(8) moved(1) unfolding L [symmetric] by simp
      moreover have "\<forall>k\<in>set (hooks ?s). future ?s k"
        using fut ds(4) disable_past_future [of h s1] by (auto simp: future_def disable_past_def)
      ultimately have "loop_post K hs ?s kept s'" using moved ds n(6,7) Cons.prems(5) by (intro Cons.IH) auto
      then show ?thesis by (rule loop_post_drop) (use n(7) tm ds in \<open>auto simp: disable_past_def\<close>)
    next
      case stays
      let ?s = "disable_past h s1"
      have L: "?L \<union> set new = set (K @ [h]) \<union> set hs \<union> set (hooks ?s)" using n(1) by auto
      have "inv (set (K @ [h]) \<union> set hs \<union> set (hooks ?s)) ?s" using n(8) stays(1) unfolding L [symmetric] by simp
      moreover have "\<forall>k\<in>set (hooks ?s). future ?s k" using fut ds(4) by (auto simp: future_def disable_past_def)
      ultimately have "loop_post (K @ [h]) hs ?s k' s'" using stays ds n(6,7) Cons.prems(5) by (intro Cons.IH) auto
      then show ?thesis unfolding stays(4)
        by (rule loop_post_keep) (use n(7) tm ds stays(2) disable_past_future [of h s1] in \<open>auto simp: disable_past_def split: if_splits\<close>)
    qed
  qed
qed

definition bench_ok :: "('cb, 'm) sim \<Rightarrow> bool" where
  "bench_ok s \<longleftrightarrow> hook_list_ok s \<and> inv (set (hooks s)) s \<and> \<not> calling_hooks s"

definition idle_ok :: "('cb, 'm) sim \<Rightarrow> bool" where
  "idle_ok s \<longleftrightarrow> bench_ok s \<and> (\<forall>k\<in>set (hooks s). future s k)"

lemma add_all_ok:
  "hook_list_ok s \<Longrightarrow> distinct l \<Longrightarrow> set l \<inter> set (hooks s) = {} \<Longrightarrow> \<not> calling_hooks s \<Longrightarrow>
   hook_list_ok (fold sim_hook_add l s) \<and> set (hooks (fold sim_hook_add l s)) = set (hooks s) \<union> set l \<and>
   \<not> calling_hooks (fold sim_hook_add l s) \<and> picos (fold sim_hook_add l s) = picos s \<and>
   hook_of (fold sim_hook_add l s) = hook_of s \<and> immediate_hooks (fold sim_hook_add l s) = immediate_hooks s \<and>
   simulator.more (fold sim_hook_add l s) = simulator.more s"
proof (induction l arbitrary: s)
  case (Cons h l)
  then have "hook_list_ok (sim_hook_add h s)" by (intro sim_hook_add_ok) auto
  then show ?case using Cons.IH [of "sim_hook_add h s"] Cons.prems by auto
qed simp

lemma imm_all_ok: "idle_ok s \<Longrightarrow> list_all imm l \<Longrightarrow> idle_ok (fold (\<lambda>h s. snd (run_cb call h s)) l s)"
proof (induction l arbitrary: s)
  case (Cons h l)
  obtain res s1 where r: "run_cb call h s = (res, s1)" by fastforce
  then have "idle_ok s1" using imm_step [OF _ _ _ _ _ r] Cons.prems by (auto simp: idle_ok_def bench_ok_def)
  then show ?case using Cons r by simp
qed simp

lemma fire_ok:
  assumes "bench_ok s" "picos s < 2 ^ 63"
  shows "idle_ok (sim_fire_events call s)"
proof -
  let ?s0 = "s\<lparr>hooks := [], calling_hooks := True\<rparr>"
  obtain kept s1 where f: "fire_loop call (hooks s) ?s0 = (kept, s1)" by fastforce
  have "loop_post [] (hooks s) ?s0 kept s1"
    using assms by (intro fire_loop_ok [OF _ _ _ _ _ f]) (auto simp: bench_ok_def hook_list_ok_def)
  then have p: "distinct (kept @ hooks s1)" "inv (set kept \<union> set (hooks s1)) s1" "\<forall>P. sorted_wrt P (hooks s) \<longrightarrow> sorted_wrt P kept"
    "\<forall>k\<in>set kept. hook_time s1 k = hook_time s k" "\<forall>k\<in>set kept \<union> set (hooks s1). future s1 k"
    by (auto simp: loop_post_def)
  let ?s1 = "s1\<lparr>calling_hooks := False, hooks := kept\<rparr>"
  have "sorted_wrt (before (hook_time s)) kept" using p(3) assms(1) by (simp add: bench_ok_def hook_list_ok_def)
  then have "sorted_wrt (before (hook_time s1)) kept"
    by (rule sorted_wrt_mono_rel [rotated]) (use p(4) in \<open>auto simp: before_def\<close>)
  then have "hook_list_ok ?s1" using p(1) by (simp add: hook_list_ok_def)
  moreover have "distinct (hooks s1)" "set (hooks s1) \<inter> set (hooks ?s1) = {}" using p(1) by auto
  ultimately have add: "hook_list_ok (fold sim_hook_add (hooks s1) ?s1)"
    "set (hooks (fold sim_hook_add (hooks s1) ?s1)) = set kept \<union> set (hooks s1)"
    "\<not> calling_hooks (fold sim_hook_add (hooks s1) ?s1)" "picos (fold sim_hook_add (hooks s1) ?s1) = picos s1"
    "hook_of (fold sim_hook_add (hooks s1) ?s1) = hook_of s1"
    "immediate_hooks (fold sim_hook_add (hooks s1) ?s1) = immediate_hooks s1"
    "simulator.more (fold sim_hook_add (hooks s1) ?s1) = simulator.more s1"
    using add_all_ok [of ?s1 "hooks s1"] by simp_all
  let ?s2 = "fold sim_hook_add (hooks s1) ?s1"
  have ht: "hook_time ?s2 = hook_time s1" using add(5) by (auto simp: hook_time_def)
  have "inv (set kept \<union> set (hooks s1)) ?s2" using add(5-7) by (intro inv_frame [OF p(2)]) simp_all
  then have "idle_ok ?s2"
    using add(1-4) p(5) ht by (simp add: idle_ok_def bench_ok_def future_def)
  moreover have "list_all imm (immediate_hooks ?s2)"
    using inv_imm [of "set (hooks ?s2)" ?s2] \<open>idle_ok ?s2\<close> by (auto simp: list_all_iff idle_ok_def bench_ok_def)
  ultimately have "idle_ok (fold (\<lambda>h s. snd (run_cb call h s)) (immediate_hooks ?s2) ?s2)" by (rule imm_all_ok)
  then show ?thesis
    using f by (auto simp: sim_fire_events_def Let_def idle_ok_def bench_ok_def hook_list_ok_def future_def)
qed

end

section \<open>What leaves the hooks alone\<close>

text \<open>Messages of the process change signals, time and events, never the hooks.\<close>

definition same_hooks :: "('cb, 'm) sim \<Rightarrow> ('cb, 'm) sim \<Rightarrow> bool" where
  "same_hooks s s' \<longleftrightarrow> hook_of s' = hook_of s \<and> hooks s' = hooks s \<and> calling_hooks s' = calling_hooks s \<and>
     immediate_hooks s' = immediate_hooks s \<and> simulator.more s' = simulator.more s"

lemma same_hooks_refl [simp]: "same_hooks s s"
  by (simp add: same_hooks_def)

lemma same_hooks_trans: "same_hooks s t \<Longrightarrow> same_hooks t u \<Longrightarrow> same_hooks s u"
  by (simp add: same_hooks_def)

lemma same_hooks_msgs [simp]:
  "same_hooks s (sim_handle_cmd c s)" "same_hooks s (send_echo s)" "same_hooks s (sim_write_pty t s)"
  "same_hooks s (sim_clear_events s)" "same_hooks s (s\<lparr>lr := a, rd_script := b\<rparr>)" "same_hooks s (s\<lparr>dirty_writes := d\<rparr>)"
  by (cases c) (simp_all add: same_hooks_def upd_signal_def Let_def send_echo_def sim_write_pty_def sim_clear_events_def)

lemma same_hooks_from:
  "same_hooks (sim_handle_cmd c s) t = same_hooks s t" "same_hooks (send_echo s) t = same_hooks s t"
  "same_hooks (s\<lparr>lr := a, rd_script := b\<rparr>) t = same_hooks s t"
  by (cases c) (simp_all add: same_hooks_def upd_signal_def Let_def send_echo_def sim_write_pty_def)

lemma same_hooks_idle_loop: "same_hooks s (idle_loop sent s)"
proof (induction sent s rule: idle_loop.induct)
  case (1 sent s)
  obtain res l' sc' where n: "line_reader_next (lr s) (rd_script s) = (res, l', sc')" by (cases "line_reader_next (lr s) (rd_script s)") auto
  show ?case
  proof (cases res)
    case (Line line)
    note ih = 1 [OF n [symmetric] Line refl refl, unfolded same_hooks_from]
    show ?thesis
      using n Line ih
      by (subst idle_loop.simps) (auto simp: Let_def same_hooks_def [of s "wild_write_update _ _"]
          simp del: sim_handle_cmd.simps split: parsed.split cmd.split)
  qed (use n in \<open>subst idle_loop.simps; simp add: same_hooks_def\<close>)+
qed

lemma same_hooks_go_to_idle: "same_hooks s (sim_go_to_idle s)"
proof -
  have "same_hooks s (idle_loop (echo_arg s) (send_echo s))"
    by (rule same_hooks_trans [OF same_hooks_msgs(2) same_hooks_idle_loop])
  then show ?thesis by (simp add: sim_go_to_idle_def)
qed

lemma clear_events_simps [simp]:
  "future (sim_clear_events s) = future s" "hooks (sim_clear_events s) = hooks s"
  by (auto simp: future_def hook_time_def sim_clear_events_def)

context hook_client
begin

lemma same_hooks_ok: "same_hooks s s' \<Longrightarrow> bench_ok s \<Longrightarrow> bench_ok s'"
proof -
  assume h: "same_hooks s s'" "bench_ok s"
  then have "hook_time s' = hook_time s" by (auto simp: same_hooks_def hook_time_def)
  then show ?thesis
    using h inv_frame [of "set (hooks s)" s s'] by (auto simp: bench_ok_def hook_list_ok_def same_hooks_def)
qed

text \<open>Whatever the process sends, a wait leaves the hooks in order and no target in the past.\<close>

lemma sim_idle_ok: "bench_ok s \<Longrightarrow> picos (sim_go_to_idle s) < 2 ^ 63 \<Longrightarrow> idle_ok (sim_idle call s)"
proof -
  assume "bench_ok s" "picos (sim_go_to_idle s) < 2 ^ 63"
  then have f: "idle_ok (sim_fire_events call (sim_go_to_idle s))"
    using same_hooks_ok [OF same_hooks_go_to_idle] fire_ok by blast
  then have "bench_ok (sim_idle call s)"
    unfolding sim_idle_def by (intro same_hooks_ok [OF same_hooks_msgs(4)]) (simp add: idle_ok_def)
  then show ?thesis using f by (simp add: idle_ok_def sim_idle_def)
qed

lemma sim_write_idle_ok:
  "bench_ok s \<Longrightarrow> picos (sim_go_to_idle (sim_write_pty t s)) < 2 ^ 63 \<Longrightarrow> idle_ok (sim_idle call (sim_write_pty t s))"
  by (intro sim_idle_ok same_hooks_ok [OF same_hooks_msgs(3)])

end

end
