(* ===== verification/Mem_Bus.thy ===== *)
theory Mem_Bus
  imports Sim_Hooks
begin

text \<open>
  The memory buses of a bench (src/sim/sim/mem_bus.c): a bus watches its input signals, passes reads and
  writes to the device whose range holds the address, and raises and drops the acknowledge after the
  delays that the device asks for. The bench's state extends the simulator by its buses; a bus is a
  number, and its three hooks are hook numbers. The function pointers of a range are values of type
  \<open>'fn\<close>, and what they do is a parameter.
\<close>

section \<open>State\<close>

record 'fn mem_range =
  rg_id :: nat
  rg_start :: u32
  rg_end :: u32
  rg_read_fn :: "'fn option"
  rg_write_fn :: "'fn option"

text \<open>An instruction fetch bus has no rd and wr signals.\<close>

record mem_bus_signals =
  sg_en :: nat
  sg_a :: nat
  sg_din :: nat
  sg_rd_wr :: "(nat \<times> nat) option"
  sg_we :: nat
  sg_dout :: nat
  sg_ack :: nat

record 'fn mem_bus =
  read_val :: u32
  ack_delay :: u32
  ack_drop_delay :: u32
  rw_hook :: nat
  drop_ack_hook :: nat
  cancel_drop_hook :: nat
  ack_pending :: bool
  op_count :: int
  ack_drop_op :: int
  ranges :: "'fn mem_range list"
  d_ack_read :: u32
  d_ack_write :: u32
  d_drop_ack :: u32
  sig :: mem_bus_signals

datatype bus_cb = Read_Write_Cb nat | Drop_Ack_Cb nat | Cancel_Drop_Cb nat
datatype 'x bench_cb = Bus_Cb bus_cb | Other_Cb 'x

record ('x, 'fn) bus_sim = "'x bench_cb simulator" +
  buses :: "nat \<Rightarrow> 'fn mem_bus"

type_synonym ('x, 'fn, 'm) bench = "('x, 'fn, 'm) bus_sim_scheme"

definition upd_bus :: "nat \<Rightarrow> ('fn mem_bus \<Rightarrow> 'fn mem_bus) \<Rightarrow> ('x, 'fn, 'm) bench \<Rightarrow> ('x, 'fn, 'm) bench" where
  "upd_bus b f s = s\<lparr>buses := (buses s)(b := f (buses s b))\<rparr>"

text \<open>
  A read function gets the range, the address, the number of bytes and the two delays, and gives its
  result code, the value and the delays; a write function gets the value too.
\<close>

type_synonym ('x, 'fn, 'm) read_dev =
  "'fn \<Rightarrow> nat \<Rightarrow> 'fn mem_range \<Rightarrow> u32 \<Rightarrow> nat \<Rightarrow> u32 \<times> u32 \<Rightarrow> ('x, 'fn, 'm) bench \<Rightarrow>
   int \<times> u32 \<times> (u32 \<times> u32) \<times> ('x, 'fn, 'm) bench"
type_synonym ('x, 'fn, 'm) write_dev =
  "'fn \<Rightarrow> nat \<Rightarrow> 'fn mem_range \<Rightarrow> u32 \<Rightarrow> nat \<Rightarrow> u32 \<Rightarrow> u32 \<times> u32 \<Rightarrow> ('x, 'fn, 'm) bench \<Rightarrow>
   int \<times> (u32 \<times> u32) \<times> ('x, 'fn, 'm) bench"

section \<open>The acknowledge\<close>

fun default_find_range :: "'fn mem_range list \<Rightarrow> u32 \<Rightarrow> 'fn mem_range option" where
  "default_find_range [] addr = None"
| "default_find_range (r # rs) addr =
     (if rg_start r \<le> addr \<and> (rg_end r = 0 \<or> addr < rg_end r) then Some r else default_find_range rs addr)"

definition drop_ack :: "nat \<Rightarrow> ('x, 'fn, 'm) bench \<Rightarrow> ('x, 'fn, 'm) bench" where
  "drop_ack b s =
     (let sg = sig (buses s b) in
      if geti (sg_ack sg) s = 1 then set_all (sg_dout sg) CHR ''Z'' (seti (sg_ack sg) 0 s) else s)"

definition schedule_ack_drop :: "nat \<Rightarrow> ('x, 'fn, 'm) bench \<Rightarrow> ('x, 'fn, 'm) bench" where
  "schedule_ack_drop b s =
     (let bus = buses s b; h = drop_ack_hook bus in
      if ack_drop_delay bus \<noteq> 0 then
        (if hook_time s h = 0 then
           sim_hook_add h
             (set_hook_time h (picos s + ucast (ack_drop_delay bus * 1000))
               (upd_bus b (\<lambda>bus. bus\<lparr>ack_drop_op := op_count bus\<rparr>) s))
         else s)
      else drop_ack b s)"

definition drop_ack_cb :: "nat \<Rightarrow> ('x, 'fn, 'm) bench \<Rightarrow> int \<times> ('x, 'fn, 'm) bench" where
  "drop_ack_cb b s = (- 1, if ack_drop_op (buses s b) = op_count (buses s b) then drop_ack b s else s)"

definition cancel_drop_cb :: "nat \<Rightarrow> ('x, 'fn, 'm) bench \<Rightarrow> int \<times> ('x, 'fn, 'm) bench" where
  "cancel_drop_cb b s =
     (let h = drop_ack_hook (buses s b) in
      (- 1, if hook_time s h \<noteq> 0 then set_hook_time h 0 (sim_hook_remove h s) else s))"

definition input_changed :: "nat \<Rightarrow> ('x, 'fn, 'm) bench \<Rightarrow> bool" where
  "input_changed b s =
     (let sg = sig (buses s b); ev = (\<lambda>i. event (sig_at s i)) in
      if ev (sg_en sg) \<or> ev (sg_a sg) then True
      else case sg_rd_wr sg of None \<Rightarrow> False
        | Some (rd, wr) \<Rightarrow> ev (sg_din sg) \<or> ev rd \<or> ev wr \<or> ev (sg_we sg))"

section \<open>Operations\<close>

text \<open>\<open>Inl\<close> is the jump to the bus exception.\<close>

type_synonym ('x, 'fn, 'm) step = "('x, 'fn, 'm) bench + ('x, 'fn, 'm) bench"

definition read_bytes_of :: "u32 \<Rightarrow> nat" where
  "read_bytes_of addr =
     (let k = addr AND 3 in if k = 0 then 4 else if k = 1 then 1 else if k = 2 then 2 else 1)"

text \<open>Where the processor expects the bytes of a read.\<close>

definition read_lane :: "u32 \<Rightarrow> u32 \<Rightarrow> u32" where
  "read_lane addr v =
     (let k = addr AND 3 in
      if k = 1 then push_bit 16 (v AND 0xFF) else if k = 2 then v AND 0xFFFF else if k = 3 then v AND 0xFF else v)"

definition bus_read :: "('x, 'fn, 'm) read_dev \<Rightarrow> nat \<Rightarrow> u32 \<Rightarrow> u32 \<Rightarrow> ('x, 'fn, 'm) bench \<Rightarrow> ('x, 'fn, 'm) step" where
  "bus_read rfn b addr we s =
     (if we \<noteq> 0 then Inl s
      else case default_find_range (ranges (buses s b)) addr of None \<Rightarrow> Inl s
      | Some rg \<Rightarrow>
          (case rg_read_fn rg of None \<Rightarrow> Inl s
           | Some f \<Rightarrow>
               (let bus = buses s b;
                    (res, v, (ad, dd), s1) = rfn f b rg addr (read_bytes_of addr) (d_ack_read bus, d_drop_ack bus) s;
                    s2 = upd_bus b (\<lambda>bus. bus\<lparr>read_val := v, ack_delay := ad, ack_drop_delay := dd\<rparr>) s1
                in if res \<noteq> 0 then Inl s2 else Inr (upd_bus b (\<lambda>bus. bus\<lparr>read_val := read_lane addr v\<rparr>) s2))))"

definition write_alignment :: "u32 \<Rightarrow> u32 option" where
  "write_alignment we =
     (if we = 1 then Some 3 else if we = 2 \<or> we = 3 then Some 2 else if we = 4 then Some 1
      else if we = 8 \<or> we = 0xC \<or> we = 0xF then Some 0 else None)"

definition write_bytes_of :: "u32 \<Rightarrow> nat" where
  "write_bytes_of we = (if we = 1 \<or> we = 2 \<or> we = 4 \<or> we = 8 then 1 else if we = 3 \<or> we = 0xC then 2 else 4)"

definition cut_data :: "nat \<Rightarrow> u32 \<Rightarrow> u32" where
  "cut_data n d = (if n = 1 then d AND 0xFF else if n = 2 then d AND 0xFFFF else d)"

definition bus_write :: "('x, 'fn, 'm) write_dev \<Rightarrow> nat \<Rightarrow> u32 \<Rightarrow> u32 \<Rightarrow> ('x, 'fn, 'm) bench \<Rightarrow> ('x, 'fn, 'm) step" where
  "bus_write wfn b addr we s =
     (case write_alignment we of None \<Rightarrow> Inl s
      | Some al \<Rightarrow>
          if addr AND 3 \<noteq> al then Inl s
          else case geti_check (sg_din (sig (buses s b))) s of None \<Rightarrow> Inl s
          | Some data \<Rightarrow>
              (case default_find_range (ranges (buses s b)) addr of None \<Rightarrow> Inl s
               | Some rg \<Rightarrow>
                   (case rg_write_fn rg of None \<Rightarrow> Inl s
                    | Some f \<Rightarrow>
                        (let bus = buses s b; n = write_bytes_of we;
                             (res, (ad, dd), s1) = wfn f b rg addr n (cut_data n data) (d_ack_write bus, d_drop_ack bus) s;
                             s2 = upd_bus b (\<lambda>bus. bus\<lparr>ack_delay := ad, ack_drop_delay := dd\<rparr>) s1
                         in if res \<noteq> 0 then Inl s2 else Inr s2))))"

definition raise_ack :: "nat \<Rightarrow> bool \<Rightarrow> ('x, 'fn, 'm) bench \<Rightarrow> ('x, 'fn, 'm) bench" where
  "raise_ack b is_read s =
     (let s1 = upd_bus b (\<lambda>bus. bus\<lparr>ack_pending := False\<rparr>) s;
          sg = sig (buses s1 b);
          s2 = (if is_read then seti (sg_dout sg) (read_val (buses s1 b)) s1 else s1);
          s3 = seti (sg_ack sg) 1 (upd_bus b (\<lambda>bus. bus\<lparr>op_count := op_count bus + 1\<rparr>) s2)
      in sim_immediate_hook_add (cancel_drop_hook (buses s3 b)) s3)"

definition bus_reset :: "nat \<Rightarrow> ('x, 'fn, 'm) bench \<Rightarrow> ('x, 'fn, 'm) bench" where
  "bus_reset b s =
     set_hook_time (rw_hook (buses s b)) 0
       (drop_ack b (sim_immediate_hook_add (cancel_drop_hook (buses s b))
          (upd_bus b (\<lambda>bus. bus\<lparr>ack_pending := False\<rparr>) s)))"

text \<open>A new operation: the one before it ends, the device is called, and the acknowledge is raised or timed.\<close>

definition end_previous :: "nat \<Rightarrow> ('x, 'fn, 'm) bench \<Rightarrow> ('x, 'fn, 'm) bench" where
  "end_previous b s =
     (if ack_pending (buses s b) then upd_bus b (\<lambda>bus. bus\<lparr>ack_pending := False\<rparr>) s
      else if geti (sg_ack (sig (buses s b))) s \<noteq> 0 then schedule_ack_drop b s
      else s)"

definition start_op ::
  "('x, 'fn, 'm) read_dev \<Rightarrow> ('x, 'fn, 'm) write_dev \<Rightarrow> nat \<Rightarrow> bool \<Rightarrow> ('x, 'fn, 'm) bench \<Rightarrow> ('x, 'fn, 'm) step" where
  "start_op rfn wfn b is_read s =
     (let s1 = end_previous b s; sg = sig (buses s1 b) in
      case geti_check (sg_a sg) s1 of None \<Rightarrow> Inl s1
      | Some addr \<Rightarrow>
          (case geti_check (sg_we sg) s1 of None \<Rightarrow> Inl s1
           | Some we \<Rightarrow>
               (case (if is_read then bus_read rfn b addr we s1 else bus_write wfn b addr we s1) of
                  Inl s2 \<Rightarrow> Inl s2
                | Inr s2 \<Rightarrow>
                    Inr (let bus = buses s2 b in
                         if ack_delay bus \<noteq> 0 then
                           set_hook_time (rw_hook bus) (picos s2 + ucast (ack_delay bus * 1000))
                             (upd_bus b (\<lambda>bus. bus\<lparr>ack_pending := True\<rparr>) s2)
                         else set_hook_time (rw_hook bus) 0 (raise_ack b is_read s2)))))"

text \<open>The kind of operation on the inputs: \<open>None\<close> if they are invalid, else whether it is a read.\<close>

definition op_kind :: "nat \<Rightarrow> u32 \<Rightarrow> ('x, 'fn, 'm) bench \<Rightarrow> bool option" where
  "op_kind b en s =
     (case sg_rd_wr (sig (buses s b)) of None \<Rightarrow> Some True
      | Some (rd_i, wr_i) \<Rightarrow>
          (case geti_check wr_i s of None \<Rightarrow> None
           | Some wr \<Rightarrow>
               (case geti_check rd_i s of None \<Rightarrow> None
                | Some rd \<Rightarrow> if wr \<noteq> 0 then Some False else if rd = 0 \<and> en \<noteq> 0 then None else Some True)))"

definition read_write_cb ::
  "('x, 'fn, 'm) read_dev \<Rightarrow> ('x, 'fn, 'm) write_dev \<Rightarrow> nat \<Rightarrow> ('x, 'fn, 'm) bench \<Rightarrow> int \<times> ('x, 'fn, 'm) bench" where
  "read_write_cb rfn wfn b s =
     (0,
      case geti_check (sg_en (sig (buses s b))) s of None \<Rightarrow> bus_reset b s
      | Some en \<Rightarrow>
          (case op_kind b en s of None \<Rightarrow> bus_reset b s
           | Some is_read \<Rightarrow>
               if input_changed b s then
                 (if en \<noteq> 0 then
                    (case start_op rfn wfn b is_read s of Inl s1 \<Rightarrow> bus_reset b s1 | Inr s1 \<Rightarrow> s1)
                  else if ack_pending (buses s b) then bus_reset b s
                  else if geti (sg_ack (sig (buses s b))) s \<noteq> 0 then schedule_ack_drop b s
                  else s)
               else if hook_time s (rw_hook (buses s b)) = picos s \<and> ack_pending (buses s b) then raise_ack b is_read s
               else s))"

definition bus_call ::
  "('x, 'fn, 'm) read_dev \<Rightarrow> ('x, 'fn, 'm) write_dev \<Rightarrow>
   ('x \<Rightarrow> nat \<Rightarrow> ('x, 'fn, 'm) bench \<Rightarrow> int \<times> ('x, 'fn, 'm) bench) \<Rightarrow>
   'x bench_cb \<Rightarrow> nat \<Rightarrow> ('x, 'fn, 'm) bench \<Rightarrow> int \<times> ('x, 'fn, 'm) bench" where
  "bus_call rfn wfn other c h s =
     (case c of
        Bus_Cb (Read_Write_Cb b) \<Rightarrow> read_write_cb rfn wfn b s
      | Bus_Cb (Drop_Ack_Cb b) \<Rightarrow> drop_ack_cb b s
      | Bus_Cb (Cancel_Drop_Cb b) \<Rightarrow> cancel_drop_cb b s
      | Other_Cb x \<Rightarrow> other x h s)"

section \<open>Initialisation\<close>

definition common_init :: "nat \<Rightarrow> ('x, 'fn, 'm) bench \<Rightarrow> ('x, 'fn, 'm) bench" where
  "common_init b s =
     (let s0 = upd_bus b (\<lambda>bus. bus\<lparr>op_count := 0, ack_drop_op := 0\<rparr>) s; bus = buses s0 b;
          s1 = snd (sim_hook_init (rw_hook bus) (User_Cb (Bus_Cb (Read_Write_Cb b))) s0);
          s2 = snd (sim_hook_init (drop_ack_hook bus) (User_Cb (Bus_Cb (Drop_Ack_Cb b))) s1)
      in snd (sim_hook_init (cancel_drop_hook bus) (User_Cb (Bus_Cb (Cancel_Drop_Cb b))) s2))"

definition bus_watch :: "nat \<Rightarrow> nat list \<Rightarrow> ('x, 'fn, 'm) bench \<Rightarrow> ('x, 'fn, 'm) bench" where
  "bus_watch b is s = fold (\<lambda>i. watch_signal (rw_hook (buses s b)) True i) is s"

definition bus_idle :: "nat \<Rightarrow> ('x, 'fn, 'm) bench \<Rightarrow> ('x, 'fn, 'm) bench" where
  "bus_idle b s =
     (let sg = sig (buses s b) in set_all (sg_dout sg) CHR ''Z'' (seti (sg_ack sg) 0 (sim_hook_add (rw_hook (buses s b)) s)))"

definition mem_bus_init :: "nat \<Rightarrow> ('x, 'fn, 'm) bench \<Rightarrow> ('x, 'fn, 'm) bench" where
  "mem_bus_init b s =
     (let s1 = common_init b s; sg = sig (buses s1 b) in
      bus_idle b (bus_watch b
        ([sg_en sg, sg_a sg, sg_din sg] @ (case sg_rd_wr sg of None \<Rightarrow> [] | Some (rd, wr) \<Rightarrow> [rd, wr]) @ [sg_we sg]) s1))"

definition instr_fetch_init :: "nat \<Rightarrow> ('x, 'fn, 'm) bench \<Rightarrow> ('x, 'fn, 'm) bench" where
  "instr_fetch_init b s =
     (let s1 = common_init b (upd_bus b (\<lambda>bus. bus\<lparr>sig := (sig bus)\<lparr>sg_rd_wr := None\<rparr>\<rparr>) s); sg = sig (buses s1 b) in
      bus_idle b (bus_watch b [sg_en sg, sg_a sg] s1))"

definition mem_bus_range_add :: "nat \<Rightarrow> 'fn mem_range \<Rightarrow> ('x, 'fn, 'm) bench \<Rightarrow> ('x, 'fn, 'm) bench" where
  "mem_bus_range_add b rg s = upd_bus b (\<lambda>bus. bus\<lparr>ranges := dl_append (ranges bus) rg\<rparr>) s"

definition mem_bus_range_remove :: "nat \<Rightarrow> 'fn mem_range \<Rightarrow> ('x, 'fn, 'm) bench \<Rightarrow> ('x, 'fn, 'm) bench" where
  "mem_bus_range_remove b rg s = upd_bus b (\<lambda>bus. bus\<lparr>ranges := dl_delete (ranges bus) rg\<rparr>) s"

end
