(* ===== verification/Uart_Dev.thy ===== *)
theory Uart_Dev
  imports Mem_Bus
begin

text \<open>
  The simulated serial ports: the 16550 of src/sim/sim/uart.c and the UART Lite of
  src/sim/sim/uartlite.c. A port is a range of registers on a bus; its file descriptors are the bytes
  still to be read and the bytes written. A read of the receive register repeats \<open>read\<close> until it gets a
  byte, so without one it never returns: \<open>None\<close>. What the ports print for debugging is left out.
\<close>

section \<open>The 16550\<close>

record uart =
  ua_start :: u32
  ua_end :: u32
  ier :: u8
  divisor_latch :: u16
  lcr :: u8
  mcr :: u8
  lsr :: u8
  msr :: u8
  scr :: u8
  ua_rx :: "u8 list"
  ua_tx :: "u8 list"

datatype reg_id = RTX | IER | IIR | LCR | MCR | LSR | MSR | SCR

definition uart_regs :: "reg_id list" where
  "uart_regs = [RTX, IER, IIR, LCR, MCR, LSR, MSR, SCR]"

text \<open>\<open>None\<close> is \<open>UNKNOWN\<close>.\<close>

definition reg_index :: "u32 \<Rightarrow> u32 \<Rightarrow> nat \<Rightarrow> u32 \<Rightarrow> nat option" where
  "reg_index start ending num addr =
     (if addr < start \<or> addr mod 4 \<noteq> 0 \<or> addr \<ge> ending then None
      else let i = unat ((addr - start) div 4) in if i \<ge> num then None else Some i)"

definition uart_get_reg_id :: "uart \<Rightarrow> u32 \<Rightarrow> reg_id option" where
  "uart_get_reg_id u addr = map_option (\<lambda>i. uart_regs ! i) (reg_index (ua_start u) (ua_end u) (length uart_regs) addr)"

definition is_dlab :: "uart \<Rightarrow> bool" where
  "is_dlab u \<longleftrightarrow> lcr u AND 0x80 \<noteq> 0"

definition uart_read :: "u32 \<Rightarrow> uart \<Rightarrow> (int \<times> u32 \<times> uart) option" where
  "uart_read addr u =
     (case uart_get_reg_id u addr of None \<Rightarrow> Some (- 1, 0, u)
      | Some rid \<Rightarrow>
          (case rid of
             RTX \<Rightarrow>
               (if is_dlab u then Some (0, ucast (divisor_latch u AND 0xFF), u)
                else case ua_rx u of [] \<Rightarrow> None | c # cs \<Rightarrow> Some (0, ucast c, u\<lparr>ua_rx := cs\<rparr>))
           | IER \<Rightarrow> Some (0, if is_dlab u then ucast (drop_bit 8 (divisor_latch u)) else ucast (ier u), u)
           | IIR \<Rightarrow> Some (- 1, 0, u)
           | LCR \<Rightarrow> Some (0, ucast (lcr u), u)
           | MCR \<Rightarrow> Some (0, ucast (mcr u), u)
           | LSR \<Rightarrow> Some (0, 0x21, u)
           | MSR \<Rightarrow> Some (0, ucast (msr u), u)
           | SCR \<Rightarrow> Some (0, ucast (scr u), u)))"

definition uart_write :: "u32 \<Rightarrow> u32 \<Rightarrow> uart \<Rightarrow> int \<times> uart" where
  "uart_write addr v u =
     (let b = ucast v :: u8 in
      case uart_get_reg_id u addr of None \<Rightarrow> (- 1, u)
      | Some rid \<Rightarrow>
          (case rid of
             RTX \<Rightarrow> (0, if is_dlab u then u\<lparr>divisor_latch := (divisor_latch u AND 0xFF00) OR ucast b\<rparr> else u\<lparr>ua_tx := ua_tx u @ [b]\<rparr>)
           | IER \<Rightarrow> (0, if is_dlab u then u\<lparr>divisor_latch := push_bit 8 (ucast b) OR (divisor_latch u AND 0xFF)\<rparr> else u\<lparr>ier := b AND 0xF\<rparr>)
           | IIR \<Rightarrow> (- 1, u)
           | LCR \<Rightarrow> (0, u\<lparr>lcr := b\<rparr>)
           | MCR \<Rightarrow> (0, u\<lparr>mcr := b AND 0x1F\<rparr>)
           | LSR \<Rightarrow> (- 1, u)
           | MSR \<Rightarrow> (- 1, u)
           | SCR \<Rightarrow> (0, u\<lparr>scr := b\<rparr>)))"

definition uart_init :: "u32 \<Rightarrow> u8 list \<Rightarrow> uart" where
  "uart_init base rx_bytes =
     \<lparr>ua_start = base, ua_end = base + 4 * 8, ier = 0, divisor_latch = 0, lcr = 0, mcr = 0, lsr = 0, msr = 0, scr = 0,
      ua_rx = rx_bytes, ua_tx = []\<rparr>"

text \<open>The range that the port adds to its bus and removes again; \<open>fn\<close> stands for its functions.\<close>

definition uart_range :: "nat \<Rightarrow> 'fn \<Rightarrow> u32 \<Rightarrow> 'fn mem_range" where
  "uart_range k fn base = \<lparr>rg_id = k, rg_start = base, rg_end = base + 4 * 8, rg_read_fn = Some fn, rg_write_fn = Some fn\<rparr>"

definition uart_attach :: "nat \<Rightarrow> nat \<Rightarrow> 'fn \<Rightarrow> u32 \<Rightarrow> ('x, 'fn, 'm) bench \<Rightarrow> ('x, 'fn, 'm) bench" where
  "uart_attach bus k fn base s = mem_bus_range_add bus (uart_range k fn base) s"

definition uart_free :: "nat \<Rightarrow> nat \<Rightarrow> 'fn \<Rightarrow> u32 \<Rightarrow> ('x, 'fn, 'm) bench \<Rightarrow> ('x, 'fn, 'm) bench" where
  "uart_free bus k fn base s = mem_bus_range_remove bus (uart_range k fn base) s"

section \<open>The UART Lite\<close>

record uartlite =
  ul_start :: u32
  ul_end :: u32
  ul_rx :: "u8 list"
  ul_tx :: "u8 list"

datatype lite_reg = RX | TX | STAT | CTRL

definition lite_regs :: "lite_reg list" where
  "lite_regs = [RX, TX, STAT, CTRL]"

definition uartlite_get_reg_id :: "uartlite \<Rightarrow> u32 \<Rightarrow> lite_reg option" where
  "uartlite_get_reg_id u addr = map_option (\<lambda>i. lite_regs ! i) (reg_index (ul_start u) (ul_end u) (length lite_regs) addr)"

definition uartlite_read :: "u32 \<Rightarrow> uartlite \<Rightarrow> (int \<times> u32 \<times> uartlite) option" where
  "uartlite_read addr u =
     (case uartlite_get_reg_id u addr of None \<Rightarrow> Some (- 1, 0, u)
      | Some rid \<Rightarrow>
          (case rid of
             RX \<Rightarrow> (case ul_rx u of [] \<Rightarrow> None | c # cs \<Rightarrow> Some (0, ucast c, u\<lparr>ul_rx := cs\<rparr>))
           | STAT \<Rightarrow> Some (0, 0x5, u)
           | TX \<Rightarrow> Some (0, 0, u)
           | CTRL \<Rightarrow> Some (0, 0, u)))"

definition uartlite_write :: "u32 \<Rightarrow> u32 \<Rightarrow> uartlite \<Rightarrow> int \<times> uartlite" where
  "uartlite_write addr v u =
     (case uartlite_get_reg_id u addr of None \<Rightarrow> (- 1, u)
      | Some rid \<Rightarrow>
          (case rid of
             RX \<Rightarrow> (0, u)
           | STAT \<Rightarrow> (0, u)
           | TX \<Rightarrow> (0, u\<lparr>ul_tx := ul_tx u @ [ucast v]\<rparr>)
           | CTRL \<Rightarrow> (0, u)))"

definition uartlite_init :: "u32 \<Rightarrow> u8 list \<Rightarrow> uartlite" where
  "uartlite_init base rx_bytes = \<lparr>ul_start = base, ul_end = base + 4 * 4, ul_rx = rx_bytes, ul_tx = []\<rparr>"

definition uartlite_range :: "nat \<Rightarrow> 'fn \<Rightarrow> u32 \<Rightarrow> 'fn mem_range" where
  "uartlite_range k fn base = \<lparr>rg_id = k, rg_start = base, rg_end = base + 4 * 4, rg_read_fn = Some fn, rg_write_fn = Some fn\<rparr>"

definition uartlite_attach :: "nat \<Rightarrow> nat \<Rightarrow> 'fn \<Rightarrow> u32 \<Rightarrow> ('x, 'fn, 'm) bench \<Rightarrow> ('x, 'fn, 'm) bench" where
  "uartlite_attach bus k fn base s = mem_bus_range_add bus (uartlite_range k fn base) s"

definition uartlite_free :: "nat \<Rightarrow> nat \<Rightarrow> 'fn \<Rightarrow> u32 \<Rightarrow> ('x, 'fn, 'm) bench \<Rightarrow> ('x, 'fn, 'm) bench" where
  "uartlite_free bus k fn base s = mem_bus_range_remove bus (uartlite_range k fn base) s"

end
