(* ===== verification/Rom_Serial.thy ===== *)
theory Rom_Serial
  imports Rom_World Uart_Dev
begin

text \<open>
  The serial drivers of the ROM (src/testrom/uartlite.c and uart16550.c) and what main.c does with them.
  The drivers access the registers of their port at 0xABCD0100. A port is given by its 32 bit register
  read and write; the read gives \<open>None\<close> if the access never completes. A driver that waits for a status
  bit repeats the read, for ever if need be.

  Run on the simulated ports, the drivers send and receive exactly the bytes of the serial line of
  \<open>Rom_World\<close>; the locale \<open>serial_driver\<close> is that contract, with the console output of main.c.
\<close>

section \<open>Access to the registers\<close>

type_synonym 'd reg_read = "u32 \<Rightarrow> 'd \<Rightarrow> (u32 \<times> 'd) option"
type_synonym 'd reg_write = "u32 \<Rightarrow> u32 \<Rightarrow> 'd \<Rightarrow> 'd"

definition UART :: u32 where
  "UART = 0xABCD0100"

partial_function (option) wait_reg :: "'d reg_read \<Rightarrow> u32 \<Rightarrow> (u32 \<Rightarrow> bool) \<Rightarrow> 'd \<Rightarrow> 'd option" where
  "wait_reg rd addr ready d =
     Option.bind (rd addr d) (\<lambda>vd. if ready (fst vd) then Some (snd vd) else wait_reg rd addr ready (snd vd))"

section \<open>The UART Lite driver\<close>

definition lite_uart_tx :: "'d reg_read \<Rightarrow> 'd reg_write \<Rightarrow> u8 \<Rightarrow> 'd \<Rightarrow> 'd option" where
  "lite_uart_tx rd wr data d =
     map_option (wr (UART + 4) (ucast data)) (wait_reg rd (UART + 8) (\<lambda>v. v AND 0x08 = 0) d)"

definition lite_uart_rx :: "'d reg_read \<Rightarrow> 'd \<Rightarrow> (u8 \<times> 'd) option" where
  "lite_uart_rx rd d =
     Option.bind (wait_reg rd (UART + 8) (\<lambda>v. v AND 0x01 \<noteq> 0) d)
       (\<lambda>d1. map_option (\<lambda>(v, d2). (ucast (v AND 0xff), d2)) (rd UART d1))"

definition lite_uart_rx_echo :: "'d reg_read \<Rightarrow> 'd reg_write \<Rightarrow> 'd \<Rightarrow> (u8 \<times> 'd) option" where
  "lite_uart_rx_echo rd wr d =
     Option.bind (lite_uart_rx rd d) (\<lambda>(c, d1). map_option (Pair c) (lite_uart_tx rd wr c d1))"

definition lite_uart_rx_flush :: "'d reg_write \<Rightarrow> 'd \<Rightarrow> 'd" where
  "lite_uart_rx_flush wr d = wr (UART + 12) 0x02 d"

definition lite_uart_set_baudrate :: "'d \<Rightarrow> 'd" where
  "lite_uart_set_baudrate d = d"

section \<open>The 16550 driver\<close>

definition ns_uart_tx :: "'d reg_read \<Rightarrow> 'd reg_write \<Rightarrow> u8 \<Rightarrow> 'd \<Rightarrow> 'd option" where
  "ns_uart_tx rd wr data d =
     map_option (wr UART (ucast data)) (wait_reg rd (UART + 20) (\<lambda>v. v AND 0x20 \<noteq> 0) d)"

definition ns_uart_rx :: "'d reg_read \<Rightarrow> 'd \<Rightarrow> (u8 \<times> 'd) option" where
  "ns_uart_rx rd d =
     Option.bind (wait_reg rd (UART + 20) (\<lambda>v. v AND 0x1 \<noteq> 0) d)
       (\<lambda>d1. map_option (\<lambda>(v, d2). (ucast (v AND 0xff), d2)) (rd UART d1))"

definition ns_uart_rx_echo :: "'d reg_read \<Rightarrow> 'd reg_write \<Rightarrow> 'd \<Rightarrow> (u8 \<times> 'd) option" where
  "ns_uart_rx_echo rd wr d =
     Option.bind (wait_reg rd (UART + 20) (\<lambda>v. v AND 1 \<noteq> 0) d) (\<lambda>d1.
     Option.bind (rd UART d1) (\<lambda>(v, d2).
     map_option (\<lambda>d3. (ucast (v AND 0xff), wr UART (v AND 0xff) d3)) (wait_reg rd (UART + 20) (\<lambda>v. v AND 0x20 \<noteq> 0) d2)))"

partial_function (option) ns_uart_rx_flush :: "'d reg_read \<Rightarrow> 'd \<Rightarrow> 'd option" where
  "ns_uart_rx_flush rd d =
     Option.bind (rd (UART + 20) d) (\<lambda>vd.
       if fst vd AND 1 \<noteq> 0 then Option.bind (rd UART (snd vd)) (\<lambda>wd. ns_uart_rx_flush rd (snd wd)) else Some (snd vd))"

definition ns_uart_set_baudrate :: "'d reg_write \<Rightarrow> 'd \<Rightarrow> 'd" where
  "ns_uart_set_baudrate wr d = wr (UART + 12) 0x3 (wr (UART + 4) 0 (wr UART 0x0a (wr (UART + 12) 0x83 d)))"

section \<open>Console output (main.c)\<close>

text \<open>\<open>send\<close> is the driver's \<open>uart_tx\<close>.\<close>

fun putstr :: "(u8 \<Rightarrow> 'd \<Rightarrow> 'd option) \<Rightarrow> string \<Rightarrow> 'd \<Rightarrow> 'd option" where
  "putstr send [] d = Some d"
| "putstr send (c # cs) d =
     Option.bind (if c = CHR 0x0A then send 0x0D d else Some d) (\<lambda>d1. Option.bind (send (ch c) d1) (putstr send cs))"

text \<open>The accesses to the memory controller: the data bit pattern is the address.\<close>

datatype access = Mem_Write u32 u32 | Mem_Read u32

definition DDR_BASE :: u32 where
  "DDR_BASE = 0x10000000"

definition ddr_word :: "nat \<Rightarrow> nat \<Rightarrow> nat \<Rightarrow> u32" where
  "ddr_word lines bank cmd = push_bit 13 (of_nat lines) OR push_bit 11 (of_nat bank) OR push_bit 4 (of_nat cmd)"

definition DdrInitData :: "bool \<Rightarrow> bool \<Rightarrow> u32 list" where
  "DdrInitData lpddr bl4 =
     (if lpddr then
        [ddr_word 0 0 7, ddr_word 0 0 7, ddr_word 0x400 0 2, ddr_word 0 0 1, ddr_word 0 0 1, ddr_word 0x021 0 0, ddr_word 0 1 0, ddr_word 0 0 7]
      else
        [ddr_word 0 0 7, ddr_word 0x400 0 2, ddr_word 1 1 0, ddr_word (if bl4 then 0x122 else 0x121) 0 0, ddr_word 0x400 0 2,
         ddr_word 0 0 1, ddr_word 0 0 1, ddr_word (if bl4 then 0x022 else 0x021) 0 0])"

text \<open>\<open>k\<close> counts the turns of the delay loops and ends with the value read.\<close>

definition ddr_init :: "bool \<Rightarrow> bool \<Rightarrow> u32 \<Rightarrow> access list \<times> u32" where
  "ddr_init lpddr bl4 base_val =
     (let ws = DdrInitData lpddr bl4
      in (map (\<lambda>a. Mem_Write (DDR_BASE + a) 0) ws @ [Mem_Read DDR_BASE], of_nat (4 * length ws + 100) + base_val))"

text \<open>The start-up: the baud rate, the messages and the memory controller, in this order.\<close>

definition main_sh ::
  "(u8 \<Rightarrow> 'd \<Rightarrow> 'd option) \<Rightarrow> ('d \<Rightarrow> 'd) \<Rightarrow> string \<Rightarrow> bool \<Rightarrow> bool \<Rightarrow> u32 \<Rightarrow> 'd \<Rightarrow> (access list \<times> 'd) option" where
  "main_sh send set_baudrate version_string lpddr bl4 base_val d =
     Option.bind (putstr send (''CPU tests passed'' @ [CHR 0x0A]) (set_baudrate d)) (\<lambda>d1.
     Option.bind (putstr send (''DDR Init'' @ [CHR 0x0A]) d1) (\<lambda>d2.
     Option.bind (putstr send (''GDB Stub for HS-2J0 SH2 ROM'' @ [CHR 0x0A]) d2) (\<lambda>d3.
     map_option (Pair (fst (ddr_init lpddr bl4 base_val))) (putstr send version_string d3))))"

section \<open>The contract of a driver\<close>

locale serial_driver =
  fixes send :: "u8 \<Rightarrow> 'd \<Rightarrow> 'd option" and recv :: "'d \<Rightarrow> (u8 \<times> 'd) option"
    and line_in :: "'d \<Rightarrow> u8 list" and line_out :: "'d \<Rightarrow> u8 list" and ok :: "'d \<Rightarrow> bool"
  assumes send_ok: "ok d \<Longrightarrow> \<exists>d'. send c d = Some d' \<and> ok d' \<and> line_out d' = line_out d @ [c] \<and> line_in d' = line_in d"
    and recv_ok: "ok d \<Longrightarrow> line_in d = c # cs \<Longrightarrow> \<exists>d'. recv d = Some (c, d') \<and> ok d' \<and> line_in d' = cs \<and> line_out d' = line_out d"
    and recv_waits: "ok d \<Longrightarrow> line_in d = [] \<Longrightarrow> recv d = None"
begin

definition on_line :: "'d \<Rightarrow> Rom_World.world \<Rightarrow> bool" where
  "on_line d w \<longleftrightarrow> ok d \<and> rx w = line_in d \<and> tx w = line_out d"

lemma putc_refines: "on_line d w \<Longrightarrow> \<exists>d' w'. send c d = Some d' \<and> gdb_putc c w = Ret c w' \<and> on_line d' w'"
  using send_ok [of d c] by (force simp: on_line_def)

lemma getc_refines:
  "on_line d w \<Longrightarrow>
   (case recv d of Some (c, d') \<Rightarrow> \<exists>w'. gdb_getc w = Ret c w' \<and> on_line d' w' | None \<Rightarrow> gdb_getc w = Stop Blocked w)"
proof (cases "line_in d")
  case Nil
  then show "on_line d w \<Longrightarrow> ?thesis" using recv_waits [of d] by (simp add: on_line_def gdb_getc_def)
next
  case (Cons c cs)
  then show "on_line d w \<Longrightarrow> ?thesis" using recv_ok [of d c cs] by (force simp: on_line_def gdb_getc_def)
qed

lemma putstr_out:
  "ok d \<Longrightarrow> \<exists>d'. putstr send cs d = Some d' \<and> ok d' \<and> line_in d' = line_in d \<and>
     line_out d' = line_out d @ concat (map (\<lambda>c. if c = CHR 0x0A then [0x0D, 0x0A] else [ch c]) cs)"
proof (induction cs arbitrary: d)
  case (Cons c cs)
  have nl: "ch CHR 0x0A = 0x0A" by (simp add: ch_def)
  obtain d1 where d1: "(if c = CHR 0x0A then send 0x0D d else Some d) = Some d1" "ok d1" "line_in d1 = line_in d"
    "line_out d1 = line_out d @ (if c = CHR 0x0A then [0x0D] else [])"
    using Cons.prems send_ok [of d "0x0D"] by (cases "c = CHR 0x0A") auto
  obtain d2 where d2: "send (ch c) d1 = Some d2" "ok d2" "line_in d2 = line_in d1" "line_out d2 = line_out d1 @ [ch c]"
    using send_ok [OF d1(2)] by blast
  obtain d3 where "putstr send cs d2 = Some d3" "ok d3" "line_in d3 = line_in d2"
    "line_out d3 = line_out d2 @ concat (map (\<lambda>c. if c = CHR 0x0A then [0x0D, 0x0A] else [ch c]) cs)"
    using Cons.IH [OF d2(2)] by blast
  then show ?case using d1 d2 nl by (cases "c = CHR 0x0A") auto
qed simp

end

section \<open>The drivers on the simulated ports\<close>

text \<open>An access that the port refuses is a bus exception: the processor never gets its acknowledge.\<close>

definition lite_rd :: "uartlite reg_read" where
  "lite_rd addr u = (case uartlite_read addr u of Some (res, v, u') \<Rightarrow> if res = 0 then Some (v, u') else None | None \<Rightarrow> None)"

definition lite_wr :: "uartlite reg_write" where
  "lite_wr addr v u = snd (uartlite_write addr v u)"

definition ns_rd :: "uart reg_read" where
  "ns_rd addr u = (case uart_read addr u of Some (res, v, u') \<Rightarrow> if res = 0 then Some (v, u') else None | None \<Rightarrow> None)"

definition ns_wr :: "uart reg_write" where
  "ns_wr addr v u = snd (uart_write addr v u)"

definition lite_ok :: "uartlite \<Rightarrow> bool" where
  "lite_ok u \<longleftrightarrow> ul_start u = UART \<and> ul_end u = UART + 16"

definition ns_at :: "uart \<Rightarrow> bool" where
  "ns_at u \<longleftrightarrow> ua_start u = UART \<and> ua_end u = UART + 32"

definition ns_ok :: "uart \<Rightarrow> bool" where
  "ns_ok u \<longleftrightarrow> ns_at u \<and> \<not> is_dlab u"

lemma lite_reg:
  "lite_ok u \<Longrightarrow> uartlite_get_reg_id u UART = Some RX" "lite_ok u \<Longrightarrow> uartlite_get_reg_id u (UART + 4) = Some TX"
  "lite_ok u \<Longrightarrow> uartlite_get_reg_id u (UART + 8) = Some STAT" "lite_ok u \<Longrightarrow> uartlite_get_reg_id u (UART + 12) = Some CTRL"
  by (simp_all add: uartlite_get_reg_id_def reg_index_def lite_ok_def UART_def lite_regs_def)

lemma ns_reg:
  "ns_at u \<Longrightarrow> uart_get_reg_id u UART = Some RTX" "ns_at u \<Longrightarrow> uart_get_reg_id u (UART + 4) = Some IER"
  "ns_at u \<Longrightarrow> uart_get_reg_id u (UART + 12) = Some LCR" "ns_at u \<Longrightarrow> uart_get_reg_id u (UART + 20) = Some LSR"
  by (simp_all add: uart_get_reg_id_def reg_index_def ns_at_def UART_def uart_regs_def)

lemma ucast_u8_back: "ucast (ucast (c :: u8) AND (0xff :: u32)) = c" "ucast (ucast (c :: u8) :: u32) = c"
proof -
  have "(ucast c :: u32) AND 0xff = take_bit 8 (ucast c)" by (simp add: take_bit_eq_mask mask_eq_exp_minus_1)
  then show "ucast (ucast c AND (0xff :: u32)) = c" "ucast (ucast c :: u32) = c"
    by (auto intro!: bit_word_eqI simp: bit_simps)
qed

interpretation lite: serial_driver "lite_uart_tx lite_rd lite_wr" "lite_uart_rx lite_rd" ul_rx ul_tx lite_ok
proof
  fix d c cs
  assume ok: "lite_ok d"
  have st: "wait_reg lite_rd (UART + 8) (\<lambda>v. v AND 0x08 = 0) d = Some d" "wait_reg lite_rd (UART + 8) (\<lambda>v. v AND 0x01 \<noteq> 0) d = Some d"
    by (subst wait_reg.simps, simp add: lite_rd_def uartlite_read_def lite_reg [OF ok])+
  show "\<exists>d'. lite_uart_tx lite_rd lite_wr c d = Some d' \<and> lite_ok d' \<and> ul_tx d' = ul_tx d @ [c] \<and> ul_rx d' = ul_rx d"
    using ok st by (simp add: lite_uart_tx_def lite_wr_def uartlite_write_def lite_reg [OF ok] lite_ok_def ucast_u8_back)
  show "\<exists>d'. lite_uart_rx lite_rd d = Some (c, d') \<and> lite_ok d' \<and> ul_rx d' = cs \<and> ul_tx d' = ul_tx d" if "ul_rx d = c # cs"
    using ok st that by (simp add: lite_uart_rx_def lite_rd_def uartlite_read_def lite_reg [OF ok] lite_ok_def ucast_u8_back)
  show "lite_uart_rx lite_rd d = None" if "ul_rx d = []"
    using st that by (simp add: lite_uart_rx_def lite_rd_def uartlite_read_def lite_reg [OF ok])
qed

interpretation ns16550: serial_driver "ns_uart_tx ns_rd ns_wr" "ns_uart_rx ns_rd" ua_rx ua_tx ns_ok
proof
  fix d c cs
  assume ok: "ns_ok d"
  then have a: "ns_at d" "\<not> is_dlab d" by (auto simp: ns_ok_def)
  have st: "wait_reg ns_rd (UART + 20) (\<lambda>v. v AND 0x20 \<noteq> 0) d = Some d" "wait_reg ns_rd (UART + 20) (\<lambda>v. v AND 0x1 \<noteq> 0) d = Some d"
    by (subst wait_reg.simps, simp add: ns_rd_def uart_read_def ns_reg [OF a(1)])+
  show "\<exists>d'. ns_uart_tx ns_rd ns_wr c d = Some d' \<and> ns_ok d' \<and> ua_tx d' = ua_tx d @ [c] \<and> ua_rx d' = ua_rx d"
    using a st by (simp add: ns_uart_tx_def ns_wr_def uart_write_def ns_reg [OF a(1)] ns_ok_def ns_at_def is_dlab_def ucast_u8_back)
  show "\<exists>d'. ns_uart_rx ns_rd d = Some (c, d') \<and> ns_ok d' \<and> ua_rx d' = cs \<and> ua_tx d' = ua_tx d" if "ua_rx d = c # cs"
    using a st that by (simp add: ns_uart_rx_def ns_rd_def uart_read_def ns_reg [OF a(1)] ns_ok_def ns_at_def is_dlab_def ucast_u8_back)
  show "ns_uart_rx ns_rd d = None" if "ua_rx d = []"
    using a st that by (simp add: ns_uart_rx_def ns_rd_def uart_read_def ns_reg [OF a(1)])
qed

section \<open>Properties\<close>

text \<open>
  C33: on a simulated port, the drivers of the ROM behave as the serial line that the monitor is written
  for: sending a byte appends it to the line, receiving takes the next one, and without one the driver
  waits for ever. Both for the UART Lite and for the 16550 once its baud rate is set.
\<close>

theorem drivers_refine_serial_line:
  "(lite_ok u \<and> rx w = ul_rx u \<and> tx w = ul_tx u \<longrightarrow>
     (\<exists>u'. lite_uart_tx lite_rd lite_wr c u = Some u' \<and> lite_ok u' \<and>
        gdb_putc c w = Ret c (w\<lparr>tx := ul_tx u'\<rparr>) \<and> ul_rx u' = rx w) \<and>
     (case lite_uart_rx lite_rd u of
        Some (b, u') \<Rightarrow> gdb_getc w = Ret b (w\<lparr>rx := ul_rx u'\<rparr>) \<and> ul_tx u' = tx w \<and> lite_ok u'
      | None \<Rightarrow> gdb_getc w = Stop Blocked w)) \<and>
   (ns_ok v \<and> rx w = ua_rx v \<and> tx w = ua_tx v \<longrightarrow>
     (\<exists>v'. ns_uart_tx ns_rd ns_wr c v = Some v' \<and> ns_ok v' \<and>
        gdb_putc c w = Ret c (w\<lparr>tx := ua_tx v'\<rparr>) \<and> ua_rx v' = rx w) \<and>
     (case ns_uart_rx ns_rd v of
        Some (b, v') \<Rightarrow> gdb_getc w = Ret b (w\<lparr>rx := ua_rx v'\<rparr>) \<and> ua_tx v' = tx w \<and> ns_ok v'
      | None \<Rightarrow> gdb_getc w = Stop Blocked w))"
proof -
  have l1: "\<exists>u'. lite_uart_tx lite_rd lite_wr c u = Some u' \<and> lite_ok u' \<and>
      gdb_putc c w = Ret c (w\<lparr>tx := ul_tx u'\<rparr>) \<and> ul_rx u' = rx w" if "lite_ok u" "rx w = ul_rx u" "tx w = ul_tx u"
    using lite.send_ok [OF that(1), of c] that(2,3) by (auto simp: gdb_putc_def simp del: gdb_putc_out)
  have l2: "case lite_uart_rx lite_rd u of
        Some (b, u') \<Rightarrow> gdb_getc w = Ret b (w\<lparr>rx := ul_rx u'\<rparr>) \<and> ul_tx u' = tx w \<and> lite_ok u'
      | None \<Rightarrow> gdb_getc w = Stop Blocked w" if "lite_ok u" "rx w = ul_rx u" "tx w = ul_tx u"
    using lite.recv_ok [OF that(1)] lite.recv_waits [OF that(1)] that(2,3)
    by (cases "ul_rx u") (force simp: gdb_getc_def)+
  have n1: "\<exists>v'. ns_uart_tx ns_rd ns_wr c v = Some v' \<and> ns_ok v' \<and>
      gdb_putc c w = Ret c (w\<lparr>tx := ua_tx v'\<rparr>) \<and> ua_rx v' = rx w" if "ns_ok v" "rx w = ua_rx v" "tx w = ua_tx v"
    using ns16550.send_ok [OF that(1), of c] that(2,3) by (auto simp: gdb_putc_def simp del: gdb_putc_out)
  have n2: "case ns_uart_rx ns_rd v of
        Some (b, v') \<Rightarrow> gdb_getc w = Ret b (w\<lparr>rx := ua_rx v'\<rparr>) \<and> ua_tx v' = tx w \<and> ns_ok v'
      | None \<Rightarrow> gdb_getc w = Stop Blocked w" if "ns_ok v" "rx w = ua_rx v" "tx w = ua_tx v"
    using ns16550.recv_ok [OF that(1)] ns16550.recv_waits [OF that(1)] that(2,3)
    by (cases "ua_rx v") (force simp: gdb_getc_def)+
  show ?thesis using l1 l2 n1 n2 by blast
qed

definition sample_world :: Rom_World.world where
  "sample_world = \<lparr>rx = [0x2B, 0x24], tx = [], mem = (\<lambda>_. 0),
     register_file = \<lparr>pr = 0, gbr = 0, vbr = 0, mach = 0, macl = 0, r = [], pc = 0, sr = 0\<rparr>, gdb_sh2_stepped_opcode = 0\<rparr>"

theorem drivers_refine_serial_line_witness:
  "gdb_putc 0x41 sample_world = Ret 0x41 (sample_world\<lparr>tx := [0x41]\<rparr>) \<and>
   (\<exists>u'. lite_uart_tx lite_rd lite_wr 0x41 (uartlite_init UART [0x2B, 0x24]) = Some u' \<and> ul_tx u' = [0x41])"
proof -
  let ?u = "uartlite_init UART [0x2B, 0x24]" and ?v = "uart_init UART [0x2B, 0x24]"
  have "lite_ok ?u" "rx sample_world = ul_rx ?u" "tx sample_world = ul_tx ?u"
    by (simp_all add: lite_ok_def uartlite_init_def sample_world_def)
  then obtain u' where "lite_uart_tx lite_rd lite_wr 0x41 ?u = Some u'" "gdb_putc 0x41 sample_world = Ret 0x41 (sample_world\<lparr>tx := ul_tx u'\<rparr>)"
    using drivers_refine_serial_line [of ?u sample_world "0x41" ?v] by auto
  moreover have "tx (sample_world\<lparr>tx := ul_tx u'\<rparr>) = [0x41]"
    using calculation(2) by (simp add: out_def sample_world_def)
  ultimately show ?thesis by auto
qed

text \<open>
  the start-up of the ROM on a 16550 that comes out of reset sets the divisor to 10, leaves the
  divisor latch closed, prints its messages with a carriage return before every line feed, and gives the
  memory controller its eight commands, in the order of the table, before it reads the memory.
\<close>

theorem main_sh_starts_up:
  "\<exists>u'. main_sh (ns_uart_tx ns_rd ns_wr) (ns_uart_set_baudrate ns_wr) version lpddr bl4 v0 (uart_init UART inp) =
      Some (map (\<lambda>a. Mem_Write (DDR_BASE + a) 0) (DdrInitData lpddr bl4) @ [Mem_Read DDR_BASE], u') \<and>
    divisor_latch (ns_uart_set_baudrate ns_wr (uart_init UART inp)) = 10 \<and> \<not> is_dlab u' \<and> ua_rx u' = inp \<and>
    ua_tx u' = concat (map (\<lambda>c. if c = CHR 0x0A then [0x0D, 0x0A] else [ch c])
      (''CPU tests passed'' @ [CHR 0x0A] @ ''DDR Init'' @ [CHR 0x0A] @ ''GDB Stub for HS-2J0 SH2 ROM'' @ [CHR 0x0A] @ version)) \<and>
    length (DdrInitData lpddr bl4) = 8"
proof -
  let ?f = "\<lambda>c. if c = CHR 0x0A then [0x0D, 0x0A] else [ch c]"
  let ?send = "ns_uart_tx ns_rd ns_wr"
  define u0 where "u0 = ns_uart_set_baudrate ns_wr (uart_init UART inp)"
  have at: "ns_at u" if "ua_start u = UART" "ua_end u = UART + 32" for u using that by (simp add: ns_at_def)
  have u0: "u0 = (uart_init UART inp)\<lparr>divisor_latch := 10, lcr := 3\<rparr>"
    by (simp add: u0_def ns_uart_set_baudrate_def ns_wr_def uart_write_def ns_reg [OF at] uart_init_def is_dlab_def)
  have ok: "ns_ok u0" by (simp add: u0 ns_ok_def ns_at_def is_dlab_def uart_init_def)
  obtain u1 where u1: "putstr ?send (''CPU tests passed'' @ [CHR 0x0A]) u0 = Some u1" "ns_ok u1" "ua_rx u1 = ua_rx u0"
    "ua_tx u1 = ua_tx u0 @ concat (map ?f (''CPU tests passed'' @ [CHR 0x0A]))"
    using ns16550.putstr_out [OF ok] by blast
  obtain u2 where u2: "putstr ?send (''DDR Init'' @ [CHR 0x0A]) u1 = Some u2" "ns_ok u2" "ua_rx u2 = ua_rx u1"
    "ua_tx u2 = ua_tx u1 @ concat (map ?f (''DDR Init'' @ [CHR 0x0A]))"
    using ns16550.putstr_out [OF u1(2)] by blast
  obtain u3 where u3: "putstr ?send (''GDB Stub for HS-2J0 SH2 ROM'' @ [CHR 0x0A]) u2 = Some u3" "ns_ok u3" "ua_rx u3 = ua_rx u2"
    "ua_tx u3 = ua_tx u2 @ concat (map ?f (''GDB Stub for HS-2J0 SH2 ROM'' @ [CHR 0x0A]))"
    using ns16550.putstr_out [OF u2(2)] by blast
  obtain u4 where u4: "putstr ?send version u3 = Some u4" "ns_ok u4" "ua_rx u4 = ua_rx u3"
    "ua_tx u4 = ua_tx u3 @ concat (map ?f version)"
    using ns16550.putstr_out [OF u3(2)] by blast
  have z: "divisor_latch u0 = 10" "ua_rx u0 = inp" "ua_tx u0 = []" by (simp_all add: u0 uart_init_def)
  have "main_sh ?send (ns_uart_set_baudrate ns_wr) version lpddr bl4 v0 (uart_init UART inp) =
      Some (fst (ddr_init lpddr bl4 v0), u4)"
    unfolding main_sh_def u0_def [symmetric] by (simp only: u1(1) u2(1) u3(1) u4(1) Option.bind.simps option.map)
  moreover have "fst (ddr_init lpddr bl4 v0) = map (\<lambda>a. Mem_Write (DDR_BASE + a) 0) (DdrInitData lpddr bl4) @ [Mem_Read DDR_BASE]"
    "length (DdrInitData lpddr bl4) = 8"
    by (simp_all add: ddr_init_def Let_def DdrInitData_def)
  moreover have "ua_rx u4 = inp" "\<not> is_dlab u4" using u1(3) u2(3) u3(3) u4(2,3) z by (simp_all add: ns_ok_def)
  moreover have "ua_tx u4 = concat (map ?f (''CPU tests passed'' @ [CHR 0x0A] @ ''DDR Init'' @ [CHR 0x0A] @
      ''GDB Stub for HS-2J0 SH2 ROM'' @ [CHR 0x0A] @ version))"
    by (simp only: u4(4) u3(4) u2(4) u1(4) z(3) map_append concat_append append_assoc append_Nil)
  ultimately show ?thesis using z(1) unfolding u0_def by (intro exI [of _ u4]) simp
qed

end
