(* ===== verification/Sim_Times.thy ===== *)
theory Sim_Times
  imports Sim_Hooks
begin

text \<open>
  A bench over a whole run: as long as the process never reports a time of 2^63 ps (106 days) or more,
  every wait leaves the hooks in order. The locale \<open>timed_client\<close> adds to \<open>hook_client\<close> that callbacks
  leave the time, the signals and the input from the process alone.
\<close>

section \<open>What is still to come from the process\<close>

inductive comes :: "line_reader \<Rightarrow> read_result list \<Rightarrow> string \<Rightarrow> bool" where
  comes_now: "line_reader_next l sc = (Line x, l', sc') \<Longrightarrow> comes l sc x"
| comes_later: "line_reader_next l sc = (r, l', sc') \<Longrightarrow> comes l' sc' x \<Longrightarrow> comes l sc x"

fun cmd_time :: "cmd \<Rightarrow> u64" where
  "cmd_time (CMD_TIME p) = p"
| "cmd_time (CMD_VALUE i p v) = p"
| "cmd_time c = 0"

definition times_ok :: "('cb, 'm) sim \<Rightarrow> bool" where
  "times_ok s \<longleftrightarrow> picos s < 2 ^ 63 \<and>
     (\<forall>x c. comes (lr s) (rd_script s) x \<and> parse_command (signals s) (pico_scale s) x = Parsed c \<longrightarrow> cmd_time c < 2 ^ 63)"

definition same_input :: "('cb, 'm) sim \<Rightarrow> ('cb, 'm) sim \<Rightarrow> bool" where
  "same_input s s' \<longleftrightarrow> picos s' = picos s \<and> lr s' = lr s \<and> rd_script s' = rd_script s \<and> pico_scale s' = pico_scale s \<and>
     map sig_name (signals s') = map sig_name (signals s)"

lemma same_input_refl [simp]: "same_input s s"
  by (simp add: same_input_def)

lemma same_input_trans: "same_input s t \<Longrightarrow> same_input t u \<Longrightarrow> same_input s u"
  by (simp add: same_input_def)

lemma same_input_updates [simp]:
  "same_input s (set_hook_time h t s') = same_input s s'" "same_input s (disable_past h s') = same_input s s'"
  "same_input s (sim_hook_add h s') = same_input s s'" "same_input s (sim_hook_remove h s') = same_input s s'"
  "same_input s (sim_immediate_hook_add h s') = same_input s s'" "same_input s (sim_write_pty x s') = same_input s s'"
  "same_input s (s'\<lparr>hooks := l\<rparr>) = same_input s s'" "same_input s (s'\<lparr>calling_hooks := b\<rparr>) = same_input s s'"
  "same_input s (s'\<lparr>immediate_hooks := l\<rparr>) = same_input s s'" "same_input s (s'\<lparr>dirty_writes := b\<rparr>) = same_input s s'"
  "same_input s (s'\<lparr>wild_write := b\<rparr>) = same_input s s'" "same_input s (s'\<lparr>io_error := b\<rparr>) = same_input s s'"
  "same_input s (s'\<lparr>sig_wait_occurred := b\<rparr>) = same_input s s'" "same_input s (sim_clear_events s') = same_input s s'"
  "same_input s (send_echo s') = same_input s s'" "same_input s (watch_signal h b i s') = same_input s s'"
  by (auto simp: same_input_def set_hook_time_def disable_past_def sim_hook_add_def sim_hook_remove_def sim_immediate_hook_add_def
      sim_write_pty_def sim_clear_events_def send_echo_def watch_signal_def comp_def)

text \<open>A message is looked up by the names of the signals only.\<close>

lemma parse_command_names:
  assumes "map sig_name ss' = map sig_name ss"
  shows "parse_command ss' = parse_command ss"
proof -
  have L: "map sig_name a = map sig_name b \<Longrightarrow> lookup_from a i nm = lookup_from b i nm" for a b i nm
  proof (induction a arbitrary: b i)
    case (Cons x a)
    then show ?case by (cases b) auto
  qed simp
  have "sim_lookup_signal ss' = sim_lookup_signal ss" unfolding sim_lookup_signal_def by (intro ext L assms)
  then have "parse_parts ss' = parse_parts ss" by (intro ext) (simp only: parse_parts_def)
  then show ?thesis by (intro ext) (simp only: parse_command_def)
qed

lemma times_ok_input:
  assumes "times_ok s" "same_input s s'"
  shows "times_ok s'"
proof -
  have "parse_command (signals s') = parse_command (signals s)" using assms(2) by (intro parse_command_names) (simp add: same_input_def)
  then show ?thesis using assms by (simp add: times_ok_def same_input_def)
qed

lemma times_ok_next:
  "times_ok s \<Longrightarrow> line_reader_next (lr s) (rd_script s) = (r, l', sc') \<Longrightarrow> times_ok (s\<lparr>lr := l', rd_script := sc'\<rparr>)"
  unfolding times_ok_def by (auto intro: comes_later)

lemma upd_signal_names:
  assumes "\<And>g. sig_name (f g) = sig_name g"
  shows "map sig_name (signals (upd_signal i f s)) = map sig_name (signals s)"
proof (cases "i < length (signals s)")
  case True
  then show ?thesis using assms by (auto simp: upd_signal_def map_update intro: list_update_same_conv [THEN iffD2])
qed (simp add: upd_signal_def list_update_beyond)

lemma handle_cmd_times: "times_ok s \<Longrightarrow> cmd_time c < 2 ^ 63 \<Longrightarrow> times_ok (sim_handle_cmd c s)"
proof -
  assume t: "times_ok s" "cmd_time c < 2 ^ 63"
  have "map sig_name (signals (sim_handle_cmd c s)) = map sig_name (signals s)"
    by (cases c) (auto simp: Let_def upd_signal_names signal_set_value_def simp del: upd_signal_reader)
  then have "parse_command (signals (sim_handle_cmd c s)) = parse_command (signals s)" by (rule parse_command_names)
  moreover have "pico_scale (sim_handle_cmd c s) = pico_scale s" "picos (sim_handle_cmd c s) = picos s \<or> picos (sim_handle_cmd c s) = cmd_time c"
    by (cases c; simp add: upd_signal_def Let_def)+
  ultimately show ?thesis using t by (auto simp: times_ok_def simp del: sim_handle_cmd.simps)
qed

lemma idle_loop_times: "times_ok s \<Longrightarrow> times_ok (idle_loop sent s)"
proof (induction sent s rule: idle_loop.induct)
  case (1 sent s)
  obtain res l' sc' where n: "line_reader_next (lr s) (rd_script s) = (res, l', sc')" by (cases "line_reader_next (lr s) (rd_script s)") auto
  let ?s1 = "s\<lparr>lr := l', rd_script := sc'\<rparr>"
  have t: "times_ok ?s1" by (rule times_ok_next [OF "1.prems" n])
  have u: "times_ok (?s1\<lparr>wild_write := b\<rparr>)" "times_ok (?s1\<lparr>io_error := b\<rparr>)" for b
    by (rule times_ok_input [OF t]; simp add: same_input_def)+
  show ?case
  proof (cases res)
    case (Line line)
    note ih = "1.IH" [OF n [symmetric] Line refl refl]
    show ?thesis
    proof (cases "parse_command (signals ?s1) (pico_scale ?s1) line")
      case (Parsed c)
      have "cmd_time c < 2 ^ 63" using "1.prems" n Line Parsed by (auto simp: times_ok_def intro: comes_now)
      then have "times_ok (sim_handle_cmd c (send_echo ?s1))"
        by (intro handle_cmd_times times_ok_input [OF t]) simp_all
      then show ?thesis
        using n Line Parsed ih t by (subst idle_loop.simps) (auto simp: Let_def simp del: sim_handle_cmd.simps split: cmd.split)
    next
      case Bad_Cmd
      then show ?thesis using n Line ih t by (subst idle_loop.simps) (simp add: Let_def)
    next
      case Parts_Overrun
      then show ?thesis using n Line u(1) by (subst idle_loop.simps) (simp add: Let_def)
    qed
  qed (use n t u in \<open>subst idle_loop.simps; simp\<close>)+
qed

lemma go_to_idle_times: "times_ok s \<Longrightarrow> times_ok (sim_go_to_idle s)"
  by (simp add: sim_go_to_idle_def idle_loop_times times_ok_input [of s "send_echo s"])

section \<open>Clients\<close>

locale timed_client = hook_client +
  assumes cb_input: "run_cb call h s = (res, s') \<Longrightarrow> same_input s s'"
begin

lemma fire_loop_input: "fire_loop call hs s = (kept, s') \<Longrightarrow> same_input s s'"
proof (induction hs arbitrary: s kept s')
  case (Cons h hs)
  obtain res s1 where cb: "run_cb call h s = (res, s1)" by fastforce
  have i: "same_input s s1" by (rule cb_input [OF cb])
  show ?case
    using Cons.prems cb i by (auto simp: Let_def split: if_splits prod.splits dest!: Cons.IH)
      (erule same_input_trans [rotated], simp)+
qed simp

lemma fire_input: "same_input s (sim_fire_events call s)"
proof -
  obtain kept s1 where f: "fire_loop call (hooks s) (s\<lparr>hooks := [], calling_hooks := True\<rparr>) = (kept, s1)" by fastforce
  have add: "same_input s (fold sim_hook_add l t)" if "same_input s t" for l t
    using that by (induction l arbitrary: t) auto
  have imm: "same_input s (fold (\<lambda>h s. snd (run_cb call h s)) l t)" if "same_input s t" for l t
    using that
  proof (induction l arbitrary: t)
    case (Cons h l)
    have "same_input t (snd (run_cb call h t))" by (rule cb_input [of h t "fst (run_cb call h t)"]) simp
    then show ?case using Cons by (auto intro: same_input_trans)
  qed simp
  have "same_input s (s1\<lparr>calling_hooks := False, hooks := kept\<rparr>)"
    using fire_loop_input [OF f] by (simp add: same_input_def)
  then have "same_input s (fold (\<lambda>h s. snd (run_cb call h s)) l (fold sim_hook_add k (s1\<lparr>calling_hooks := False, hooks := kept\<rparr>)))" for l k
    by (intro imm add)
  then show ?thesis using f by (simp add: sim_fire_events_def Let_def)
qed

text \<open>Every wait, and every read of a signal, keeps the bench in order.\<close>

definition run_ok :: "('a, 'b) sim \<Rightarrow> bool" where
  "run_ok s \<longleftrightarrow> bench_ok s \<and> times_ok s"

lemma run_ok_idle: "run_ok s \<Longrightarrow> idle_ok (sim_idle call s) \<and> run_ok (sim_idle call s)"
proof -
  assume s: "run_ok s"
  then have t: "times_ok (sim_go_to_idle s)" by (simp add: run_ok_def go_to_idle_times)
  then have "times_ok (sim_idle call s)"
    unfolding sim_idle_def by (intro times_ok_input [OF times_ok_input [OF t fire_input]]) simp
  moreover have "idle_ok (sim_idle call s)" using s t by (intro sim_idle_ok) (auto simp: run_ok_def times_ok_def)
  ultimately show ?thesis by (simp add: run_ok_def idle_ok_def)
qed

lemma run_ok_frame: "run_ok s \<Longrightarrow> same_hooks s s' \<Longrightarrow> same_input s s' \<Longrightarrow> run_ok s'"
  using same_hooks_ok times_ok_input by (auto simp: run_ok_def)

lemma run_ok_write_idle: "run_ok s \<Longrightarrow> idle_ok (sim_idle call (sim_write_pty t s)) \<and> run_ok (sim_idle call (sim_write_pty t s))"
  by (rule run_ok_idle, erule run_ok_frame) simp_all

lemma run_ok_wait: "run_ok s \<Longrightarrow> idle_ok (sim_wait call s) \<and> run_ok (sim_wait call s)"
  and run_ok_wait_once: "run_ok s \<Longrightarrow> idle_ok (sim_wait_once call d s) \<and> run_ok (sim_wait_once call d s)"
proof -
  show once: "idle_ok (sim_wait_once call d s) \<and> run_ok (sim_wait_once call d s)" if "run_ok s" for d
    using run_ok_write_idle [OF that] that by (auto simp: sim_wait_once_def run_ok_def bench_ok_def)
  show "idle_ok (sim_wait call s) \<and> run_ok (sim_wait call s)" if "run_ok s"
    using once [OF that] run_ok_write_idle [OF that] that by (auto simp: sim_wait_def Let_def run_ok_def bench_ok_def)
qed

lemma run_ok_refresh: "run_ok s \<Longrightarrow> run_ok (refresh call s)"
  using run_ok_idle [OF run_ok_frame [of s "s\<lparr>dirty_writes := False\<rparr>"]] by (simp add: refresh_def)

end

end
