(* ===== verification/Sim_Signals.thy ===== *)
theory Sim_Signals
  imports Sim_Times
begin

text \<open>
  Properties of the simulator core over its signal table: values keep their width, a number written to a
  signal is read back, the exchange of echoes takes in every message, and a forced wait returns.
\<close>

text \<open>A simulator with two signals, \<open>clk\<close> and \<open>db.ack\<close>, and no hooks.\<close>

definition demo_sim :: "read_result list \<Rightarrow> nat simulator" where
  "demo_sim sc =
     \<lparr>sim_kind = SIM_TYPE_GHDL, signals = sample_table, on_exit = SIMEXIT_NONE, child_running = True, exit_status = 0, picos = 0, pico_scale = 1,
      lr = line_reader_init, rd_script = sc, pty_out = [], io_error = False, any_event = False, dirty_writes = False, events = empty_bv,
      calling_hooks = False, hook_of = (\<lambda>_. \<lparr>hk_cb = Sig_Wait_Cb, hk_signals = empty_bv, hk_time = 0\<rparr>), hooks = [], immediate_hooks = [],
      sig_wait_occurred = False, echo_arg = 0, wild_write = False\<rparr>"

section \<open>Values keep their width\<close>

definition sig_wf :: "signal \<Rightarrow> bool" where
  "sig_wf sg \<longleftrightarrow> (case sig_value sg of None \<Rightarrow> True | Some v \<Rightarrow> length v = value_len sg \<and> list_all (\<lambda>c. c_toupper c = c) v)"

text \<open>What a message may change of a signal.\<close>

definition sig_step :: "signal \<Rightarrow> signal \<Rightarrow> bool" where
  "sig_step g h \<longleftrightarrow> sig_name h = sig_name g \<and> sig_index h = sig_index g \<and> read_only h = read_only g \<and>
     (sig_value g \<noteq> None \<longrightarrow> sig_value h \<noteq> None \<and> value_len h = value_len g) \<and> (sig_wf g \<longrightarrow> sig_wf h)"

definition table_step :: "('cb, 'm) sim \<Rightarrow> ('cb, 'm) sim \<Rightarrow> bool" where
  "table_step s t \<longleftrightarrow> list_all2 sig_step (signals s) (signals t)"

lemma sig_step_refl [simp]: "sig_step g g"
  by (simp add: sig_step_def)

lemma table_step_refl [simp]: "signals t = signals s \<Longrightarrow> table_step s t"
  by (simp add: table_step_def list.rel_refl)

lemma table_step_trans: "table_step s t \<Longrightarrow> table_step t u \<Longrightarrow> table_step s u"
  unfolding table_step_def by (rule list_all2_trans) (auto simp: sig_step_def)

lemma toupper_idem [simp]: "c_toupper (c_toupper c) = c_toupper c"
  by (auto simp: c_toupper_def Let_def)

lemma set_value_step: "sig_step g (signal_set_value g v)" "sig_step g ((signal_set_value g v)\<lparr>event := e\<rparr>)"
  by (auto simp: sig_step_def sig_wf_def signal_set_value_def Let_def list_all_iff split: option.splits)

lemma upd_signal_step: "(\<And>g. sig_step g (f g)) \<Longrightarrow> table_step s (upd_signal i f s)"
  by (cases "i < length (signals s)")
    (auto simp: table_step_def upd_signal_def list_all2_conv_all_nth nth_list_update list_update_beyond)

lemma handle_cmd_step: "table_step s (sim_handle_cmd c s)"
proof (cases c)
  case (CMD_VALUE i p v)
  have "table_step s (upd_signal i (\<lambda>sg. (signal_set_value sg v)\<lparr>event := True\<rparr>) s)"
    by (rule upd_signal_step) (rule set_value_step)
  then show ?thesis by (simp add: CMD_VALUE Let_def table_step_def)
qed (auto intro: upd_signal_step set_value_step)

lemma idle_loop_step: "table_step s (idle_loop sent s)"
proof (induction sent s rule: idle_loop.induct)
  case (1 sent s)
  obtain res l' sc' where n: "line_reader_next (lr s) (rd_script s) = (res, l', sc')" by (cases "line_reader_next (lr s) (rd_script s)") auto
  let ?s1 = "s\<lparr>lr := l', rd_script := sc'\<rparr>"
  have tr: "table_step ?s1 t \<longleftrightarrow> table_step s t" for t by (simp add: table_step_def)
  have 0: "table_step s ?s1" "table_step s (send_echo ?s1)" by (simp_all add: send_echo_def sim_write_pty_def)
  show ?case
  proof (cases res)
    case (Line line)
    note ih = "1.IH" [OF n [symmetric] Line refl refl]
    show ?thesis
    proof (cases "parse_command (signals ?s1) (pico_scale ?s1) line")
      case (Parsed c)
      have "table_step s (sim_handle_cmd c (send_echo ?s1))" by (rule table_step_trans [OF 0(2) handle_cmd_step])
      then show ?thesis
        using n Line Parsed ih 0 by (subst idle_loop.simps) (auto simp: Let_def tr simp del: sim_handle_cmd.simps split: cmd.split intro: table_step_trans)
    next
      case Bad_Cmd
      then show ?thesis using n Line ih 0 by (subst idle_loop.simps) (auto simp: Let_def tr)
    next
      case Parts_Overrun
      then show ?thesis using n Line by (subst idle_loop.simps) (simp add: Let_def)
    qed
  qed (use n in \<open>subst idle_loop.simps; simp\<close>)+
qed

text \<open>
  C11: Whatever the process writes, reading its messages keeps the signal table typed: no signal appears,
  disappears or changes its name, a signal's value has the width that its first value fixed, in upper case, and
  a signal that has a value keeps having one.
\<close>

theorem signals_stay_typed:
  assumes "list_all sig_wf (signals s)"
  shows "list_all sig_wf (signals (sim_go_to_idle s)) \<and> map sig_name (signals (sim_go_to_idle s)) = map sig_name (signals s) \<and>
    (\<forall>i<length (signals s). \<forall>v. sig_value (signals s ! i) = Some v \<longrightarrow>
       (\<exists>v'. sig_value (signals (sim_go_to_idle s) ! i) = Some v' \<and> length v' = length v))"
proof -
  let ?t = "sim_go_to_idle s"
  have "table_step s ?t"
    using idle_loop_step [of "send_echo s" "echo_arg s"] table_step_trans [of s "send_echo s"]
    by (simp add: sim_go_to_idle_def send_echo_def sim_write_pty_def)
  then have l: "length (signals ?t) = length (signals s)" and st: "\<And>i. i < length (signals s) \<Longrightarrow> sig_step (signals s ! i) (signals ?t ! i)"
    by (auto simp: table_step_def list_all2_conv_all_nth)
  have wf: "sig_wf (signals s ! i) \<and> sig_wf (signals ?t ! i)" if "i < length (signals s)" for i
    using assms st [OF that] that by (auto simp: list_all_length sig_step_def)
  have "\<exists>v'. sig_value (signals ?t ! i) = Some v' \<and> length v' = length v" if "i < length (signals s)" "sig_value (signals s ! i) = Some v" for i v
    using st [OF that(1)] wf [OF that(1)] that(2) by (auto simp: sig_step_def sig_wf_def)
  moreover have "map sig_name (signals ?t) = map sig_name (signals s)"
    using l st by (auto intro!: nth_equalityI simp: sig_step_def)
  ultimately show ?thesis using l wf by (auto simp: list_all_length)
qed

theorem signals_stay_typed_witness:
  "list_all sig_wf (signals (sim_go_to_idle (demo_sim [Data (''r db.ack  10'' @ [CHR 0x0A])])))"
proof -
  have "list_all sig_wf (signals (demo_sim [Data (''r db.ack  10'' @ [CHR 0x0A])]))"
    by (simp add: demo_sim_def sig_wf_def sample_table_def)
  from signals_stay_typed [OF this] show ?thesis by blast
qed

section \<open>Numbers and their digits\<close>

lemma bits_value_append: "bits_value v (xs @ ys) = Option.bind (bits_value v xs) (\<lambda>w. bits_value w ys)"
  by (induction xs arbitrary: v) auto

lemma bits_string_Suc: "bits_string (Suc n) v = (if bit v (n mod 32) then CHR ''1'' else CHR ''0'') # bits_string n v"
  by (simp add: bits_string_def)

lemma bits_value_string: "n \<le> 32 \<Longrightarrow> bits_value w (bits_string n v) = Some (push_bit n w OR take_bit n v)"
proof (induction n arbitrary: w)
  case (Suc n)
  have "push_bit n (push_bit 1 w OR of_bool (bit v n)) OR take_bit n v = push_bit (Suc n) w OR take_bit (Suc n) v"
    by (rule bit_word_eqI) (auto simp: bit_simps less_Suc_eq)
  then show ?case using Suc by (auto simp: bits_string_Suc)
qed (simp add: bits_string_def)

lemma toupper_bits: "map c_toupper (bits_string n v) = bits_string n v"
  by (simp add: bits_string_def c_toupper_def comp_def)

section \<open>The exchange of echoes\<close>

text \<open>
  What the process answers from the echo with number \<open>n\<close> on: messages, each of which makes the bench send one
  more echo, and echoes that come too late, until the echo that was sent last.
\<close>

fun answers :: "u16 \<Rightarrow> cmd list \<Rightarrow> bool" where
  "answers n [] = False"
| "answers n (CMD_ECHO a # cs) = (if a = dec_string (unat n) then cs = [] else answers n cs)"
| "answers n (c # cs) = answers (n + 1) cs"

fun is_echo :: "cmd \<Rightarrow> bool" where
  "is_echo (CMD_ECHO a) = True"
| "is_echo c = False"

definition line_ok :: "signal list \<Rightarrow> cmd \<Rightarrow> bool" where
  "line_ok ss c \<longleftrightarrow> cmd_ok ss c \<and> list_all (\<lambda>x. \<not> is_nl x) (print_cmd ss c) \<and> length (print_cmd ss c) < LINE_BUF_LEN"

definition print_lines :: "signal list \<Rightarrow> cmd list \<Rightarrow> string" where
  "print_lines ss cs = concat (map (\<lambda>c. print_cmd ss c @ [CHR 0x0A]) cs)"

lemma print_cmd_ne: "print_cmd ss c \<noteq> []"
  by (cases c) simp_all

lemma next_line_printed:
  assumes "line_ok ss c"
  shows "next_line (print_cmd ss c @ CHR 0x0A # rest) = Some (print_cmd ss c, rest)"
proof -
  obtain x xs where p: "print_cmd ss c = x # xs" using print_cmd_ne by (cases "print_cmd ss c") auto
  have l: "list_all (\<lambda>x. \<not> is_nl x) (x # xs)" using assms p by (simp add: line_ok_def)
  have nl: "is_nl CHR 0x0A" by (simp add: is_nl_def)
  have d: "dropWhile is_nl (x # xs @ CHR 0x0A # rest) = (x # xs) @ CHR 0x0A # rest" using l by simp
  have "dropWhile (\<lambda>c. \<not> is_nl c) ((x # xs) @ CHR 0x0A # rest) = CHR 0x0A # rest"
    "takeWhile (\<lambda>c. \<not> is_nl c) ((x # xs) @ CHR 0x0A # rest) = x # xs"
    using l nl by (auto simp: list_all_iff dropWhile_append takeWhile_append)
  then show ?thesis using d nl unfolding p next_line_def by (simp add: Let_def)
qed

text \<open>The effect of the messages, one after the other.\<close>

definition take_in :: "cmd \<Rightarrow> ('cb, 'm) sim \<Rightarrow> ('cb, 'm) sim" where
  "take_in c s = (if is_echo c then s else sim_handle_cmd c (send_echo s))"

lemma send_echo_reader: "send_echo (s\<lparr>lr := l, rd_script := sc\<rparr>) = (send_echo s)\<lparr>lr := l, rd_script := sc\<rparr>"
  by (simp add: send_echo_def sim_write_pty_def)

lemma handle_cmd_reader: "sim_handle_cmd c (s\<lparr>lr := l, rd_script := sc\<rparr>) = (sim_handle_cmd c s)\<lparr>lr := l, rd_script := sc\<rparr>"
proof (cases c)
  case (CMD_VALUE i p v)
  show ?thesis unfolding CMD_VALUE by (simp add: Let_def upd_signal_def)
next
  case (CMD_READ i v)
  show ?thesis unfolding CMD_READ by (simp add: upd_signal_def)
qed simp_all

lemma take_in_reader: "take_in c (s\<lparr>lr := l, rd_script := sc\<rparr>) = (take_in c s)\<lparr>lr := l, rd_script := sc\<rparr>"
  by (simp only: take_in_def send_echo_reader handle_cmd_reader split: if_split) blast

lemma take_in_names: "map sig_name (signals (take_in c s)) = map sig_name (signals s)" "pico_scale (take_in c s) = pico_scale s"
proof -
  let ?t = "send_echo s"
  have "map sig_name (signals (sim_handle_cmd c t)) = map sig_name (signals t)" for t :: "('a, 'b) sim"
    by (cases c) (auto simp: Let_def upd_signal_names signal_set_value_def simp del: upd_signal_reader)
  moreover have "pico_scale (sim_handle_cmd c t) = pico_scale t" for t :: "('a, 'b) sim"
    by (cases c; simp add: upd_signal_def Let_def)
  moreover have "signals ?t = signals s" "pico_scale ?t = pico_scale s" by (simp_all add: send_echo_def sim_write_pty_def)
  ultimately show "map sig_name (signals (take_in c s)) = map sig_name (signals s)" "pico_scale (take_in c s) = pico_scale s"
    by (simp_all add: take_in_def del: sim_handle_cmd.simps)
qed

lemma fold_take_in_reader: "fold take_in cs (s\<lparr>lr := l, rd_script := sc\<rparr>) = (fold take_in cs s)\<lparr>lr := l, rd_script := sc\<rparr>"
  by (induction cs arbitrary: s) (simp_all add: take_in_reader)

lemma take_in_echo_arg: "\<not> is_echo c \<Longrightarrow> echo_arg (take_in c s) = echo_arg s + 1"
  by (cases c) (simp_all add: take_in_def send_echo_def sim_write_pty_def upd_signal_def Let_def)

text \<open>The format of a message depends on the names of the signals only.\<close>

lemma line_ok_names:
  assumes "map sig_name ss' = map sig_name ss"
  shows "table_ok ss' = table_ok ss" "line_ok ss c \<Longrightarrow> line_ok ss' c \<and> print_cmd ss' c = print_cmd ss c"
proof -
  have l: "length ss' = length ss" using arg_cong [OF assms, of length] by simp
  have nm: "sig_name (ss' ! i) = sig_name (ss ! i)" if "i < length ss" for i
    using arg_cong [OF assms, of "\<lambda>x. x ! i"] that l by simp
  have "list_all (\<lambda>g. word_ok (sig_name g)) ss' = list_all (\<lambda>g. word_ok (sig_name g)) ss" using l nm by (auto simp: list_all_length)
  then show "table_ok ss' = table_ok ss" by (simp add: table_ok_def assms)
  show "line_ok ss' c \<and> print_cmd ss' c = print_cmd ss c" if "line_ok ss c"
  proof -
    have "print_cmd ss' c = print_cmd ss c" "cmd_ok ss' c = cmd_ok ss c" using that l nm by (cases c; auto simp: line_ok_def)+
    then show ?thesis using that by (simp add: line_ok_def)
  qed
qed

lemma print_lines_names:
  assumes "map sig_name ss' = map sig_name ss" "list_all (line_ok ss) cs"
  shows "print_lines ss' cs = print_lines ss cs" "list_all (line_ok ss') cs"
  using assms(2) line_ok_names(2) [OF assms(1)] by (induction cs) (auto simp: print_lines_def)

lemma idle_loop_takes_in:
  assumes "reader_wf (lr s, rd_script s)" "pending (lr s, rd_script s) = print_lines (signals s) cs @ rest" "answers (echo_arg s - 1) cs"
    "table_ok (signals s)" "pico_scale s = 1" "list_all (line_ok (signals s)) cs"
  shows "\<exists>lr' sc'. idle_loop (echo_arg s - 1) s = (fold take_in cs s)\<lparr>lr := lr', rd_script := sc'\<rparr> \<and>
    reader_wf (lr', sc') \<and> pending (lr', sc') = rest"
  using assms
proof (induction cs arbitrary: s)
  case (Cons c cs)
  let ?p = "print_cmd (signals s) c"
  have l: "line_ok (signals s) c" using Cons.prems(6) by simp
  have "next_line (pending (lr s, rd_script s)) = Some (?p, print_lines (signals s) cs @ rest)"
    using next_line_printed [OF l] Cons.prems(2) by (simp add: print_lines_def)
  from line_reader_next_spec [OF Cons.prems(1) this] l obtain l' sc' where
    n: "line_reader_next (lr s) (rd_script s) = (Line ?p, l', sc')" "reader_wf (l', sc')" "pending (l', sc') = print_lines (signals s) cs @ rest"
    by (auto simp: line_ok_def)
  let ?s1 = "s\<lparr>lr := l', rd_script := sc'\<rparr>"
  have pc: "parse_command (signals s) (pico_scale s) ?p = Parsed c"
    using parse_print_cmd [OF Cons.prems(4)] l Cons.prems(5) by (simp add: line_ok_def)
  show ?case
  proof (cases "is_echo c")
    case True
    then obtain a where c: "c = CMD_ECHO a" by (cases c) auto
    have st: "take_in c s = s" by (simp add: take_in_def True)
    show ?thesis
    proof (cases "a = dec_string (unat (echo_arg s - 1))")
      case a: True
      then have "idle_loop (echo_arg s - 1) s = ?s1" using n(1) pc c by (subst idle_loop.simps) simp
      moreover have "cs = []" using Cons.prems(3) c a by simp
      ultimately show ?thesis using n(2,3) st by (auto simp: print_lines_def)
    next
      case a: False
      then have "idle_loop (echo_arg s - 1) s = idle_loop (echo_arg s - 1) ?s1" using n(1) pc c by (subst idle_loop.simps) simp
      moreover have "answers (echo_arg ?s1 - 1) cs" using Cons.prems(3) c a by simp
      ultimately show ?thesis
        using Cons.IH [of ?s1] n(2,3) Cons.prems(4-6) st by (simp add: fold_take_in_reader)
    qed
  next
    case False
    let ?s2 = "take_in c ?s1"
    have e: "echo_arg ?s2 - 1 = echo_arg s" using take_in_echo_arg [OF False, of ?s1] by simp
    have i: "idle_loop (echo_arg s - 1) s = idle_loop (echo_arg ?s2 - 1) ?s2"
      unfolding e using n(1) pc False by (subst idle_loop.simps) (cases c; simp add: take_in_def Let_def del: sim_handle_cmd.simps)
    have nm: "map sig_name (signals ?s2) = map sig_name (signals s)" using take_in_names(1) [of c ?s1] by simp
    have rd: "lr ?s2 = l'" "rd_script ?s2 = sc'" by (simp_all add: take_in_reader)
    have cs: "list_all (line_ok (signals s)) cs" using Cons.prems(6) by simp
    have "answers (echo_arg ?s2 - 1) cs" unfolding e using Cons.prems(3) False by (cases c) simp_all
    then show ?thesis
      unfolding i using Cons.IH [of ?s2] n(2,3) Cons.prems(4,5) take_in_names(2) [of c ?s1] print_lines_names [OF nm cs] line_ok_names(1) [OF nm]
      by (simp add: rd take_in_reader fold_take_in_reader)
  qed
qed simp

text \<open>
  C8: \<open>sim_go_to_idle\<close> takes in everything the process has to say. The process answers echoes in the order they
  are sent; its messages and late echoes come in any mixture and cut into any pieces. Then the bench handles
  every message once, in order, sends one echo for each, stops exactly behind the echo it sent last, and leaves
  what follows unread.
\<close>

theorem go_to_idle_takes_in_all:
  assumes "\<not> io_error s" "reader_wf (lr s, rd_script s)" "pending (lr s, rd_script s) = print_lines (signals s) cs @ rest"
    "answers (echo_arg s) cs" "table_ok (signals s)" "pico_scale s = 1" "list_all (line_ok (signals s)) cs"
  shows "\<exists>lr' sc'. sim_go_to_idle s =
      (fold (\<lambda>c s. sim_handle_cmd c (send_echo s)) (filter (\<lambda>c. \<not> is_echo c) cs) (send_echo s))\<lparr>lr := lr', rd_script := sc'\<rparr> \<and>
    pending (lr', sc') = rest"
proof -
  let ?s = "send_echo s"
  have e: "echo_arg ?s - 1 = echo_arg s" "signals ?s = signals s" "pico_scale ?s = pico_scale s" by (simp_all add: send_echo_def sim_write_pty_def)
  have f: "fold take_in cs t = fold (\<lambda>c s. sim_handle_cmd c (send_echo s)) (filter (\<lambda>c. \<not> is_echo c) cs) t" for t :: "('a, 'b) sim"
    by (induction cs arbitrary: t) (auto simp: take_in_def simp del: sim_handle_cmd.simps)
  show ?thesis
    using idle_loop_takes_in [of ?s cs rest] assms by (auto simp: e f sim_go_to_idle_def simp del: sim_handle_cmd.simps)
qed

definition demo_cmds :: "cmd list" where
  "demo_cmds = [CMD_READ 1 ''01'', CMD_ECHO ''0'', CMD_VALUE 0 10000 ''1'', CMD_ECHO ''1'', CMD_ECHO ''2'']"

theorem go_to_idle_takes_in_all_witness:
  "picos (sim_go_to_idle (demo_sim [Data (print_lines sample_table demo_cmds)])) = 10000"
proof -
  let ?s = "demo_sim [Data (print_lines sample_table demo_cmds)]"
  have "\<not> io_error ?s" "reader_wf (lr ?s, rd_script ?s)" "pending (lr ?s, rd_script ?s) = print_lines (signals ?s) demo_cmds @ []"
    "table_ok (signals ?s)" "pico_scale ?s = 1"
    by (simp_all add: demo_sim_def reader_wf_def line_reader_init_def pending_def script_ok_def print_lines_def demo_cmds_def
        table_ok_def sample_table_def word_ok_def c_isblank_def)
  moreover have "answers (echo_arg ?s) demo_cmds" by code_simp
  moreover have "print_time 10000 = ''10 ns''" by code_simp
  then have "list_all (line_ok (signals ?s)) demo_cmds"
    by (simp add: demo_cmds_def line_ok_def demo_sim_def sample_table_def word_ok_def c_isblank_def is_nl_def LINE_BUF_LEN_def)
  ultimately have "\<exists>lr' sc'. sim_go_to_idle ?s =
      (fold (\<lambda>c s. sim_handle_cmd c (send_echo s)) (filter (\<lambda>c. \<not> is_echo c) demo_cmds) (send_echo ?s))\<lparr>lr := lr', rd_script := sc'\<rparr> \<and>
    pending (lr', sc') = []" using go_to_idle_takes_in_all [of ?s demo_cmds "[]"] by blast
  moreover have "picos (fold (\<lambda>c s. sim_handle_cmd c (send_echo s)) (filter (\<lambda>c. \<not> is_echo c) demo_cmds) (send_echo ?s)) = 10000"
    by (simp add: demo_cmds_def upd_signal_def Let_def)
  ultimately show ?thesis by auto
qed

section \<open>A number written and read back\<close>

text \<open>Callbacks of a bench write to the process, add hooks and so on, but they leave the signal table alone.\<close>

definition keeps_signals :: "('cb, 'm) client \<Rightarrow> bool" where
  "keeps_signals call \<longleftrightarrow> (\<forall>c h s. signals (snd (call c h s)) = signals s)"

lemma keeps_signals_cb: "keeps_signals call \<Longrightarrow> signals (snd (run_cb call h s)) = signals s"
  by (simp add: keeps_signals_def run_cb_def sig_wait_cb_def split: callback.split)

lemma fire_keeps_signals:
  assumes "keeps_signals call"
  shows "signals (snd (fire_loop call hs s)) = signals s" "signals (sim_fire_events call s) = signals s"
proof -
  have u: "signals (set_hook_time h x t) = signals t" "signals (disable_past h t) = signals t" "signals (sim_hook_add h t) = signals t"
    for h x and t :: "('a, 'b) sim"
    by (simp_all add: set_hook_time_def disable_past_def sim_hook_add_def)
  have l: "signals (snd (fire_loop call hs s)) = signals s" for hs s
  proof (induction hs arbitrary: s)
    case (Cons h hs)
    obtain res s1 where r: "run_cb call h s = (res, s1)" by fastforce
    have "signals s1 = signals s" using keeps_signals_cb [OF assms, of h s] r by simp
    then have "signals (snd (fire_loop call hs (set_hook_time h 0 s1))) = signals s" "signals (snd (fire_loop call hs (disable_past h s1))) = signals s"
      "signals (snd (fire_loop call hs ((disable_past h s1)\<lparr>hooks := l\<rparr>))) = signals s" "signals (snd (fire_loop call hs s)) = signals s" for l
      by (simp_all add: Cons.IH u)
    then show ?case by (simp add: r Let_def case_prod_beta)
  qed simp
  show "signals (snd (fire_loop call hs s)) = signals s" by (rule l)
  have a: "signals (fold sim_hook_add hs t) = signals t" "signals (fold (\<lambda>h s. snd (run_cb call h s)) hs t) = signals t"
    for hs and t :: "('a, 'b) sim"
    by (induction hs arbitrary: t) (simp_all add: u keeps_signals_cb [OF assms])
  obtain kept s1 where f: "fire_loop call (hooks s) (s\<lparr>hooks := [], calling_hooks := True\<rparr>) = (kept, s1)" by fastforce
  have "signals s1 = signals s" using l [of "hooks s" "s\<lparr>hooks := [], calling_hooks := True\<rparr>"] f by simp
  then show "signals (sim_fire_events call s) = signals s" by (simp add: sim_fire_events_def f Let_def a)
qed

text \<open>The last value that the messages report of signal \<open>i\<close>, which had the value \<open>v\<close>.\<close>

fun reported :: "nat \<Rightarrow> string \<Rightarrow> cmd list \<Rightarrow> string" where
  "reported i v [] = v"
| "reported i v (CMD_VALUE j p x # cs) = reported i (if j = i then x else v) cs"
| "reported i v (CMD_READ j x # cs) = reported i (if j = i then x else v) cs"
| "reported i v (c # cs) = reported i v cs"

text \<open>What the table holds of a value that is reported to a signal \<open>n\<close> characters wide.\<close>

definition fitted :: "nat \<Rightarrow> string \<Rightarrow> string" where
  "fitted n x = map c_toupper (take n (x @ replicate n CHR 0x00))"

lemma length_fitted [simp]: "length (fitted n x) = n"
  by (simp add: fitted_def)

lemma take_in_value:
  assumes "i < length (signals s)" "sig_value (signals s ! i) = Some (fitted n v)" "value_len (signals s ! i) = n"
  shows "i < length (signals (fold take_in cs s)) \<and> sig_value (signals (fold take_in cs s) ! i) = Some (fitted n (reported i v cs)) \<and>
    value_len (signals (fold take_in cs s) ! i) = n"
  using assms
proof (induction cs arbitrary: s v)
  case (Cons c cs)
  let ?t = "take_in c s"
  have e: "signals (send_echo s) = signals s" by (simp add: send_echo_def sim_write_pty_def)
  have l: "length (signals ?t) = length (signals s)" using arg_cong [OF take_in_names(1) [of c s], of length] by simp
  have "sig_value (signals ?t ! i) = Some (fitted n (reported i v [c])) \<and> value_len (signals ?t ! i) = n"
    using Cons.prems
    by (cases c) (auto simp: take_in_def e upd_signal_def signal_set_value_def Let_def nth_list_update fitted_def)
  moreover have "reported i (reported i v [c]) cs = reported i v (c # cs)" by (cases c) simp_all
  ultimately show ?case using Cons.IH [of ?t "reported i v [c]"] Cons.prems(1) l by simp
qed simp

lemma take_in_flags: "calling_hooks (fold take_in cs s) = calling_hooks s"
proof (induction cs arbitrary: s)
  case (Cons c cs)
  have "calling_hooks (take_in c s) = calling_hooks s"
    by (cases c) (simp_all add: take_in_def send_echo_def sim_write_pty_def upd_signal_def Let_def)
  then show ?case using Cons by simp
qed simp

text \<open>
  C16: A number written to a signal is read back. \<open>sim_seti\<close> writes one command with as many binary digits as
  the signal is wide and marks the bench as having unread writes. Outside callbacks the next \<open>sim_geti\<close> therefore
  first lets the process answer and calls the hooks: whatever else the process reports, in whatever pieces, if
  the last value it reports of the signal is the one written - or it reports none because the signal had that
  value already - \<open>sim_geti\<close> gives the number again, cut to the width of the signal, provided that the callbacks do
  not change the table. Inside a callback \<open>sim_geti\<close> does not talk to the process and still gives the
  number from before the write.
\<close>

theorem written_number_is_read:
  assumes "i < length (signals s)" "sig_wf (signals s ! i)" "sig_value (signals s ! i) = Some old" "value_len (signals s ! i) \<le> 32"
    "\<not> read_only (signals s ! i)" "length (sig_name (signals s ! i)) \<le> 200"
    and "\<not> io_error s" "reader_wf (lr s, rd_script s)" "pending (lr s, rd_script s) = print_lines (signals s) cs @ rest"
    "answers (echo_arg s) cs" "table_ok (signals s)" "pico_scale s = 1" "list_all (line_ok (signals s)) cs"
    and "reported i old cs = bits_string (length old) v" "keeps_signals call"
  shows "fst (sim_seti i v s) = 0 \<and>
    pty_out (snd (sim_seti i v s)) = pty_out s @ ''w '' @ sig_name (signals s ! i) @ '' '' @ bits_string (length old) v @ [CHR 0x0A] \<and>
    (if calling_hooks s then sim_geti call i (snd (sim_seti i v s)) = (geti i s, snd (sim_seti i v s))
     else fst (sim_geti call i (snd (sim_seti i v s))) = take_bit (length old) v)"
proof -
  let ?g = "signals s ! i" let ?d = "bits_string (length old) v"
  let ?cmd = "''w '' @ sig_name ?g @ '' '' @ ?d @ [CHR 0x0A]"
  let ?t = "(sim_write_pty ?cmd s)\<lparr>dirty_writes := True\<rparr>"
  have len: "value_len ?g = length old" "length ?d = length old" using assms(2,3) by (simp_all add: bits_string_def sig_wf_def)
  have t: "sim_seti i v s = (0, ?t)"
    using assms(1,4-6) len by (auto simp: sim_seti_def Let_def sig_at_def CMD_BUF_LEN_def)
  have "sim_geti call i ?t = (geti i s, ?t)" if "calling_hooks s"
  proof -
    have "calling_hooks ?t" using that by (simp add: sim_write_pty_def)
    moreover have "signals ?t = signals s" "sig_at ?t i = sig_at s i" by (simp_all add: sig_at_def sim_write_pty_def)
    then have "geti i ?t = geti i s" by (simp only: geti_def geti_check_def)
    ultimately show ?thesis by (simp add: geti_in_callback(2))
  qed
  moreover have "fst (sim_geti call i ?t) = take_bit (length old) v" if nc: "\<not> calling_hooks s"
  proof -
    define u where "u = ?t\<lparr>dirty_writes := False\<rparr>"
    define e where "e = send_echo u"
    have e: "echo_arg e - 1 = echo_arg s" "signals e = signals s" "pico_scale e = pico_scale s" "lr e = lr s" "rd_script e = rd_script s"
      "\<not> io_error u" "echo_arg u = echo_arg s"
      using assms(7) by (simp_all add: e_def u_def send_echo_def sim_write_pty_def)
    obtain lr' sc' where "idle_loop (echo_arg e - 1) e = (fold take_in cs e)\<lparr>lr := lr', rd_script := sc'\<rparr>"
      using idle_loop_takes_in [of e cs rest] assms(8-13) unfolding e by blast
    then have idle: "sim_go_to_idle u = (fold take_in cs e)\<lparr>lr := lr', rd_script := sc'\<rparr>"
      using e by (simp add: sim_go_to_idle_def e_def)
    have "fitted (length old) old = old"
      using assms(2,3) len by (auto simp: fitted_def sig_wf_def list_all_iff intro: map_idI)
    then have "sig_value (signals e ! i) = Some (fitted (length old) old)" using assms(3) e(2) by simp
    from take_in_value [OF _ this, of cs] assms(1) e(2) len(1)
    have v: "i < length (signals (sim_go_to_idle u))" "value_len (signals (sim_go_to_idle u) ! i) = length old"
      "sig_value (signals (sim_go_to_idle u) ! i) = Some (fitted (length old) ?d)"
      by (simp_all add: idle assms(14))
    let ?r = "sim_idle call u"
    have d: "fitted (length old) ?d = ?d" using len(2) by (simp add: fitted_def toupper_bits)
    have r: "i < length (signals ?r)" "value_len (signals ?r ! i) = length old" "sig_value (signals ?r ! i) = Some ?d"
      using v by (simp_all add: sim_idle_def sim_clear_events_def fire_keeps_signals [OF assms(15)] d)
    have "refresh call ?t = ?r" using nc by (simp add: refresh_def sim_write_pty_def u_def)
    moreover have "bits_value 0 ?d = Some (take_bit (length old) v)" using assms(4) len(1) by (simp add: bits_value_string)
    moreover have "i \<le> length (signals ?t)" using assms(1) by (simp add: sim_write_pty_def)
    ultimately show ?thesis using r len(2) by (simp add: sim_geti_def sim_geti_check_def sig_at_def Let_def)
  qed
  ultimately show ?thesis by (simp add: t) (simp add: sim_write_pty_def)
qed

text \<open>The process answers with a change of the clock, the value written and the echoes.\<close>

definition demo_report :: "cmd list" where
  "demo_report = [CMD_VALUE 0 10000 ''1'', CMD_VALUE 1 10000 ''1101'', CMD_ECHO ''2'']"

theorem written_number_is_read_witness:
  "fst (sim_geti (\<lambda>_ _ s. (0, s)) 1 (snd (sim_seti 1 0x3D
     ((demo_sim [Data (print_lines sample_table demo_report)])\<lparr>signals := sample_table[1 := (sample_table ! 1)\<lparr>sig_value := Some ''0000'', value_len := 4\<rparr>]\<rparr>)))) = 0xD"
proof -
  let ?tab = "sample_table[1 := (sample_table ! 1)\<lparr>sig_value := Some ''0000'', value_len := 4\<rparr>]"
  let ?s = "(demo_sim [Data (print_lines sample_table demo_report)])\<lparr>signals := ?tab\<rparr>"
  have c: "c_toupper CHR ''0'' = CHR ''0''" by (simp add: c_toupper_def)
  have a: "1 < length (signals ?s)" "sig_wf (signals ?s ! 1)" "sig_value (signals ?s ! 1) = Some ''0000''" "value_len (signals ?s ! 1) \<le> 32"
    "\<not> read_only (signals ?s ! 1)" "length (sig_name (signals ?s ! 1)) \<le> 200"
    by (simp_all add: demo_sim_def sample_table_def sig_wf_def c)
  have n: "map sig_name ?tab = map sig_name sample_table" by (simp add: sample_table_def)
  have t: "table_ok sample_table" by (simp add: table_ok_def sample_table_def word_ok_def c_isblank_def)
  have "print_time 10000 = ''10 ns''" by code_simp
  then have l: "list_all (line_ok sample_table) demo_report"
    by (simp add: demo_report_def line_ok_def sample_table_def word_ok_def c_isblank_def is_nl_def LINE_BUF_LEN_def)
  have b: "\<not> io_error ?s" "reader_wf (lr ?s, rd_script ?s)" "pending (lr ?s, rd_script ?s) = print_lines (signals ?s) demo_report @ []"
    "answers (echo_arg ?s) demo_report" "table_ok (signals ?s)" "pico_scale ?s = 1" "list_all (line_ok (signals ?s)) demo_report"
  proof -
    show "answers (echo_arg ?s) demo_report" by code_simp
    show "table_ok (signals ?s)" using line_ok_names(1) [OF n] t by simp
    show "list_all (line_ok (signals ?s)) demo_report" using print_lines_names(2) [OF n l] by simp
    show "pending (lr ?s, rd_script ?s) = print_lines (signals ?s) demo_report @ []"
      using print_lines_names(1) [OF n l] by (simp add: demo_sim_def line_reader_init_def pending_def)
    show "reader_wf (lr ?s, rd_script ?s)"
      by (simp add: demo_sim_def reader_wf_def line_reader_init_def script_ok_def print_lines_def demo_report_def)
  qed (simp_all add: demo_sim_def)
  have r: "reported 1 ''0000'' demo_report = bits_string (length ''0000'') 0x3D" by (simp add: demo_report_def bits_string_def upt_rec)
  have k: "keeps_signals (\<lambda>_ _ s. (0, s))" by (simp add: keeps_signals_def)
  have "\<not> calling_hooks ?s" by (simp add: demo_sim_def)
  with written_number_is_read [OF a b r k] show ?thesis by (simp add: take_bit_eq_mod)
qed

section \<open>Forced waits\<close>

text \<open>
  C17: A forced wait returns once the process keeps time running: if every single wait before the target time
  leaves the simulation at a later time, \<open>sim_wait_time\<close> returns, not before the target time.
\<close>

theorem forced_wait_returns:
  assumes "I s" "\<not> calling_hooks s"
    and "\<And>t. I t \<Longrightarrow> picos t < picos s + d \<Longrightarrow>
      I (sim_wait_once call (picos s + d - picos t) t) \<and> picos t < picos (sim_wait_once call (picos s + d - picos t) t)"
  shows "\<exists>s'. sim_wait_time call d True s = Some s' \<and> I s' \<and> picos s + d \<le> picos s'"
proof -
  have "\<exists>s'. wait_until call (picos s + d) t = Some s' \<and> I s' \<and> picos s + d \<le> picos s'" if "I t" for t
    using that
  proof (induction "2 ^ 64 - unat (picos t)" arbitrary: t rule: less_induct)
    case less
    let ?t = "sim_wait_once call (picos s + d - picos t) t"
    show ?case
    proof (cases "picos t < picos s + d")
      case True
      note step = assms(3) [OF less.prems True]
      have "unat (picos ?t) < 2 ^ 64" using unsigned_less [of "picos ?t"] by simp
      moreover have "unat (picos t) < unat (picos ?t)" using step by (simp add: word_less_nat_alt)
      ultimately have "2 ^ 64 - unat (picos ?t) < 2 ^ 64 - unat (picos t)" by (intro diff_less_mono2) simp_all
      then show ?thesis using less.hyps [of ?t] step True by (subst wait_until.simps) simp
    next
      case False
      then show ?thesis using less.prems by (subst wait_until.simps) auto
    qed
  qed
  then show ?thesis using assms(1,2) by (simp add: sim_wait_time_def)
qed

definition demo_times :: "cmd list" where
  "demo_times = [CMD_TIME 10000, CMD_ECHO ''1'']"

lemma demo_wait: "picos (sim_wait_once call d (demo_sim [Data (print_lines sample_table demo_times)])) = 10000"
proof -
  let ?s = "demo_sim [Data (print_lines sample_table demo_times)]"
  let ?t = "send_echo (sim_write_pty (wait_cmd d ?s) ?s)"
  have "print_time 10000 = ''10 ns''" by code_simp
  then have l: "list_all (line_ok (signals ?t)) demo_times"
    by (simp add: demo_times_def line_ok_def demo_sim_def sample_table_def word_ok_def c_isblank_def is_nl_def LINE_BUF_LEN_def
        send_echo_def sim_write_pty_def)
  have e: "echo_arg ?t = 1" by (simp add: send_echo_def sim_write_pty_def demo_sim_def)
  have a: "answers (echo_arg ?t - 1) demo_times" unfolding e by code_simp
  have "reader_wf (lr ?t, rd_script ?t)" "pending (lr ?t, rd_script ?t) = print_lines (signals ?t) demo_times @ []"
    "table_ok (signals ?t)" "pico_scale ?t = 1"
    by (simp_all add: send_echo_def sim_write_pty_def demo_sim_def reader_wf_def line_reader_init_def pending_def script_ok_def print_lines_def
        demo_times_def table_ok_def sample_table_def word_ok_def c_isblank_def)
  from idle_loop_takes_in [OF this(1,2) a this(3,4) l] obtain l' sc' where
    "idle_loop (echo_arg ?t - 1) ?t = (fold take_in demo_times ?t)\<lparr>lr := l', rd_script := sc'\<rparr>" by blast
  then have "sim_go_to_idle (sim_write_pty (wait_cmd d ?s) ?s) = (fold take_in demo_times ?t)\<lparr>lr := l', rd_script := sc'\<rparr>"
    by (simp add: sim_go_to_idle_def e) (simp add: sim_write_pty_def demo_sim_def)
  then show ?thesis
    by (simp add: sim_wait_once_def sim_idle_def sim_fire_events_def sim_clear_events_def demo_times_def take_in_def Let_def)
      (simp add: send_echo_def sim_write_pty_def demo_sim_def)
qed

theorem forced_wait_returns_witness:
  "\<exists>s'. sim_wait_time (\<lambda>_ _ s. (0, s)) 10000 True (demo_sim [Data (print_lines sample_table demo_times)]) = Some s' \<and> 10000 \<le> picos s'"
proof -
  let ?s = "demo_sim [Data (print_lines sample_table demo_times)]"
  have p: "picos ?s = 0" "\<not> calling_hooks ?s" by (simp_all add: demo_sim_def)
  have "\<exists>s'. sim_wait_time (\<lambda>_ _ s. (0, s)) 10000 True ?s = Some s' \<and> (s' = ?s \<or> 10000 \<le> picos s') \<and> picos ?s + 10000 \<le> picos s'"
    by (rule forced_wait_returns) (use p in \<open>auto simp: demo_wait\<close>)
  then show ?thesis using p(1) by auto
qed

end
