(* ===== verification/Bus_Hooks.thy ===== *)
theory Bus_Hooks
  imports Mem_Bus Sim_Times
begin

text \<open>
  The hooks of the memory buses: a bus schedules its drop hook only when it is not scheduled, and removes
  it only when it is, so the list of hooks stays a list. This is the contract \<open>hook_client\<close> of the
  simulator, for any devices that leave the hooks alone.

  Bus \<open>b\<close> has the hooks \<open>3 b + 1\<close> (\<open>rw_hook\<close>), \<open>3 b + 2\<close> (\<open>drop_ack_hook\<close>) and \<open>3 b + 3\<close>
  (\<open>cancel_drop_hook\<close>); the struct members of mem_bus.h have distinct addresses.
\<close>

section \<open>Steps of a bus\<close>

definition small :: "'fn mem_bus \<Rightarrow> bool" where
  "small bus \<longleftrightarrow> ack_drop_delay bus < 0x400000 \<and> d_drop_ack bus < 0x400000"

text \<open>What a device leaves as it is.\<close>

definition quiet :: "('m \<Rightarrow> 'k) \<Rightarrow> ('x, 'fn, 'm) bench \<Rightarrow> ('x, 'fn, 'm) bench \<Rightarrow> bool" where
  "quiet K s s' \<longleftrightarrow> hook_of s' = hook_of s \<and> hooks s' = hooks s \<and> calling_hooks s' = calling_hooks s \<and>
     immediate_hooks s' = immediate_hooks s \<and> picos s' = picos s \<and> buses s' = buses s \<and> K (bus_sim.more s') = K (bus_sim.more s)"

text \<open>A step of bus \<open>b\<close> that schedules no hook.\<close>

definition calm :: "('m \<Rightarrow> 'k) \<Rightarrow> ('k \<Rightarrow> bool) \<Rightarrow> nat \<Rightarrow> ('x, 'fn, 'm) bench \<Rightarrow> ('x, 'fn, 'm) bench \<Rightarrow> bool" where
  "calm K P b s s' \<longleftrightarrow> calling_hooks s' = calling_hooks s \<and> picos s' = picos s \<and> hooks s' = hooks s \<and>
     (\<forall>h. hk_cb (hook_of s' h) = hk_cb (hook_of s h)) \<and>
     (\<forall>k. k \<noteq> rw_hook (buses s b) \<longrightarrow> hook_time s' k = hook_time s k) \<and>
     set (immediate_hooks s') \<subseteq> insert (cancel_drop_hook (buses s b)) (set (immediate_hooks s)) \<and>
     (\<forall>c. rw_hook (buses s' c) = rw_hook (buses s c) \<and> drop_ack_hook (buses s' c) = drop_ack_hook (buses s c) \<and>
        cancel_drop_hook (buses s' c) = cancel_drop_hook (buses s c) \<and> (P (K (bus_sim.more s)) \<and> small (buses s c) \<longrightarrow> small (buses s' c))) \<and>
     K (bus_sim.more s') = K (bus_sim.more s)"

lemma calm_refl [simp]: "calm K P b s s"
  by (auto simp: calm_def)

lemma calm_trans: "calm K P b s t \<Longrightarrow> calm K P b t u \<Longrightarrow> calm K P b s u"
  by (auto simp: calm_def)

lemma quiet_calm: "quiet K s s' \<Longrightarrow> calm K P b s s'"
  by (auto simp: quiet_def calm_def hook_time_def)

lemma quiet_set [simp]: "quiet K s (seti i v s)" "quiet K s (set_all i c s)"
  by (auto simp: quiet_def seti_def set_all_def sim_seti_def sim_set_all_def sim_set_def Let_def sim_write_pty_def)

lemma calm_upd_bus:
  assumes "\<And>bus. rw_hook (f bus) = rw_hook bus \<and> drop_ack_hook (f bus) = drop_ack_hook bus \<and>
    cancel_drop_hook (f bus) = cancel_drop_hook bus" "small (buses s b) \<Longrightarrow> small (f (buses s b))"
  shows "calm K P b s (upd_bus b f s)"
  using assms by (auto simp: calm_def upd_bus_def hook_time_def)

lemma calm_quiet_upd:
  assumes "quiet K s s1" "\<And>bus. rw_hook (f bus) = rw_hook bus \<and> drop_ack_hook (f bus) = drop_ack_hook bus \<and>
    cancel_drop_hook (f bus) = cancel_drop_hook bus" "P (K (bus_sim.more s)) \<Longrightarrow> small (buses s b) \<Longrightarrow> small (f (buses s b))"
  shows "calm K P b s (upd_bus b f s1)"
  using assms by (auto simp: calm_def quiet_def upd_bus_def hook_time_def)

lemma calm_rw_time: "h = rw_hook (buses s b) \<Longrightarrow> calm K P b s (set_hook_time h t s)"
  by (auto simp: calm_def set_hook_time_def hook_time_def)

lemma calm_imm: "h = cancel_drop_hook (buses s b) \<Longrightarrow> calm K P b s (sim_immediate_hook_add h s)"
  by (auto simp: calm_def sim_immediate_hook_add_def hook_time_def dl_append_def)

lemma quiet_trans: "quiet K s t \<Longrightarrow> quiet K t u \<Longrightarrow> quiet K s u"
  by (simp add: quiet_def)

lemma quiet_drop_ack: "quiet K s (drop_ack b s)"
proof -
  have "quiet K s (set_all i c (seti j v s))" for i c j v by (rule quiet_trans [OF quiet_set(1) quiet_set(2)])
  moreover have "quiet K s s" by (simp add: quiet_def)
  ultimately show ?thesis by (simp add: drop_ack_def Let_def)
qed

lemma calm_buses [simp]:
  "calm K P b s s' \<Longrightarrow> rw_hook (buses s' c) = rw_hook (buses s c)"
  "calm K P b s s' \<Longrightarrow> cancel_drop_hook (buses s' c) = cancel_drop_hook (buses s c)"
  by (simp_all add: calm_def)

lemma calm_raise_ack: "calm K P b s (raise_ack b rd s)"
proof -
  let ?s1 = "upd_bus b (\<lambda>bus. bus\<lparr>ack_pending := False\<rparr>) s"
  let ?s2 = "if rd then seti (sg_dout (sig (buses ?s1 b))) (read_val (buses ?s1 b)) ?s1 else ?s1"
  let ?s3 = "upd_bus b (\<lambda>bus. bus\<lparr>op_count := op_count bus + 1\<rparr>) ?s2"
  let ?s4 = "seti (sg_ack (sig (buses ?s1 b))) 1 ?s3"
  have "calm K P b s ?s1" by (rule calm_upd_bus) (auto simp: small_def)
  moreover have "calm K P b ?s1 ?s2" by (simp add: quiet_calm)
  moreover have "calm K P b ?s2 ?s3" by (rule calm_upd_bus) (auto simp: small_def)
  moreover have "calm K P b ?s3 ?s4" by (simp add: quiet_calm)
  ultimately have c: "calm K P b s ?s4" by (blast intro: calm_trans)
  then show ?thesis
    unfolding raise_ack_def Let_def by (rule calm_trans) (rule calm_imm, simp)
qed

lemma calm_bus_reset: "calm K P b s (bus_reset b s)"
proof -
  let ?s1 = "upd_bus b (\<lambda>bus. bus\<lparr>ack_pending := False\<rparr>) s"
  let ?s2 = "sim_immediate_hook_add (cancel_drop_hook (buses s b)) ?s1"
  have c1: "calm K P b s ?s1" by (rule calm_upd_bus) (auto simp: small_def)
  moreover have "calm K P b ?s1 ?s2" using c1 by (intro calm_imm) simp
  ultimately have c2: "calm K P b s ?s2" by (rule calm_trans)
  then have c3: "calm K P b s (drop_ack b ?s2)" by (rule calm_trans [OF _ quiet_calm [OF quiet_drop_ack]])
  then show ?thesis
    unfolding bus_reset_def by (rule calm_trans) (rule calm_rw_time, use c3 in simp)
qed

section \<open>Scheduling the drop\<close>

text \<open>A step that may also schedule the drop hook, if it was not scheduled.\<close>

definition sched :: "('m \<Rightarrow> 'k) \<Rightarrow> ('k \<Rightarrow> bool) \<Rightarrow> nat \<Rightarrow> ('x, 'fn, 'm) bench \<Rightarrow> ('x, 'fn, 'm) bench \<Rightarrow> bool" where
  "sched K P b s s' \<longleftrightarrow> calm K P b s s' \<or>
     (\<exists>t. hook_time s (drop_ack_hook (buses s b)) = 0 \<and> picos s < t \<and>
        calm K P b ((set_hook_time (drop_ack_hook (buses s b)) t s)\<lparr>hooks := hooks s @ [drop_ack_hook (buses s b)]\<rparr>) s')"

lemma sched_calm: "sched K P b s s1 \<Longrightarrow> calm K P b s1 s2 \<Longrightarrow> sched K P b s s2"
  unfolding sched_def by (meson calm_trans)

lemma calm_sched: "calm K P b s s' \<Longrightarrow> sched K P b s s'"
  by (simp add: sched_def)

lemma later_time:
  assumes "p < 2 ^ 63" "d \<noteq> 0" "d < (0x400000 :: u32)"
  shows "(p :: u64) < p + ucast (d * 1000)"
proof -
  define k where "k = unat d"
  define n where "n = unat p"
  have k: "0 < k" "k < 0x400000"
    using assms(2,3) by (simp_all add: k_def unat_gt_0 word_less_nat_alt)
  have n: "n < 2 ^ 63" using assms(1) by (simp add: n_def word_less_nat_alt)
  have m: "unat (d * 1000) = k * 1000"
    using k by (simp add: unat_word_ariths k_def [symmetric])
  have "unat (ucast (d * 1000) :: u64) = k * 1000"
    using k by (simp add: unsigned_ucast_eq m take_bit_eq_mod)
  then have "unat (p + ucast (d * 1000)) = n + k * 1000"
    using k n by (simp add: unat_word_ariths n_def [symmetric])
  then show ?thesis using k(1) by (simp add: word_less_nat_alt n_def [symmetric])
qed

lemma sched_drop:
  assumes "calling_hooks s" "small (buses s b)" "picos s < 2 ^ 63" "drop_ack_hook (buses s b) \<noteq> rw_hook (buses s b)"
  shows "sched K P b s (schedule_ack_drop b s)"
proof -
  let ?h = "drop_ack_hook (buses s b)" and ?d = "ack_drop_delay (buses s b)"
  consider (now) "?d = 0" | (already) "?d \<noteq> 0" "hook_time s ?h \<noteq> 0" | (later) "?d \<noteq> 0" "hook_time s ?h = 0" by blast
  then show ?thesis
  proof cases
    case now
    then have "schedule_ack_drop b s = drop_ack b s" by (simp add: schedule_ack_drop_def Let_def)
    then show ?thesis using calm_sched [OF quiet_calm [OF quiet_drop_ack]] by simp
  next
    case already
    then show ?thesis by (simp add: schedule_ack_drop_def Let_def calm_sched)
  next
    case later
    let ?t = "picos s + ucast (?d * 1000)"
    let ?s0 = "(set_hook_time ?h ?t s)\<lparr>hooks := hooks s @ [?h]\<rparr>"
    have "schedule_ack_drop b s = upd_bus b (\<lambda>bus. bus\<lparr>ack_drop_op := op_count bus\<rparr>) ?s0"
      using later assms(1) by (simp add: schedule_ack_drop_def Let_def sim_hook_add_def set_hook_time_def upd_bus_def dl_append_def)
    moreover have "calm K P b ?s0 (upd_bus b (\<lambda>bus. bus\<lparr>ack_drop_op := op_count bus\<rparr>) ?s0)"
      by (rule calm_upd_bus) (auto simp: small_def)
    moreover have "picos s < ?t" using later assms(2,3) by (intro later_time) (auto simp: small_def)
    ultimately show ?thesis using later(2) unfolding sched_def by auto
  qed
qed

lemma sched_end_previous:
  assumes "calling_hooks s" "small (buses s b)" "picos s < 2 ^ 63" "drop_ack_hook (buses s b) \<noteq> rw_hook (buses s b)"
  shows "sched K P b s (end_previous b s)"
proof -
  have "calm K P b s (upd_bus b (\<lambda>bus. bus\<lparr>ack_pending := False\<rparr>) s)" by (rule calm_upd_bus) (auto simp: small_def)
  then show ?thesis using sched_drop [OF assms] by (auto simp: end_previous_def calm_sched)
qed

section \<open>The invariant of the buses\<close>

definition bus_hooks_ok :: "nat set \<Rightarrow> ('x, 'fn, 'm) bench \<Rightarrow> nat \<Rightarrow> bool" where
  "bus_hooks_ok L s b \<longleftrightarrow>
     rw_hook (buses s b) = 3 * b + 1 \<and> drop_ack_hook (buses s b) = 3 * b + 2 \<and> cancel_drop_hook (buses s b) = 3 * b + 3 \<and>
     hk_cb (hook_of s (3 * b + 1)) = User_Cb (Bus_Cb (Read_Write_Cb b)) \<and>
     hk_cb (hook_of s (3 * b + 2)) = User_Cb (Bus_Cb (Drop_Ack_Cb b)) \<and>
     hk_cb (hook_of s (3 * b + 3)) = User_Cb (Bus_Cb (Cancel_Drop_Cb b)) \<and>
     (3 * b + 2 \<in> L \<longleftrightarrow> hook_time s (3 * b + 2) \<noteq> 0) \<and> 3 * b + 3 \<notin> L \<and> small (buses s b)"

definition bus_inv :: "('m \<Rightarrow> 'k) \<Rightarrow> ('k \<Rightarrow> bool) \<Rightarrow> nat \<Rightarrow> nat set \<Rightarrow> ('x, 'fn, 'm) bench \<Rightarrow> bool" where
  "bus_inv K P nb L s \<longleftrightarrow> P (K (bus_sim.more s)) \<and> (\<forall>b<nb. bus_hooks_ok L s b) \<and>
     (0 \<in> L \<longrightarrow> hk_cb (hook_of s 0) = Sig_Wait_Cb) \<and>
     (\<forall>h\<in>set (immediate_hooks s). \<exists>b<nb. h = 3 * b + 3)"

text \<open>Which hook a callback belongs to.\<close>

lemma hook_number: "h = 0 \<or> 3 * nb < h \<or> (\<exists>b<nb. h = 3 * b + 1 \<or> h = 3 * b + 2 \<or> h = 3 * b + (3 :: nat))"
  by presburger

lemma calmD:
  assumes "calm K P b s s'"
  shows "calling_hooks s' = calling_hooks s" "picos s' = picos s" "hooks s' = hooks s" "hk_cb (hook_of s' h) = hk_cb (hook_of s h)"
    "k \<noteq> rw_hook (buses s b) \<Longrightarrow> hook_time s' k = hook_time s k"
    "set (immediate_hooks s') \<subseteq> insert (cancel_drop_hook (buses s b)) (set (immediate_hooks s))"
    "rw_hook (buses s' c) = rw_hook (buses s c)" "drop_ack_hook (buses s' c) = drop_ack_hook (buses s c)"
    "cancel_drop_hook (buses s' c) = cancel_drop_hook (buses s c)" "P (K (bus_sim.more s)) \<Longrightarrow> small (buses s c) \<Longrightarrow> small (buses s' c)"
    "K (bus_sim.more s') = K (bus_sim.more s)"
  using assms unfolding calm_def by blast+

lemma calm_inv:
  assumes "bus_inv K P nb L s" "b < nb" "calm K P b s s'"
  shows "bus_inv K P nb L s'"
proof -
  have "rw_hook (buses s b) = 3 * b + 1" "cancel_drop_hook (buses s b) = 3 * b + 3"
    using assms(1,2) by (auto simp: bus_inv_def bus_hooks_ok_def)
  then have "hook_time s' (3 * c + 2) = hook_time s (3 * c + 2)" for c
    by (intro calmD(5) [OF assms(3)]) presburger
  then have "bus_hooks_ok L s' c" if "c < nb" for c
    using assms(1) that calmD(4,7-11) [OF assms(3)] by (simp add: bus_inv_def bus_hooks_ok_def)
  moreover have "\<forall>h\<in>set (immediate_hooks s'). \<exists>b<nb. h = 3 * b + 3"
    using assms(1,2) calmD(6) [OF assms(3)] \<open>cancel_drop_hook (buses s b) = 3 * b + 3\<close> by (auto simp: bus_inv_def)
  ultimately show ?thesis using assms(1) calmD(4,11) [OF assms(3)] by (simp add: bus_inv_def)
qed

text \<open>Changing the time of a hook that is no drop hook.\<close>

lemma bus_inv_time:
  assumes "bus_inv K P nb L s" "\<And>b. b < nb \<Longrightarrow> h \<noteq> 3 * b + 2"
  shows "bus_inv K P nb L (set_hook_time h t s)" "bus_inv K P nb L (disable_past h s)"
proof -
  have "hook_time (set_hook_time h t s) (3 * c + 2) = hook_time s (3 * c + 2)" if "c < nb" for c t
    using assms(2) [OF that] by simp
  moreover have "hk_cb (hook_of (set_hook_time h t s) k) = hk_cb (hook_of s k)" "buses (set_hook_time h t s) = buses s"
    "bus_sim.more (set_hook_time h t s) = bus_sim.more s" for k t
    by (simp_all add: set_hook_time_def)
  ultimately have "bus_inv K P nb L (set_hook_time h t s)" for t
    using assms(1) by (simp add: bus_inv_def bus_hooks_ok_def del: hook_time_simps)
  then show "bus_inv K P nb L (set_hook_time h t s)" "bus_inv K P nb L (disable_past h s)"
    using assms(1) by (auto simp: disable_past_def)
qed

lemma quiet_inv: "bus_inv K P nb L s \<Longrightarrow> quiet K s s' \<Longrightarrow> bus_inv K P nb L s'"
  by (auto simp: bus_inv_def bus_hooks_ok_def quiet_def hook_time_def)

text \<open>Scheduling and unscheduling the drop hook of a bus.\<close>

lemma bus_inv_drop:
  assumes "bus_inv K P nb L s" "b < nb"
  shows "t \<noteq> 0 \<Longrightarrow> bus_inv K P nb (insert (3 * b + 2) L) (set_hook_time (3 * b + 2) t s)"
    and "bus_inv K P nb (L - {3 * b + 2}) (set_hook_time (3 * b + 2) 0 s)"
proof -
  have f: "hk_cb (hook_of (set_hook_time h t s) k) = hk_cb (hook_of s k)" "buses (set_hook_time h t s) = buses s"
    "bus_sim.more (set_hook_time h t s) = bus_sim.more s" for h k t
    by (simp_all add: set_hook_time_def)
  have n: "3 * c + 3 \<noteq> 3 * b + 2" for c :: nat by presburger
  show "t \<noteq> 0 \<Longrightarrow> bus_inv K P nb (insert (3 * b + 2) L) (set_hook_time (3 * b + 2) t s)"
    "bus_inv K P nb (L - {3 * b + 2}) (set_hook_time (3 * b + 2) 0 s)"
    using assms f n by (auto simp: bus_inv_def bus_hooks_ok_def)
qed

section \<open>Devices\<close>

lemma bus_sim_parts:
  assumes "simulator.more s' = simulator.more (s :: ('x, 'fn, 'm) bench)"
  shows "buses s' = buses s" "bus_sim.more s' = bus_sim.more s"
  using assms by (cases s; cases s'; simp)+

text \<open>A callback of another component: it may schedule hooks of its own that are not scheduled yet.\<close>

definition foreign_step ::
  "nat \<Rightarrow> nat \<Rightarrow> nat list \<Rightarrow> ('x, 'fn, 'm) bench \<Rightarrow> ('x, 'fn, 'm) bench \<Rightarrow> bool" where
  "foreign_step nb h new s s' \<longleftrightarrow> calling_hooks s' = calling_hooks s \<and> picos s' = picos s \<and> buses s' = buses s \<and>
     immediate_hooks s' = immediate_hooks s \<and> (\<forall>k. hk_cb (hook_of s' k) = hk_cb (hook_of s k)) \<and> hooks s' = hooks s @ new \<and>
     distinct new \<and> (\<forall>k\<in>set new. 3 * nb < k \<and> future s' k) \<and> (\<forall>k. k \<noteq> h \<and> k \<notin> set new \<longrightarrow> hook_time s' k = hook_time s k)"

lemma bus_inv_same:
  assumes "bus_inv K P nb L s" "\<And>k. k \<le> 3 * nb \<Longrightarrow> hk_cb (hook_of s' k) = hk_cb (hook_of s k)" "\<And>k. k \<le> 3 * nb \<Longrightarrow> hook_time s' k = hook_time s k"
    "buses s' = buses s" "immediate_hooks s' = immediate_hooks s" "P (K (bus_sim.more s'))"
    and L: "\<And>k. k \<le> 3 * nb \<Longrightarrow> k \<in> L' \<longleftrightarrow> k \<in> L"
  shows "bus_inv K P nb L' s'"
proof -
  have "3 * c + 2 \<in> L' \<longleftrightarrow> 3 * c + 2 \<in> L" "3 * c + 3 \<in> L' \<longleftrightarrow> 3 * c + 3 \<in> L" "hook_time s' (3 * c + 2) = hook_time s (3 * c + 2)"
    if "c < nb" for c using L assms(3) that by simp_all
  moreover have "hk_cb (hook_of s' (3 * c + 1)) = hk_cb (hook_of s (3 * c + 1))" "hk_cb (hook_of s' (3 * c + 2)) = hk_cb (hook_of s (3 * c + 2))"
    "hk_cb (hook_of s' (3 * c + 3)) = hk_cb (hook_of s (3 * c + 3))" if "c < nb" for c using assms(2) that by simp_all
  moreover have "0 \<in> L' \<longleftrightarrow> 0 \<in> L" "hk_cb (hook_of s' 0) = hk_cb (hook_of s 0)" using L assms(2) by simp_all
  ultimately show ?thesis
    using assms(1,4-6) by (simp add: bus_inv_def bus_hooks_ok_def)
qed

lemma foreign_inv:
  assumes "bus_inv K P nb L s" "foreign_step nb h new s s'" "3 * nb < h" "P (K (bus_sim.more s'))"
    and L: "\<And>k. k \<le> 3 * nb \<Longrightarrow> k \<in> L' \<longleftrightarrow> k \<in> L"
  shows "bus_inv K P nb L' s'"
proof (rule bus_inv_same [OF assms(1)])
  fix k assume "k \<le> 3 * nb"
  then have "k \<noteq> h" "k \<notin> set new" using assms(2,3) by (auto simp: foreign_step_def)
  then show "hook_time s' k = hook_time s k" using assms(2) by (simp add: foreign_step_def)
qed (use assms in \<open>auto simp: foreign_step_def\<close>)

text \<open>
  A device leaves the hooks, the buses and the part \<open>K\<close> of the bench's own state alone and, in the
  states \<open>P\<close> of that part, asks for drop delays of less than 4 ms. The other callbacks of the bench
  belong to hooks above those of the buses and keep an invariant \<open>oinv\<close> of their own, which depends on
  the callbacks of these hooks, on which of them are scheduled, and on \<open>K\<close>.
\<close>

locale bus_devices =
  fixes K :: "'m \<Rightarrow> 'k" and P :: "'k \<Rightarrow> bool" and nb :: nat and oinv :: "nat set \<Rightarrow> ('x, 'fn, 'm) bench \<Rightarrow> bool"
    and rfn :: "('x, 'fn, 'm) read_dev" and wfn :: "('x, 'fn, 'm) write_dev"
    and other :: "'x \<Rightarrow> nat \<Rightarrow> ('x, 'fn, 'm) bench \<Rightarrow> int \<times> ('x, 'fn, 'm) bench"
  assumes rfn_quiet: "rfn f b rg addr n d s = (res, v, d', s') \<Longrightarrow>
      quiet K s s' \<and> (P (K (bus_sim.more s)) \<and> snd d < 0x400000 \<longrightarrow> snd d' < 0x400000)"
    and wfn_quiet: "wfn f b rg addr n v d s = (res, d', s') \<Longrightarrow>
      quiet K s s' \<and> (P (K (bus_sim.more s)) \<and> snd d < 0x400000 \<longrightarrow> snd d' < 0x400000)"
    and other_step: "oinv L s \<Longrightarrow> P (K (bus_sim.more s)) \<Longrightarrow> h \<in> L \<Longrightarrow> 3 * nb < h \<Longrightarrow> calling_hooks s \<Longrightarrow> picos s < 2 ^ 63 \<Longrightarrow>
      hk_cb (hook_of s h) = User_Cb (Other_Cb x) \<Longrightarrow> other x h s = (res, s') \<Longrightarrow>
      \<exists>new. foreign_step nb h new s s' \<and> set new \<inter> L = {} \<and> P (K (bus_sim.more s')) \<and>
        oinv (if res \<noteq> 0 then L \<union> set new - {h} else L \<union> set new) s'"
    and other_cb: "oinv L s \<Longrightarrow> h \<in> L \<Longrightarrow> 3 * nb < h \<Longrightarrow> \<exists>x. hk_cb (hook_of s h) = User_Cb (Other_Cb x)"
    and other_frame: "oinv L s \<Longrightarrow> (\<And>h. 3 * nb < h \<Longrightarrow> hk_cb (hook_of s' h) = hk_cb (hook_of s h)) \<Longrightarrow>
      (\<And>h. 3 * nb < h \<Longrightarrow> h \<in> L' \<longleftrightarrow> h \<in> L) \<Longrightarrow> K (bus_sim.more s') = K (bus_sim.more s) \<Longrightarrow> oinv L' s'"
begin

lemma calm_bus_read: "case bus_read rfn b addr we s of Inl s' \<Rightarrow> calm K P b s s' | Inr s' \<Rightarrow> calm K P b s s'"
proof -
  have "calm K P b s s2 \<and> calm K P b s (upd_bus b (\<lambda>bus. bus\<lparr>read_val := w\<rparr>) s2)"
    if r: "rfn f b rg addr n (d_ack_read (buses s b), d_drop_ack (buses s b)) s = (res, v, (ad, dd), s1)"
      and s2: "s2 = upd_bus b (\<lambda>bus. bus\<lparr>read_val := v, ack_delay := ad, ack_drop_delay := dd\<rparr>) s1"
    for f rg n res v ad dd s1 s2 w
  proof -
    have q: "quiet K s s1" "P (K (bus_sim.more s)) \<and> d_drop_ack (buses s b) < 0x400000 \<longrightarrow> dd < 0x400000" using rfn_quiet [OF r] by auto
    have c: "calm K P b s s2" unfolding s2 using q by (intro calm_quiet_upd) (auto simp: small_def)
    moreover have "calm K P b s2 (upd_bus b (\<lambda>bus. bus\<lparr>read_val := w\<rparr>) s2)" by (rule calm_upd_bus) (auto simp: small_def)
    ultimately show ?thesis using calm_trans by blast
  qed
  then show ?thesis by (auto simp: bus_read_def Let_def split: option.split prod.split)
qed

lemma calm_bus_write: "case bus_write wfn b addr we s of Inl s' \<Rightarrow> calm K P b s s' | Inr s' \<Rightarrow> calm K P b s s'"
proof -
  have "calm K P b s (upd_bus b (\<lambda>bus. bus\<lparr>ack_delay := ad, ack_drop_delay := dd\<rparr>) s1)"
    if r: "wfn f b rg addr n v (d_ack_write (buses s b), d_drop_ack (buses s b)) s = (res, (ad, dd), s1)"
    for f rg n res v ad dd s1
  proof -
    have q: "quiet K s s1" "P (K (bus_sim.more s)) \<and> d_drop_ack (buses s b) < 0x400000 \<longrightarrow> dd < 0x400000" using wfn_quiet [OF r] by auto
    then show ?thesis by (intro calm_quiet_upd) (auto simp: small_def)
  qed
  then show ?thesis by (auto simp: bus_write_def Let_def split: option.split prod.split)
qed

lemma calm_start_ack:
  "calm K P b s (let bus = buses s b in
      if ack_delay bus \<noteq> 0 then set_hook_time (rw_hook bus) t (upd_bus b (\<lambda>bus. bus\<lparr>ack_pending := True\<rparr>) s)
      else set_hook_time (rw_hook bus) 0 (raise_ack b rd s))"
proof -
  have c1: "calm K P b s (upd_bus b (\<lambda>bus. bus\<lparr>ack_pending := True\<rparr>) s)" by (rule calm_upd_bus) (auto simp: small_def)
  have c2: "calm K P b s (raise_ack b rd s)" by (rule calm_raise_ack)
  show ?thesis
    using calm_trans [OF c1 calm_rw_time [of "rw_hook (buses s b)"]] calm_trans [OF c2 calm_rw_time [of "rw_hook (buses s b)"]] c1 c2
    by (simp add: Let_def)
qed

lemma sched_start_op:
  assumes "calling_hooks s" "small (buses s b)" "picos s < 2 ^ 63" "drop_ack_hook (buses s b) \<noteq> rw_hook (buses s b)"
  shows "case start_op rfn wfn b rd s of Inl s' \<Rightarrow> sched K P b s s' | Inr s' \<Rightarrow> sched K P b s s'"
proof -
  let ?s1 = "end_previous b s"
  note e = sched_end_previous [OF assms]
  have op: "case (if rd then bus_read rfn b addr we ?s1 else bus_write wfn b addr we ?s1) of
      Inl s' \<Rightarrow> sched K P b s s' | Inr s' \<Rightarrow> sched K P b s s'" for addr we
    using calm_bus_read [of b ?s1 addr we] calm_bus_write [of b ?s1 addr we] sched_calm [OF e]
    by (auto split: sum.splits)
  have fin: "sched K P b s (let bus = buses s2 b in
      if ack_delay bus \<noteq> 0 then set_hook_time (rw_hook bus) t (upd_bus b (\<lambda>bus. bus\<lparr>ack_pending := True\<rparr>) s2)
      else set_hook_time (rw_hook bus) 0 (raise_ack b rd s2))" if "sched K P b s s2" for s2 t
    using sched_calm [OF that calm_start_ack] .
  show ?thesis
  proof (cases "geti_check (sg_a (sig (buses ?s1 b))) ?s1")
    case (Some addr)
    note a = this
    show ?thesis
    proof (cases "geti_check (sg_we (sig (buses ?s1 b))) ?s1")
      case (Some we)
      show ?thesis
        using op [of addr we] fin
        by (cases "if rd then bus_read rfn b addr we ?s1 else bus_write wfn b addr we ?s1") (simp_all add: start_op_def Let_def a Some)
    qed (simp add: start_op_def Let_def a e)
  qed (simp add: start_op_def Let_def e)
qed

lemma sched_read_write_cb:
  assumes "calling_hooks s" "small (buses s b)" "picos s < 2 ^ 63" "drop_ack_hook (buses s b) \<noteq> rw_hook (buses s b)"
  shows "sched K P b s (snd (read_write_cb rfn wfn b s))"
proof -
  have reset: "sched K P b s (bus_reset b s')" if "sched K P b s s'" for s' using that calm_bus_reset by (rule sched_calm)
  have start: "sched K P b s (case start_op rfn wfn b rd s of Inl s1 \<Rightarrow> bus_reset b s1 | Inr s1 \<Rightarrow> s1)" for rd
    using sched_start_op [OF assms, of rd] reset by (auto split: sum.splits)
  note c = calm_sched [OF calm_raise_ack, of K P b s] calm_sched [OF calm_refl, of K P b s] calm_sched [OF calm_bus_reset, of K P b s]
  show ?thesis
    unfolding read_write_cb_def snd_conv using start c sched_drop [OF assms, where K = K and P = P] by (simp split: option.split)
qed

text \<open>What the callback of a hook of the simulator or of a bus does to the hooks.\<close>

definition own_step :: "nat set \<Rightarrow> nat \<Rightarrow> ('x, 'fn, 'm) bench \<Rightarrow> int \<Rightarrow> ('x, 'fn, 'm) bench \<Rightarrow> bool" where
  "own_step L h s res s' \<longleftrightarrow> calling_hooks s' \<and> picos s' = picos s \<and>
     (\<forall>k. hk_cb (hook_of s' k) = hk_cb (hook_of s k)) \<and> K (bus_sim.more s') = K (bus_sim.more s) \<and>
     (\<exists>new. hooks s' = hooks s @ new \<and> distinct new \<and> set new \<inter> L = {} \<and> set new \<subseteq> {..3 * nb} \<and> (\<forall>k\<in>set new. future s' k) \<and>
        (\<forall>k\<in>L - {h}. hook_time s' k = hook_time s k) \<and>
        (if res \<noteq> 0 then bus_inv K P nb (L \<union> set new - {h}) (set_hook_time h 0 s') else bus_inv K P nb (L \<union> set new) (disable_past h s')))"

lemma wait_step:
  assumes "bus_inv K P nb L s" "0 \<in> L" "calling_hooks s" "run_cb (bus_call rfn wfn other) 0 s = (res, s')"
  shows "own_step L 0 s res s'"
proof -
  have "quiet K s s'" "res = 0"
    using assms by (auto simp: bus_inv_def run_cb_def sig_wait_cb_def quiet_def)
  then show ?thesis
    using assms(3) bus_inv_time(2) [OF quiet_inv [OF assms(1)], of s' 0] by (auto simp: own_step_def quiet_def hook_time_def)
qed

lemma rw_step:
  assumes "bus_inv K P nb L s" "b < nb" "calling_hooks s" "picos s < 2 ^ 63"
    and "run_cb (bus_call rfn wfn other) (3 * b + 1) s = (res, s')"
  shows "own_step L (3 * b + 1) s res s'"
proof -
  let ?h = "3 * b + 1"
  have ok: "bus_hooks_ok L s b" using assms(1,2) by (simp add: bus_inv_def)
  have s': "s' = snd (read_write_cb rfn wfn b s)" "res = 0"
    using assms(5) ok by (auto simp: run_cb_def bus_call_def bus_hooks_ok_def read_write_cb_def)
  have nd: "\<And>c. c < nb \<Longrightarrow> ?h \<noteq> 3 * c + 2" by presburger
  have "sched K P b s s'"
    unfolding s' using ok assms(3,4) by (intro sched_read_write_cb) (auto simp: bus_hooks_ok_def)
  then consider "calm K P b s s'"
    | t where "hook_time s (3 * b + 2) = 0" "picos s < t" "calm K P b ((set_hook_time (3 * b + 2) t s)\<lparr>hooks := hooks s @ [3 * b + 2]\<rparr>) s'"
    using ok unfolding sched_def by (auto simp: bus_hooks_ok_def)
  then show ?thesis
  proof cases
    case 1
    have "bus_inv K P nb L (disable_past ?h s')" using bus_inv_time(2) [OF calm_inv [OF assms(1,2) 1] nd] .
    then show ?thesis
      using ok s'(2) assms(3) calmD [OF 1] by (auto simp: own_step_def bus_hooks_ok_def)
  next
    case 2
    let ?s1 = "(set_hook_time (3 * b + 2) t s)\<lparr>hooks := hooks s @ [3 * b + 2]\<rparr>"
    have nl: "3 * b + 2 \<notin> L" using ok 2(1) by (simp add: bus_hooks_ok_def)
    have "t \<noteq> 0" using 2(2) by (metis word_not_simps(1))
    then have "bus_inv K P nb (insert (3 * b + 2) L) (set_hook_time (3 * b + 2) t s)"
      using bus_inv_drop(1) [OF assms(1,2)] by blast
    then have "bus_inv K P nb (insert (3 * b + 2) L) ?s1"
      by (simp add: bus_inv_def bus_hooks_ok_def)
    then have i: "bus_inv K P nb (insert (3 * b + 2) L) (disable_past ?h s')"
      using bus_inv_time(2) [OF calm_inv [OF _ assms(2) 2(3)] nd] by blast
    have rwb: "rw_hook (buses ?s1 b) = 3 * b + 1" using ok by (simp add: bus_hooks_ok_def set_hook_time_def)
    have tm: "hook_time s' k = hook_time ?s1 k" if "k \<noteq> 3 * b + 1" for k
      by (rule calmD(5) [OF 2(3)]) (use that rwb in simp)
    have "hook_time s' (3 * b + 2) = t" using tm [of "3 * b + 2"] by simp
    moreover have "\<forall>k\<in>L - {?h}. hook_time s' k = hook_time s k" using tm nl by auto
    moreover have "hk_cb (hook_of s' k) = hk_cb (hook_of s k)" "K (bus_sim.more s') = K (bus_sim.more s)" for k
      using calmD(4,11) [OF 2(3)] by (simp_all add: set_hook_time_def)
    ultimately show ?thesis
      using s'(2) assms(2,3) i nl 2(2) calmD(1-3) [OF 2(3)]
      by (auto simp: own_step_def future_def intro!: exI [of _ "[3 * b + 2]"])
  qed
qed

lemma drop_step:
  assumes "bus_inv K P nb L s" "b < nb" "calling_hooks s" "run_cb (bus_call rfn wfn other) (3 * b + 2) s = (res, s')"
  shows "own_step L (3 * b + 2) s res s'"
proof -
  have "bus_hooks_ok L s b" using assms(1,2) by (simp add: bus_inv_def)
  then have r: "res = - 1" "quiet K s s'"
    using assms(4) quiet_drop_ack [of K s b]
    by (auto simp: run_cb_def bus_call_def bus_hooks_ok_def drop_ack_cb_def split: if_splits) (simp_all add: quiet_def)
  have "bus_inv K P nb (L - {3 * b + 2}) (set_hook_time (3 * b + 2) 0 s')"
    by (rule bus_inv_drop(2) [OF quiet_inv [OF assms(1) r(2)] assms(2)])
  then show ?thesis using r assms(3) by (auto simp: own_step_def quiet_def hook_time_def)
qed

text \<open>The invariant of the whole bench.\<close>

definition hooks_inv :: "nat set \<Rightarrow> ('x, 'fn, 'm) bench \<Rightarrow> bool" where
  "hooks_inv L s \<longleftrightarrow> bus_inv K P nb L s \<and> oinv L s"

definition step_ok :: "nat set \<Rightarrow> nat \<Rightarrow> ('x, 'fn, 'm) bench \<Rightarrow> int \<Rightarrow> ('x, 'fn, 'm) bench \<Rightarrow> bool" where
  "step_ok L h s res s' \<longleftrightarrow> calling_hooks s' \<and> picos s' = picos s \<and>
     (\<exists>new. hooks s' = hooks s @ new \<and> distinct new \<and> set new \<inter> L = {} \<and> (\<forall>k\<in>set new. future s' k) \<and>
        (\<forall>k\<in>L - {h}. hook_time s' k = hook_time s k) \<and>
        (if res \<noteq> 0 then hooks_inv (L \<union> set new - {h}) (set_hook_time h 0 s') else hooks_inv (L \<union> set new) (disable_past h s')))"

lemma hk_cb_time [simp]:
  "hk_cb (hook_of (set_hook_time h t s) k) = hk_cb (hook_of s k)" "hk_cb (hook_of (disable_past h s) k) = hk_cb (hook_of s k)"
  "bus_sim.more (set_hook_time h t s) = bus_sim.more s" "bus_sim.more (disable_past h s) = bus_sim.more s"
  by (simp_all add: set_hook_time_def disable_past_def)

lemma own_step_ok:
  assumes "own_step L h s res s'" "oinv L s" "h \<le> 3 * nb"
  shows "step_ok L h s res s'"
proof -
  obtain new where n: "hooks s' = hooks s @ new" "distinct new" "set new \<inter> L = {}" "set new \<subseteq> {..3 * nb}" "\<forall>k\<in>set new. future s' k"
    "\<forall>k\<in>L - {h}. hook_time s' k = hook_time s k"
    "if res \<noteq> 0 then bus_inv K P nb (L \<union> set new - {h}) (set_hook_time h 0 s') else bus_inv K P nb (L \<union> set new) (disable_past h s')"
    using assms(1) by (auto simp: own_step_def)
  have c: "\<forall>k. hk_cb (hook_of s' k) = hk_cb (hook_of s k)" "K (bus_sim.more s') = K (bus_sim.more s)" "calling_hooks s'" "picos s' = picos s"
    using assms(1) by (auto simp: own_step_def)
  have f: "k \<in> L \<union> set new - {h} \<longleftrightarrow> k \<in> L" "k \<in> L \<union> set new \<longleftrightarrow> k \<in> L" if "3 * nb < k" for k
    using n(4) assms(3) that by auto
  have "oinv (L \<union> set new - {h}) (set_hook_time h 0 s')"
    by (rule other_frame [OF assms(2)], simp add: c, rule f, assumption, simp add: c)
  moreover have "oinv (L \<union> set new) (disable_past h s')"
    by (rule other_frame [OF assms(2)], simp add: c, rule f, assumption, simp add: c)
  ultimately have "if res \<noteq> 0 then hooks_inv (L \<union> set new - {h}) (set_hook_time h 0 s') else hooks_inv (L \<union> set new) (disable_past h s')"
    using n(7) by (simp add: hooks_inv_def split: if_splits)
  then show ?thesis using n(1-3,5,6) c(3,4) unfolding step_ok_def by blast
qed

lemma foreign_step_ok:
  assumes "hooks_inv L s" "h \<in> L" "3 * nb < h" "calling_hooks s" "picos s < 2 ^ 63" "run_cb (bus_call rfn wfn other) h s = (res, s')"
  shows "step_ok L h s res s'"
proof -
  have i: "bus_inv K P nb L s" "oinv L s" "P (K (bus_sim.more s))" using assms(1) by (auto simp: hooks_inv_def bus_inv_def)
  obtain x where x: "hk_cb (hook_of s h) = User_Cb (Other_Cb x)" using other_cb [OF i(2) assms(2,3)] by blast
  then have "other x h s = (res, s')" using assms(6) by (simp add: run_cb_def bus_call_def)
  then obtain new where n: "foreign_step nb h new s s'" "set new \<inter> L = {}" "P (K (bus_sim.more s'))"
      "oinv (if res \<noteq> 0 then L \<union> set new - {h} else L \<union> set new) s'"
    using other_step [OF i(2,3) assms(2-5) x] by blast
  have nd: "\<And>b. b < nb \<Longrightarrow> h \<noteq> 3 * b + 2" using assms(3) by presburger
  have L: "k \<in> L \<union> set new \<longleftrightarrow> k \<in> L" "k \<in> L \<union> set new - {h} \<longleftrightarrow> k \<in> L" if "k \<le> 3 * nb" for k
    using n(1) that assms(3) by (auto simp: foreign_step_def)
  have "bus_inv K P nb (L \<union> set new - {h}) (set_hook_time h 0 s')" "bus_inv K P nb (L \<union> set new) (disable_past h s')"
    by (intro bus_inv_time(1) foreign_inv [OF i(1) n(1) assms(3) n(3)] L nd; assumption)
      (intro bus_inv_time(2) foreign_inv [OF i(1) n(1) assms(3) n(3)] L nd; assumption)
  moreover have "oinv (if res \<noteq> 0 then L \<union> set new - {h} else L \<union> set new) (if res \<noteq> 0 then set_hook_time h 0 s' else disable_past h s')"
    by (rule other_frame [OF n(4)]) auto
  ultimately have "if res \<noteq> 0 then hooks_inv (L \<union> set new - {h}) (set_hook_time h 0 s') else hooks_inv (L \<union> set new) (disable_past h s')"
    by (simp add: hooks_inv_def split: if_splits)
  then show ?thesis using n(1,2) assms(4) by (auto simp: step_ok_def foreign_step_def intro!: exI [of _ new])
qed

lemma bus_cb_step:
  assumes "hooks_inv L s" "h \<in> L" "calling_hooks s" "picos s < 2 ^ 63" "run_cb (bus_call rfn wfn other) h s = (res, s')"
  shows "step_ok L h s res s'"
proof -
  have i: "bus_inv K P nb L s" "oinv L s" using assms(1) by (auto simp: hooks_inv_def)
  consider "3 * nb < h" | "h = 0" | (rw) b where "b < nb" "h = 3 * b + 1"
    | (drop) b where "b < nb" "h = 3 * b + 2" | (cancel) b where "b < nb" "h = 3 * b + 3"
    using hook_number [of h nb] by blast
  then show ?thesis
  proof cases
    case 1
    then show ?thesis using foreign_step_ok assms by blast
  next
    case 2
    then show ?thesis using wait_step [OF i(1)] i(2) assms by (intro own_step_ok) auto
  next
    case rw
    then show ?thesis using rw_step [OF i(1)] i(2) assms by (intro own_step_ok) auto
  next
    case drop
    then show ?thesis using drop_step [OF i(1)] i(2) assms by (intro own_step_ok) auto
  next
    case cancel
    then show ?thesis using i(1) assms(2) by (auto simp: bus_inv_def bus_hooks_ok_def)
  qed
qed

lemma bus_imm_step:
  assumes "bus_inv K P nb (set (hooks s)) s" "hook_list_ok s" "\<forall>k\<in>set (hooks s). future s k" "\<not> calling_hooks s"
    "\<exists>b<nb. h = 3 * b + 3" "run_cb (bus_call rfn wfn other) h s = (res, s')"
  shows "bus_inv K P nb (set (hooks s')) s' \<and> hook_list_ok s' \<and> (\<forall>k\<in>set (hooks s'). future s' k) \<and> \<not> calling_hooks s' \<and>
    (\<forall>k. hk_cb (hook_of s' k) = hk_cb (hook_of s k)) \<and> K (bus_sim.more s') = K (bus_sim.more s) \<and>
    (\<forall>k. 3 * nb < k \<longrightarrow> (k \<in> set (hooks s') \<longleftrightarrow> k \<in> set (hooks s)))"
proof -
  obtain b where b: "b < nb" "h = 3 * b + 3" using assms(5) by blast
  have ok: "bus_hooks_ok (set (hooks s)) s b" using assms(1) b(1) by (simp add: bus_inv_def)
  let ?d = "3 * b + 2"
  show ?thesis
  proof (cases "hook_time s ?d = 0")
    case True
    then have "s' = s" using assms(6) ok b by (auto simp: run_cb_def bus_call_def bus_hooks_ok_def cancel_drop_cb_def Let_def)
    then show ?thesis using assms(1-4) by blast
  next
    case False
    then have s': "s' = set_hook_time ?d 0 (sim_hook_remove ?d s)"
      using assms(6) ok b by (auto simp: run_cb_def bus_call_def bus_hooks_ok_def cancel_drop_cb_def Let_def)
    have hs: "hooks s' = remove1 ?d (hooks s)" by (simp add: s' sim_hook_remove_def dl_delete_def)
    have ds: "distinct (hooks s)" using assms(2) by (simp add: hook_list_ok_def)
    have st: "set (hooks s') = set (hooks s) - {?d}" using ds by (simp add: hs)
    have rm: "hook_list_ok (sim_hook_remove ?d s)" using assms(2) by (rule sim_hook_remove_ok)
    have "bus_inv K P nb (set (hooks s) - {?d}) (set_hook_time ?d 0 s)" by (rule bus_inv_drop(2) [OF assms(1) b(1)])
    then have "bus_inv K P nb (set (hooks s')) s'"
      unfolding st by (simp add: s' bus_inv_def bus_hooks_ok_def sim_hook_remove_def set_hook_time_def hook_time_def)
    moreover have "sorted_wrt (before (hook_time s')) (hooks s')"
    proof -
      have "sorted_wrt (before (hook_time s)) (hooks s')"
        using rm by (simp add: hook_list_ok_def hs sim_hook_remove_def dl_delete_def)
      then show ?thesis
        by (rule sorted_wrt_mono_rel [rotated]) (use st in \<open>auto simp: s' before_def sim_hook_remove_def\<close>)
    qed
    moreover have "\<forall>k\<in>set (hooks s'). future s' k"
      using assms(3) unfolding st by (auto simp: s' future_def sim_hook_remove_def)
    moreover have "\<forall>k. hk_cb (hook_of s' k) = hk_cb (hook_of s k)" "K (bus_sim.more s') = K (bus_sim.more s)" "\<not> calling_hooks s'"
      using assms(4) by (simp_all add: s' sim_hook_remove_def)
    moreover have "\<forall>k. 3 * nb < k \<longrightarrow> (k \<in> set (hooks s') \<longleftrightarrow> k \<in> set (hooks s))" using b(1) st by auto
    ultimately show ?thesis using ds by (simp add: hook_list_ok_def hs)
  qed
qed

lemma bus_imm_ok:
  assumes "hooks_inv (set (hooks s)) s" "hook_list_ok s" "\<forall>k\<in>set (hooks s). future s k" "\<not> calling_hooks s"
    "\<exists>b<nb. h = 3 * b + 3" "run_cb (bus_call rfn wfn other) h s = (res, s')"
  shows "hooks_inv (set (hooks s')) s' \<and> hook_list_ok s' \<and> (\<forall>k\<in>set (hooks s'). future s' k) \<and> \<not> calling_hooks s'"
proof -
  have i: "bus_inv K P nb (set (hooks s)) s" "oinv (set (hooks s)) s" using assms(1) by (auto simp: hooks_inv_def)
  note step = bus_imm_step [OF i(1) assms(2-6)]
  then have "oinv (set (hooks s')) s'" by (intro other_frame [OF i(2)]) simp_all
  then show ?thesis using step by (simp add: hooks_inv_def)
qed

end

sublocale bus_devices \<subseteq> hook_client "bus_call rfn wfn other" hooks_inv "\<lambda>h. \<exists>b<nb. h = 3 * b + 3"
proof
  fix L s s' h and res :: int
  assume "hooks_inv L s" "h \<in> L" "calling_hooks s" "picos s < 2 ^ 63" "run_cb (bus_call rfn wfn other) h s = (res, s')"
  then show "calling_hooks s' \<and> picos s' = picos s \<and>
     (\<exists>new. hooks s' = hooks s @ new \<and> distinct new \<and> set new \<inter> L = {} \<and> (\<forall>k\<in>set new. future s' k) \<and>
        (\<forall>k\<in>L - {h}. hook_time s' k = hook_time s k) \<and>
        (if res \<noteq> 0 then hooks_inv (L \<union> set new - {h}) (set_hook_time h 0 s') else hooks_inv (L \<union> set new) (disable_past h s')))"
    by (rule bus_cb_step [unfolded step_ok_def])
next
  fix s s' h and res :: int
  assume "hooks_inv (set (hooks s)) s" "hook_list_ok s" "\<forall>k\<in>set (hooks s). future s k" "\<not> calling_hooks s"
    "\<exists>b<nb. h = 3 * b + 3" "run_cb (bus_call rfn wfn other) h s = (res, s')"
  then show "hooks_inv (set (hooks s')) s' \<and> hook_list_ok s' \<and> (\<forall>k\<in>set (hooks s'). future s' k) \<and> \<not> calling_hooks s'"
    by (rule bus_imm_ok)
next
  fix L and s :: "('x, 'fn, 'm) bench" and h
  assume "hooks_inv L s" "h \<in> set (immediate_hooks s)"
  then show "\<exists>b<nb. h = 3 * b + 3" by (simp add: hooks_inv_def bus_inv_def)
next
  fix L and s s' :: "('x, 'fn, 'm) bench"
  assume h: "hooks_inv L s" "hook_of s' = hook_of s" "set (immediate_hooks s') \<subseteq> set (immediate_hooks s)"
    "simulator.more s' = simulator.more s"
  note m = bus_sim_parts [OF h(4)]
  have "oinv L s" using h(1) by (simp add: hooks_inv_def)
  then have "oinv L s'" by (rule other_frame) (simp_all add: h(2) m)
  moreover have "bus_inv K P nb L s'" using h m by (auto simp: hooks_inv_def bus_inv_def bus_hooks_ok_def hook_time_def)
  ultimately show "hooks_inv L s'" by (simp add: hooks_inv_def)
qed

section \<open>Input from the process\<close>

lemma same_input_bus [simp]:
  "same_input s (seti i v s') = same_input s s'" "same_input s (set_all i c s') = same_input s s'" "same_input s (upd_bus b f s') = same_input s s'"
  by (auto simp: seti_def set_all_def sim_seti_def sim_set_all_def sim_set_def Let_def sim_write_pty_def upd_bus_def same_input_def)

lemma same_input_ack [simp]:
  "same_input s (drop_ack b s') = same_input s s'" "same_input s (schedule_ack_drop b s') = same_input s s'"
  "same_input s (raise_ack b rd s') = same_input s s'" "same_input s (bus_reset b s') = same_input s s'"
  "same_input s (end_previous b s') = same_input s s'"
  by (auto simp: drop_ack_def schedule_ack_drop_def raise_ack_def bus_reset_def end_previous_def Let_def)

locale timed_devices = bus_devices +
  assumes rfn_input: "rfn f b rg addr n d s = (res, v, d', s') \<Longrightarrow> same_input s s'"
    and wfn_input: "wfn f b rg addr n w d s = (res, d', s') \<Longrightarrow> same_input s s'"
    and other_input: "other x h s = (res, s') \<Longrightarrow> same_input s s'"
begin

lemma bus_read_input:
  "bus_read rfn b addr we s = Inl s' \<Longrightarrow> same_input s s'" "bus_read rfn b addr we s = Inr s' \<Longrightarrow> same_input s s'"
  by (auto simp: bus_read_def Let_def dest: rfn_input split: option.splits prod.splits if_splits)

lemma bus_write_input:
  "bus_write wfn b addr we s = Inl s' \<Longrightarrow> same_input s s'" "bus_write wfn b addr we s = Inr s' \<Longrightarrow> same_input s s'"
  by (auto simp: bus_write_def Let_def dest: wfn_input split: option.splits prod.splits if_splits)

lemma start_op_input:
  "start_op rfn wfn b rd s = Inl s' \<Longrightarrow> same_input s s'" "start_op rfn wfn b rd s = Inr s' \<Longrightarrow> same_input s s'"
proof -
  let ?s1 = "end_previous b s"
  have op: "same_input s t" if "same_input ?s1 t" for t using that by (rule same_input_trans [rotated]) simp
  note io = op [OF bus_read_input(1)] op [OF bus_read_input(2)] op [OF bus_write_input(1)] op [OF bus_write_input(2)]
  show "start_op rfn wfn b rd s = Inl s' \<Longrightarrow> same_input s s'" "start_op rfn wfn b rd s = Inr s' \<Longrightarrow> same_input s s'"
    by (auto simp: start_op_def Let_def dest: io split: option.splits sum.splits if_splits)
qed

lemma bus_call_input: "bus_call rfn wfn other c h s = (res, s') \<Longrightarrow> same_input s s'"
  by (auto simp: bus_call_def read_write_cb_def drop_ack_cb_def cancel_drop_cb_def Let_def dest: other_input start_op_input
      split: bench_cb.splits bus_cb.splits option.splits sum.splits if_splits)

end

sublocale timed_devices \<subseteq> timed_client "bus_call rfn wfn other" hooks_inv "\<lambda>h. \<exists>b<nb. h = 3 * b + 3"
proof
  fix h s res s'
  assume "run_cb (bus_call rfn wfn other) h s = (res, s')"
  then show "same_input s s'"
    by (auto simp: run_cb_def sig_wait_cb_def intro: bus_call_input split: callback.splits)
qed

end
