(* ===== verification/Debug_Hw.thy ===== *)
theory Debug_Hw
  imports Bus_Hooks Debug_Plan
begin

text \<open>
  The debug port of a simulated CPU (src/sim/debug.c and debug.h): commands wait in a queue; the first
  one is driven on the port's signals until the CPU acknowledges it, then its \<open>on_done\<close> is called and
  the next one follows. A pointer to a command is a number, and \<open>cmd_of\<close> is the memory they live in; a
  command has a \<open>prev\<close> exactly while it is queued. The only delay hook is \<open>drop_en_hook\<close>.
\<close>

section \<open>State\<close>

record delay_hook =
  dh_hook :: nat
  dh_scheduled :: bool

record debug_command =
  dc_cmd :: debug_cmd
  dc_ir :: u16
  dc_d :: u32
  dc_d_en :: int

record debug_signals =
  dg_en :: nat
  dg_cmd :: nat
  dg_din :: nat
  dg_din_en :: nat
  dg_ir :: nat
  dg_ack :: nat
  dg_rdy :: nat
  dg_dout :: nat

record debug_hw =
  ack_hook :: nat
  drop_en_hook :: delay_hook
  calling_cmd_done :: bool
  is_paused :: bool
  clock_period :: int
  cmds :: "nat list"
  dbg_sig :: debug_signals

record ('x, 'fn) debug_bench = "('x, 'fn) bus_sim" +
  hw :: debug_hw
  cmd_of :: "nat \<Rightarrow> debug_command"

type_synonym ('x, 'fn, 'm) dbench = "('x, 'fn, 'm) debug_bench_scheme"

definition upd_hw :: "(debug_hw \<Rightarrow> debug_hw) \<Rightarrow> ('x, 'fn, 'm) dbench \<Rightarrow> ('x, 'fn, 'm) dbench" where
  "upd_hw f s = s\<lparr>hw := f (hw s)\<rparr>"

definition upd_cmd :: "nat \<Rightarrow> (debug_command \<Rightarrow> debug_command) \<Rightarrow> ('x, 'fn, 'm) dbench \<Rightarrow> ('x, 'fn, 'm) dbench" where
  "upd_cmd c f s = s\<lparr>cmd_of := (cmd_of s)(c := f (cmd_of s c))\<rparr>"

fun cmd_code :: "debug_cmd \<Rightarrow> u32" where
  "cmd_code DBG_CMD_BREAK = 0"
| "cmd_code DBG_CMD_STEP = 1"
| "cmd_code DBG_CMD_INSERT = 2"
| "cmd_code DBG_CMD_CONTINUE = 3"

section \<open>The delay hook\<close>

definition set_scheduled :: "bool \<Rightarrow> ('x, 'fn, 'm) dbench \<Rightarrow> ('x, 'fn, 'm) dbench" where
  "set_scheduled b s = upd_hw (\<lambda>d. d\<lparr>drop_en_hook := (drop_en_hook d)\<lparr>dh_scheduled := b\<rparr>\<rparr>) s"

definition init_delay_hook :: "'x \<Rightarrow> ('x, 'fn, 'm) dbench \<Rightarrow> ('x, 'fn, 'm) dbench" where
  "init_delay_hook c s =
     (let s1 = set_scheduled False s
      in snd (sim_hook_init (dh_hook (drop_en_hook (hw s1))) (User_Cb (Other_Cb c)) s1))"

definition unschedule :: "('x, 'fn, 'm) dbench \<Rightarrow> ('x, 'fn, 'm) dbench" where
  "unschedule s =
     (if dh_scheduled (drop_en_hook (hw s)) then sim_hook_remove (dh_hook (drop_en_hook (hw s))) (set_scheduled False s) else s)"

definition schedule :: "('x, 'fn, 'm) dbench \<Rightarrow> ('x, 'fn, 'm) dbench" where
  "schedule s = (let s1 = set_scheduled True (unschedule s) in sim_hook_add (dh_hook (drop_en_hook (hw s1))) s1)"

definition schedule_delay :: "u64 \<Rightarrow> ('x, 'fn, 'm) dbench \<Rightarrow> ('x, 'fn, 'm) dbench" where
  "schedule_delay delay s = schedule (set_hook_time (dh_hook (drop_en_hook (hw s))) (picos s + delay) s)"

section \<open>Commands\<close>

definition round_up :: "u64 \<Rightarrow> int \<Rightarrow> u64" where
  "round_up p quantum = (p + of_int (quantum - 1)) div of_int quantum * of_int quantum"

text \<open>Drives the first command of the queue; gives whether there was one.\<close>

definition drive_cmd :: "debug_command \<Rightarrow> ('x, 'fn, 'm) dbench \<Rightarrow> ('x, 'fn, 'm) dbench" where
  "drive_cmd c s =
     (let g = dbg_sig (hw s) in
      seti (dg_din_en g) (of_int (dc_d_en c)) (seti (dg_din g) (dc_d c) (seti (dg_ir g) (ucast (dc_ir c))
        (seti (dg_cmd g) (cmd_code (dc_cmd c)) (seti (dg_en g) 1 s)))))"

definition next_cmd :: "('x, 'fn, 'm) dbench \<Rightarrow> bool \<times> ('x, 'fn, 'm) dbench" where
  "next_cmd s =
     (case cmds (hw s) of
        [] \<Rightarrow> (False, schedule_delay (of_int (clock_period (hw s) div 4)) s)
      | c # _ \<Rightarrow>
          (let s1 = unschedule s;
               s2 = (if dc_cmd (cmd_of s1 c) \<noteq> DBG_CMD_CONTINUE then upd_hw (\<lambda>d. d\<lparr>is_paused := True\<rparr>) s1 else s1);
               s3 = drive_cmd (cmd_of s2 c) s2; p = clock_period (hw s3)
           in (True, set_hook_time (ack_hook (hw s3)) (round_up (picos s3 + of_int p) p) s3)))"

text \<open>The enable signal gets the character code of 0, an even number.\<close>

definition drop_en_cb :: "('x, 'fn, 'm) dbench \<Rightarrow> int \<times> ('x, 'fn, 'm) dbench" where
  "drop_en_cb s = (- 1, set_scheduled False (seti (dg_en (dbg_sig (hw s))) (of_char CHR ''0'') s))"

definition ack_again :: "('x, 'fn, 'm) dbench \<Rightarrow> int \<times> ('x, 'fn, 'm) dbench" where
  "ack_again s =
     (if cmds (hw s) \<noteq> [] then (0, set_hook_time (ack_hook (hw s)) (picos s + of_int (clock_period (hw s))) s) else (- 1, s))"

text \<open>An acknowledge without a command follows a null pointer.\<close>

definition ack_hook_cb ::
  "(nat \<Rightarrow> (('x, 'fn, 'm) dbench \<Rightarrow> ('x, 'fn, 'm) dbench) option) \<Rightarrow> ('x, 'fn, 'm) dbench \<Rightarrow> int \<times> ('x, 'fn, 'm) dbench" where
  "ack_hook_cb on_done s =
     (if geti (dg_ack (dbg_sig (hw s))) s \<noteq> 0 then
        (case cmds (hw s) of
           [] \<Rightarrow> (- 1, s\<lparr>wild_write := True\<rparr>)
         | c # _ \<Rightarrow>
             (let s1 = upd_hw (\<lambda>d. d\<lparr>is_paused := dc_cmd (cmd_of s c) \<noteq> DBG_CMD_CONTINUE, cmds := dl_delete (cmds d) c\<rparr>) s;
                  s2 = (case on_done c of None \<Rightarrow> s1
                        | Some f \<Rightarrow> upd_hw (\<lambda>d. d\<lparr>calling_cmd_done := False\<rparr>) (f (upd_hw (\<lambda>d. d\<lparr>calling_cmd_done := True\<rparr>) s1)));
                  (driven, s3) = next_cmd s2
              in if driven then ack_again s3 else (- 1, s3)))
      else ack_again s)"

definition debug_hw_init :: "'x \<Rightarrow> 'x \<Rightarrow> int \<Rightarrow> ('x, 'fn, 'm) dbench \<Rightarrow> ('x, 'fn, 'm) dbench" where
  "debug_hw_init drop_c ack_c clock_period_ns s =
     (let s1 = upd_hw (\<lambda>d. d\<lparr>calling_cmd_done := False, is_paused := False, clock_period := clock_period_ns * 1000, cmds := []\<rparr>) s;
          s2 = init_delay_hook drop_c s1;
          s3 = snd (sim_hook_init (ack_hook (hw s2)) (User_Cb (Other_Cb ack_c)) s2);
          g = dbg_sig (hw s3)
      in seti (dg_ir g) 0 (seti (dg_din g) 0 (seti (dg_cmd g) (cmd_code DBG_CMD_BREAK) (seti (dg_en g) 0 s3))))"

text \<open>A command is driven at once when none was active.\<close>

definition debug_add_cmd :: "nat \<Rightarrow> ('x, 'fn, 'm) dbench \<Rightarrow> ('x, 'fn, 'm) dbench" where
  "debug_add_cmd c s =
     (let s1 = upd_hw (\<lambda>d. d\<lparr>cmds := dl_append (cmds d) c\<rparr>) s in
      if \<not> calling_cmd_done (hw s1) \<and> hd (cmds (hw s1)) = c then
        (let (driven, s2) = next_cmd s1 in if driven then sim_hook_add (ack_hook (hw s2)) s2 else s2)
      else s1)"

definition debug_break :: "nat \<Rightarrow> ('x, 'fn, 'm) dbench \<Rightarrow> ('x, 'fn, 'm) dbench" where
  "debug_break c s = debug_add_cmd c (upd_cmd c (\<lambda>k. k\<lparr>dc_cmd := DBG_CMD_BREAK\<rparr>) s)"

definition debug_step :: "nat \<Rightarrow> ('x, 'fn, 'm) dbench \<Rightarrow> ('x, 'fn, 'm) dbench" where
  "debug_step c s = debug_add_cmd c (upd_cmd c (\<lambda>k. k\<lparr>dc_cmd := DBG_CMD_STEP\<rparr>) s)"

definition debug_continue :: "nat \<Rightarrow> ('x, 'fn, 'm) dbench \<Rightarrow> ('x, 'fn, 'm) dbench" where
  "debug_continue c s = debug_add_cmd c (upd_cmd c (\<lambda>k. k\<lparr>dc_cmd := DBG_CMD_CONTINUE\<rparr>) s)"

definition debug_insert :: "nat \<Rightarrow> u16 \<Rightarrow> ('x, 'fn, 'm) dbench \<Rightarrow> ('x, 'fn, 'm) dbench" where
  "debug_insert c ir s = debug_add_cmd c (upd_cmd c (\<lambda>k. k\<lparr>dc_cmd := DBG_CMD_INSERT, dc_ir := ir\<rparr>) s)"

definition debug_write_data :: "nat \<Rightarrow> u32 \<Rightarrow> ('x, 'fn, 'm) dbench \<Rightarrow> ('x, 'fn, 'm) dbench" where
  "debug_write_data c data s = upd_cmd c (\<lambda>k. k\<lparr>dc_d := data, dc_d_en := 1\<rparr>) s"

definition debug_add_request :: "nat \<Rightarrow> debug_request \<Rightarrow> ('x, 'fn, 'm) dbench \<Rightarrow> ('x, 'fn, 'm) dbench" where
  "debug_add_request c req s =
     debug_add_cmd c (upd_cmd c (\<lambda>k. \<lparr>dc_cmd = req_cmd req, dc_ir = req_instr req, dc_d = req_data req, dc_d_en = req_data_en req\<rparr>) s)"

text \<open>\<open>get\<close> is \<open>sim_geti\<close>, which talks to the process when no hook is being called.\<close>

definition debug_read_data ::
  "(nat \<Rightarrow> ('x, 'fn, 'm) dbench \<Rightarrow> u32 \<times> ('x, 'fn, 'm) dbench) \<Rightarrow> ('x, 'fn, 'm) dbench \<Rightarrow> u32 \<times> ('x, 'fn, 'm) dbench" where
  "debug_read_data get s = get (dg_dout (dbg_sig (hw s))) s"

section \<open>The hooks of the port\<close>

lemma seti_simps [simp]:
  "hook_of (seti i v s) = hook_of s" "hooks (seti i v s) = hooks s" "calling_hooks (seti i v s) = calling_hooks s"
  "immediate_hooks (seti i v s) = immediate_hooks s" "picos (seti i v s) = picos s" "simulator.more (seti i v s) = simulator.more s"
  by (auto simp: seti_def sim_seti_def Let_def sim_write_pty_def)

lemma seti_bench [simp]: "buses (seti i v s) = buses s" "bus_sim.more (seti i v s) = bus_sim.more s"
  by (auto simp: seti_def sim_seti_def Let_def sim_write_pty_def)

lemma seti_dbench [simp]:
  "hw (seti i v s) = hw s" "cmd_of (seti i v s) = cmd_of s" "debug_bench.more (seti i v s) = debug_bench.more s"
  by (auto simp: seti_def sim_seti_def Let_def sim_write_pty_def)

text \<open>Steps that leave the hooks and the buses alone.\<close>

definition framed :: "('x, 'fn, 'm) bench \<Rightarrow> ('x, 'fn, 'm) bench \<Rightarrow> bool" where
  "framed s s' \<longleftrightarrow> hook_of s' = hook_of s \<and> hooks s' = hooks s \<and> calling_hooks s' = calling_hooks s \<and>
     immediate_hooks s' = immediate_hooks s \<and> picos s' = picos s \<and> buses s' = buses s"

lemma framed_refl [simp]: "framed s s" "framed s (seti i v s)" "framed s (s\<lparr>wild_write := w\<rparr>)" 
  by (simp_all add: framed_def)

lemma framed_hw [simp]: "framed s (upd_hw f s)" "framed s (upd_cmd c g s)" "framed s (set_scheduled b s)"
  by (simp_all add: framed_def upd_hw_def upd_cmd_def set_scheduled_def)

lemma framed_trans: "framed s t \<Longrightarrow> framed t u \<Longrightarrow> framed s u"
  by (simp add: framed_def)

lemma framed_foreign: "framed s t \<Longrightarrow> foreign_step nb h new t u \<Longrightarrow> foreign_step nb h new s u"
  by (auto simp: framed_def foreign_step_def hook_time_def)

lemma foreign_framed: "framed s t \<Longrightarrow> foreign_step nb h [] s t"
  by (auto simp: framed_def foreign_step_def hook_time_def)

lemma foreign_time: "foreign_step nb h [] s (set_hook_time h t s)"
  by (auto simp: foreign_step_def set_hook_time_def hook_time_def)

lemma foreign_trans: "foreign_step nb h [] s t \<Longrightarrow> foreign_step nb h new t u \<Longrightarrow> foreign_step nb h new s u"
  by (auto simp: foreign_step_def)

lemma upd_hw_simps [simp]:
  "hw (upd_hw f s) = f (hw s)" "cmd_of (upd_hw f s) = cmd_of s" "debug_bench.more (upd_hw f s) = debug_bench.more s"
  "hw (upd_cmd c g s) = hw s" "debug_bench.more (upd_cmd c g s) = debug_bench.more s"
  "hw (set_hook_time h t s) = hw s" "cmd_of (set_hook_time h t s) = cmd_of s" "debug_bench.more (set_hook_time h t s) = debug_bench.more s"
  by (simp_all add: upd_hw_def upd_cmd_def set_hook_time_def)

text \<open>The port's hooks are \<open>a\<close> and \<open>d\<close>; \<open>U\<close> holds the commands that may be queued.\<close>

definition port_hw :: "nat \<Rightarrow> nat \<Rightarrow> debug_hw \<Rightarrow> bool" where
  "port_hw a d h \<longleftrightarrow> ack_hook h = a \<and> dh_hook (drop_en_hook h) = d \<and> a \<noteq> d \<and> \<not> calling_cmd_done h \<and>
     4 \<le> clock_period h \<and> clock_period h < 2 ^ 31"

definition port_ok :: "nat \<Rightarrow> nat \<Rightarrow> nat set \<Rightarrow> nat set \<Rightarrow> debug_hw \<Rightarrow> bool" where
  "port_ok a d U L h \<longleftrightarrow> port_hw a d h \<and> (d \<in> L \<longleftrightarrow> dh_scheduled (drop_en_hook h)) \<and> (a \<in> L \<longleftrightarrow> cmds h \<noteq> []) \<and>
     (a \<in> L \<longrightarrow> d \<notin> L) \<and> set (cmds h) \<subseteq> U"

lemma small_period:
  assumes "p < 2 ^ 63" "1 \<le> c" "c < 2 ^ 31"
  shows "(p :: u64) < p + of_int c"
proof -
  have "unat (of_int c :: u64) = nat c" using assms(2,3) by (simp add: unat_eq_nat_uint unsigned_of_int take_bit_int_eq_self)
  moreover have "unat p < 2 ^ 63" using assms(1) by (simp add: word_less_nat_alt)
  moreover have "nat c < 2 ^ 31" "0 < nat c" using assms(2,3) by simp_all
  ultimately have "unat (p + of_int c) = unat p + nat c" by (simp add: unat_word_ariths)
  then show ?thesis using \<open>0 < nat c\<close> by (simp add: word_less_nat_alt)
qed

lemma next_cmd_driven:
  assumes "cmds (hw s) = c # cs" "port_hw a d (hw s)" "\<not> dh_scheduled (drop_en_hook (hw s))" "next_cmd s = (r, s')"
  shows "r" "foreign_step nb a [] s s'" "debug_bench.more s' = debug_bench.more s" "\<exists>b. hw s' = (hw s)\<lparr>is_paused := b\<rparr>"
proof -
  let ?s2 = "if dc_cmd (cmd_of s c) \<noteq> DBG_CMD_CONTINUE then upd_hw (\<lambda>d. d\<lparr>is_paused := True\<rparr>) s else s"
  let ?s3 = "drive_cmd (cmd_of ?s2 c) ?s2"
  have f: "framed s ?s3" "debug_bench.more ?s3 = debug_bench.more s" "hw ?s3 = hw ?s2" "ack_hook (hw ?s3) = a"
    using assms(2) by (auto simp: drive_cmd_def Let_def framed_def upd_hw_def port_hw_def)
  have e: "r" "s' = set_hook_time a (round_up (picos ?s3 + of_int (clock_period (hw ?s3))) (clock_period (hw ?s3))) ?s3"
    using assms f(4) by (auto simp: next_cmd_def unschedule_def Let_def)
  then show "r" "foreign_step nb a [] s s'" "debug_bench.more s' = debug_bench.more s"
    using framed_foreign [OF f(1) foreign_time] f(2) by auto
  have "hw ?s2 = (hw s)\<lparr>is_paused := (if dc_cmd (cmd_of s c) \<noteq> DBG_CMD_CONTINUE then True else is_paused (hw s))\<rparr>" by simp
  then show "\<exists>b. hw s' = (hw s)\<lparr>is_paused := b\<rparr>" unfolding e(2) upd_hw_simps f(3) by blast
qed

lemma next_cmd_idle:
  assumes "cmds (hw s) = []" "port_hw a d (hw s)" "\<not> dh_scheduled (drop_en_hook (hw s))" "next_cmd s = (r, s')"
    "calling_hooks s" "picos s < 2 ^ 63" "3 * nb < d"
  shows "\<not> r" "foreign_step nb a [d] s s'" "debug_bench.more s' = debug_bench.more s"
    "hw s' = (hw s)\<lparr>drop_en_hook := (drop_en_hook (hw s))\<lparr>dh_scheduled := True\<rparr>\<rparr>"
proof -
  let ?t = "picos s + of_int (clock_period (hw s) div 4)"
  let ?s' = "sim_hook_add d (set_scheduled True (set_hook_time d ?t s))"
  have "next_cmd s = (False, ?s')"
    using assms(1-3) by (simp add: next_cmd_def schedule_delay_def schedule_def unschedule_def set_scheduled_def port_hw_def Let_def)
  then have e: "\<not> r" "s' = ?s'" using assms(4) by auto
  have "picos s < ?t" using assms(2,6) by (intro small_period) (auto simp: port_hw_def)
  then have "foreign_step nb a [d] s ?s'"
    using assms(5,7)
    by (auto simp: foreign_step_def sim_hook_add_def dl_append_def set_scheduled_def upd_hw_def set_hook_time_def hook_time_def future_def)
  then show "\<not> r" "foreign_step nb a [d] s s'" "debug_bench.more s' = debug_bench.more s"
    "hw s' = (hw s)\<lparr>drop_en_hook := (drop_en_hook (hw s))\<lparr>dh_scheduled := True\<rparr>\<rparr>"
    unfolding e(2) using e(1) assms(5) by (simp_all add: sim_hook_add_def set_scheduled_def upd_hw_def set_hook_time_def)
qed

lemma ack_again_step:
  assumes "ack_again s = (r, s')" "ack_hook (hw s) = a" "cmds (hw s) \<noteq> []"
  shows "r = 0" "foreign_step nb a [] s s'" "hw s' = hw s" "debug_bench.more s' = debug_bench.more s"
  using assms foreign_time by (auto simp: ack_again_def)

text \<open>
  What the port relies on in \<open>on_done\<close>: it leaves the hooks alone and at most queues its command again.
\<close>

locale debug_client =
  fixes on_done :: "nat \<Rightarrow> (('x, 'fn, 'm) dbench \<Rightarrow> ('x, 'fn, 'm) dbench) option" and Q :: "'m \<Rightarrow> bool"
  assumes done_ok: "on_done c = Some f \<Longrightarrow> calling_hooks s \<Longrightarrow> calling_cmd_done (hw s) \<Longrightarrow> Q (debug_bench.more s) \<Longrightarrow>
     framed s (f s) \<and> Q (debug_bench.more (f s)) \<and> (hw (f s) = hw s \<or> hw (f s) = (hw s)\<lparr>cmds := cmds (hw s) @ [c]\<rparr>)"
begin

lemma done_hw:
  assumes "h2 = h1\<lparr>calling_cmd_done := True\<rparr> \<or> h2 = h1\<lparr>calling_cmd_done := True, cmds := cmds h1 @ [c]\<rparr>"
    "h1 = h\<lparr>is_paused := b, cmds := cs\<rparr>" "\<not> calling_cmd_done h"
  shows "\<exists>l. (l = cs \<or> l = cs @ [c]) \<and> h2\<lparr>calling_cmd_done := False\<rparr> = h\<lparr>is_paused := b, cmds := l\<rparr>"
  using assms by (cases h) auto

lemma run_done:
  assumes "cmds (hw s) = c # cs" "calling_hooks s" "Q (debug_bench.more s)" "\<not> calling_cmd_done (hw s)"
    and s1: "s1 = upd_hw (\<lambda>d. d\<lparr>is_paused := b, cmds := dl_delete (cmds d) c\<rparr>) s"
    and s2: "s2 = (case on_done c of None \<Rightarrow> s1
      | Some f \<Rightarrow> upd_hw (\<lambda>d. d\<lparr>calling_cmd_done := False\<rparr>) (f (upd_hw (\<lambda>d. d\<lparr>calling_cmd_done := True\<rparr>) s1)))"
  shows "framed s s2" "Q (debug_bench.more s2)" "\<exists>l. set l \<subseteq> set (cmds (hw s)) \<and> hw s2 = (hw s)\<lparr>is_paused := b, cmds := l\<rparr>"
proof -
  have h1: "hw s1 = (hw s)\<lparr>is_paused := b, cmds := cs\<rparr>" "framed s s1" "debug_bench.more s1 = debug_bench.more s" "calling_hooks s1"
    using assms(1,2) by (simp_all add: s1 dl_delete_def) (simp add: upd_hw_def)
  have "framed s s2 \<and> Q (debug_bench.more s2) \<and> (\<exists>l. set l \<subseteq> set (cmds (hw s)) \<and> hw s2 = (hw s)\<lparr>is_paused := b, cmds := l\<rparr>)"
  proof (cases "on_done c")
    case None
    then show ?thesis using h1 assms(1,3) by (auto simp: s2 intro!: exI [of _ cs])
  next
    case (Some f)
    let ?t = "upd_hw (\<lambda>d. d\<lparr>calling_cmd_done := True\<rparr>) s1"
    have d: "framed ?t (f ?t)" "Q (debug_bench.more (f ?t))" "hw (f ?t) = hw ?t \<or> hw (f ?t) = (hw ?t)\<lparr>cmds := cmds (hw ?t) @ [c]\<rparr>"
      using done_ok [OF Some, of ?t] h1 assms(3) by (auto simp: upd_hw_def)
    have "framed s s2" using h1(2) d(1) by (simp add: s2 Some framed_def upd_hw_def)
    moreover have "hw s2 = (hw (f ?t))\<lparr>calling_cmd_done := False\<rparr>" by (simp add: s2 Some)
    then obtain l where "l = cs \<or> l = cs @ [c]" "hw s2 = (hw s)\<lparr>is_paused := b, cmds := l\<rparr>"
      using done_hw [OF _ h1(1) assms(4), of "hw (f ?t)" c] d(3) by auto
    then have "\<exists>l. set l \<subseteq> set (cmds (hw s)) \<and> hw s2 = (hw s)\<lparr>is_paused := b, cmds := l\<rparr>"
      using assms(1) by (intro exI [of _ l]) auto
    ultimately show ?thesis using d(2) by (simp add: s2 Some)
  qed
  then show "framed s s2" "Q (debug_bench.more s2)" "\<exists>l. set l \<subseteq> set (cmds (hw s)) \<and> hw s2 = (hw s)\<lparr>is_paused := b, cmds := l\<rparr>"
    by blast+
qed

lemma ack_step:
  assumes "port_ok a d U L (hw s)" "a \<in> L" "3 * nb < d" "calling_hooks s" "picos s < 2 ^ 63" "Q (debug_bench.more s)"
    and cb: "ack_hook_cb on_done s = (res, s')"
  shows "\<exists>new. foreign_step nb a new s s' \<and> set new \<inter> L = {} \<and> set new \<subseteq> {d} \<and> Q (debug_bench.more s') \<and>
    port_ok a d U (if res \<noteq> 0 then L \<union> set new - {a} else L \<union> set new) (hw s')"
proof -
  have p: "port_hw a d (hw s)" "\<not> dh_scheduled (drop_en_hook (hw s))" "d \<notin> L" "set (cmds (hw s)) \<subseteq> U" "a \<noteq> d"
    using assms(1,2) by (auto simp: port_ok_def port_hw_def)
  obtain c cs where c: "cmds (hw s) = c # cs" using assms(1,2) by (auto simp: port_ok_def neq_Nil_conv)
  show ?thesis
  proof (cases "geti (dg_ack (dbg_sig (hw s))) s \<noteq> 0")
    case False
    then have "ack_again s = (res, s')" using cb by (simp add: ack_hook_cb_def)
    from ack_again_step [OF this] have "res = 0" "foreign_step nb a [] s s'" "hw s' = hw s" "debug_bench.more s' = debug_bench.more s"
      using p(1) c by (simp_all add: port_hw_def)
    then show ?thesis using assms(1,6) by (intro exI [of _ "[]"]) simp
  next
    case True
    define s1 where "s1 = upd_hw (\<lambda>d. d\<lparr>is_paused := dc_cmd (cmd_of s c) \<noteq> DBG_CMD_CONTINUE, cmds := dl_delete (cmds d) c\<rparr>) s"
    define s2 where "s2 = (case on_done c of None \<Rightarrow> s1
      | Some f \<Rightarrow> upd_hw (\<lambda>d. d\<lparr>calling_cmd_done := False\<rparr>) (f (upd_hw (\<lambda>d. d\<lparr>calling_cmd_done := True\<rparr>) s1)))"
    obtain driven s3 where n: "next_cmd s2 = (driven, s3)" by fastforce
    have cb': "(if driven then ack_again s3 else (- 1, s3)) = (res, s')"
      using cb True c n by (simp add: ack_hook_cb_def s1_def [symmetric] s2_def [symmetric] Let_def del: upd_hw_simps)
    have "\<not> calling_cmd_done (hw s)" using p(1) by (simp add: port_hw_def)
    from run_done [OF c assms(4,6) this s1_def s2_def] obtain b l where
      d: "framed s s2" "Q (debug_bench.more s2)" "set l \<subseteq> set (cmds (hw s))" "hw s2 = (hw s)\<lparr>is_paused := b, cmds := l\<rparr>" by blast
    have p2: "port_hw a d (hw s2)" "\<not> dh_scheduled (drop_en_hook (hw s2))" "calling_hooks s2" "picos s2 < 2 ^ 63" "cmds (hw s2) = l"
      using p(1,2) d(1,4) assms(4,5) by (simp_all add: port_hw_def framed_def)
    show ?thesis
    proof (cases l)
      case Nil
      have k: "\<not> driven" "foreign_step nb a [d] s2 s3" "debug_bench.more s3 = debug_bench.more s2"
        "hw s3 = (hw s2)\<lparr>drop_en_hook := (drop_en_hook (hw s2))\<lparr>dh_scheduled := True\<rparr>\<rparr>"
        using next_cmd_idle [OF _ p2(1,2) n p2(3,4) assms(3)] p2(5) Nil by simp_all
      then have "port_ok a d U (L \<union> {d} - {a}) (hw s3)" using p2(1,5) p(5) Nil by (auto simp: port_ok_def port_hw_def)
      then show ?thesis
        using k cb' d(2) p(3) framed_foreign [OF d(1) k(2)] by (intro exI [of _ "[d]"]) auto
    next
      case (Cons c' cs')
      note k = next_cmd_driven [OF p2(5) [unfolded Cons] p2(1,2) n]
      obtain b' where b': "hw s3 = (hw s2)\<lparr>is_paused := b'\<rparr>" using k(4) by blast
      then have "ack_again s3 = (res, s')" "ack_hook (hw s3) = a" "cmds (hw s3) \<noteq> []"
        using cb' k(1) p2(1,5) Cons by (simp_all add: port_hw_def)
      note g = ack_again_step [OF this]
      have "port_ok a d U L (hw s')"
        using assms(1,2) p2 d(3,4) b' g(3) Cons by (auto simp: port_ok_def port_hw_def)
      moreover have "foreign_step nb a [] s s'" using framed_foreign [OF d(1) foreign_trans [OF k(2) g(2)]] .
      ultimately show ?thesis using g k(3) d(2) by (intro exI [of _ "[]"]) simp
    qed
  qed
qed

end

lemma drop_en_step:
  assumes "port_ok a d U L (hw s)" "d \<in> L" "drop_en_cb s = (res, s')"
  shows "res = - 1" "framed s s'" "debug_bench.more s' = debug_bench.more s" "port_ok a d U (L - {d}) (hw s')"
  using assms by (auto simp: drop_en_cb_def port_ok_def port_hw_def set_scheduled_def framed_def upd_hw_def)

text \<open>Queuing a command from outside the callbacks.\<close>

lemma unschedule_ok:
  assumes "hook_list_ok s" and d: "dh_hook (drop_en_hook (hw s)) = d" "d \<in> set (hooks s) \<longleftrightarrow> dh_scheduled (drop_en_hook (hw s))"
  shows "hook_list_ok (unschedule s)" "set (hooks (unschedule s)) = set (hooks s) - {d}"
    "hw (unschedule s) = (hw s)\<lparr>drop_en_hook := (drop_en_hook (hw s))\<lparr>dh_scheduled := False\<rparr>\<rparr>"
    "hook_of (unschedule s) = hook_of s" "picos (unschedule s) = picos s" "calling_hooks (unschedule s) = calling_hooks s"
    "immediate_hooks (unschedule s) = immediate_hooks s" "buses (unschedule s) = buses s"
    "debug_bench.more (unschedule s) = debug_bench.more s" "cmd_of (unschedule s) = cmd_of s"
proof -
  have "distinct (hooks s)" using assms(1) by (simp add: hook_list_ok_def)
  then show "set (hooks (unschedule s)) = set (hooks s) - {d}"
    using d by (auto simp: unschedule_def sim_hook_remove_def dl_delete_def set_scheduled_def upd_hw_def)
  have "hook_time (set_scheduled False s) = hook_time s" "hooks (set_scheduled False s) = hooks s"
    by (auto simp: set_scheduled_def upd_hw_def hook_time_def)
  then have "hook_list_ok (set_scheduled False s)" using assms(1) by (simp add: hook_list_ok_def)
  then show "hook_list_ok (unschedule s)" using assms(1) by (simp add: unschedule_def sim_hook_remove_ok)
  show "hw (unschedule s) = (hw s)\<lparr>drop_en_hook := (drop_en_hook (hw s))\<lparr>dh_scheduled := False\<rparr>\<rparr>"
    by (cases "hw s"; cases "drop_en_hook (hw s)") (auto simp: unschedule_def sim_hook_remove_def set_scheduled_def upd_hw_def)
qed (simp_all add: unschedule_def sim_hook_remove_def set_scheduled_def upd_hw_def)

lemma drive_framed [simp]: "framed s (drive_cmd k t) = framed s t" "hw (drive_cmd k t) = hw t" "debug_bench.more (drive_cmd k t) = debug_bench.more t"
  by (simp_all add: drive_cmd_def Let_def framed_def)

definition outside_step :: "nat \<Rightarrow> nat \<Rightarrow> ('x, 'fn, 'm) dbench \<Rightarrow> ('x, 'fn, 'm) dbench \<Rightarrow> bool" where
  "outside_step a d s s' \<longleftrightarrow> calling_hooks s' = calling_hooks s \<and> picos s' = picos s \<and> buses s' = buses s \<and>
     immediate_hooks s' = immediate_hooks s \<and> debug_bench.more s' = debug_bench.more s \<and>
     (\<forall>k. hk_cb (hook_of s' k) = hk_cb (hook_of s k)) \<and> (\<forall>k. k \<noteq> a \<longrightarrow> hook_time s' k = hook_time s k) \<and>
     (\<forall>k. k \<noteq> a \<and> k \<noteq> d \<longrightarrow> (k \<in> set (hooks s') \<longleftrightarrow> k \<in> set (hooks s)))"

lemma hook_list_ok_unscheduled: "hook_list_ok s \<Longrightarrow> a \<notin> set (hooks s) \<Longrightarrow> hook_list_ok (set_hook_time a t s)"
  by (auto simp: hook_list_ok_def before_def elim!: sorted_wrt_mono_rel [rotated])

lemma hook_list_ok_framed: "framed s s' \<Longrightarrow> hook_list_ok s \<Longrightarrow> hook_list_ok s'"
proof -
  assume f: "framed s s'" "hook_list_ok s"
  then have "hook_time s' = hook_time s" by (auto simp: framed_def hook_time_def)
  then show ?thesis using f by (simp add: framed_def hook_list_ok_def)
qed

lemma add_cmd_ok:
  assumes ok: "hook_list_ok s" and p: "port_ok a d U (set (hooks s)) (hw s)" and c: "c \<in> U" "c \<notin> set (cmds (hw s))" "\<not> calling_hooks s"
  shows "hook_list_ok (debug_add_cmd c s)" "port_ok a d U (set (hooks (debug_add_cmd c s))) (hw (debug_add_cmd c s))"
    "outside_step a d s (debug_add_cmd c s)"
proof -
  let ?s1 = "upd_hw (\<lambda>d. d\<lparr>cmds := dl_append (cmds d) c\<rparr>) s"
  have f: "framed s ?s1" "debug_bench.more ?s1 = debug_bench.more s" "cmds (hw ?s1) = cmds (hw s) @ [c]" "\<not> calling_cmd_done (hw ?s1)"
    using p by (simp_all add: dl_append_def port_ok_def port_hw_def)
  have out: "outside_step a d s ?s1" using f(1,2) by (auto simp: outside_step_def framed_def hook_time_def)
  show "hook_list_ok (debug_add_cmd c s)" "port_ok a d U (set (hooks (debug_add_cmd c s))) (hw (debug_add_cmd c s))"
    "outside_step a d s (debug_add_cmd c s)"
  proof (atomize (full), cases "cmds (hw s)")
    case (Cons b bs)
    then have e: "debug_add_cmd c s = ?s1" using c(2) f(3) by (simp add: debug_add_cmd_def Let_def dl_append_def)
    have "port_ok a d U (set (hooks ?s1)) (hw ?s1)" using p c(1) f(3) Cons by (auto simp: port_ok_def port_hw_def upd_hw_def dl_append_def)
    then show "hook_list_ok (debug_add_cmd c s) \<and> port_ok a d U (set (hooks (debug_add_cmd c s))) (hw (debug_add_cmd c s)) \<and>
      outside_step a d s (debug_add_cmd c s)"
      using hook_list_ok_framed [OF f(1) ok] out unfolding e by blast
  next
    case Nil
    let ?u = "unschedule ?s1"
    let ?s2 = "if dc_cmd (cmd_of ?u c) \<noteq> DBG_CMD_CONTINUE then upd_hw (\<lambda>d. d\<lparr>is_paused := True\<rparr>) ?u else ?u"
    let ?s3 = "drive_cmd (cmd_of ?s2 c) ?s2"
    let ?t = "round_up (picos ?s3 + of_int (clock_period (hw ?s3))) (clock_period (hw ?s3))"
    have d: "dh_hook (drop_en_hook (hw ?s1)) = d" "d \<in> set (hooks ?s1) \<longleftrightarrow> dh_scheduled (drop_en_hook (hw ?s1))"
      using p f(1) by (auto simp: port_ok_def port_hw_def framed_def)
    note u = unschedule_ok [OF hook_list_ok_framed [OF f(1) ok] d]
    have na: "a \<notin> set (hooks s)" "a \<noteq> d" using p Nil by (auto simp: port_ok_def port_hw_def)
    have s3: "framed ?u ?s3" "debug_bench.more ?s3 = debug_bench.more ?u" "hw ?s3 = hw ?s2" "ack_hook (hw ?s3) = a"
      using p by (simp_all add: u(3) port_ok_def port_hw_def)
    have e: "debug_add_cmd c s = sim_hook_add a (set_hook_time a ?t ?s3)"
      using f(3,4) Nil s3(4) by (simp add: debug_add_cmd_def next_cmd_def Let_def)
    have h3: "hooks ?s3 = hooks ?u" "set (hooks ?s3) = set (hooks s) - {d}" "\<not> calling_hooks ?s3"
      using s3(1) u(2,6) f(1) c(3) by (simp_all add: framed_def)
    have "hook_list_ok (debug_add_cmd c s)"
      unfolding e using h3 na
      by (intro sim_hook_add_ok hook_list_ok_unscheduled hook_list_ok_framed [OF s3(1)] u(1)) simp_all
    moreover have hk: "set (hooks (debug_add_cmd c s)) = insert a (set (hooks s) - {d})" unfolding e using h3(2) by simp
    moreover have "hw (debug_add_cmd c s) = hw ?s2" unfolding e s3(3) [symmetric] by (simp add: sim_hook_add_def set_hook_time_def)
    then have "port_ok a d U (set (hooks (debug_add_cmd c s))) (hw (debug_add_cmd c s))"
      using p c(1) f(3) Nil na(2) unfolding hk by (auto simp: port_ok_def port_hw_def u(3))
    moreover have "outside_step a d s (debug_add_cmd c s)"
      using f(1,2) s3(1,2) u(4-9) hk unfolding e
      by (auto simp: outside_step_def framed_def hook_time_def sim_hook_add_def set_hook_time_def)
    ultimately show "hook_list_ok (debug_add_cmd c s) \<and> port_ok a d U (set (hooks (debug_add_cmd c s))) (hw (debug_add_cmd c s)) \<and>
      outside_step a d s (debug_add_cmd c s)" by blast
  qed
qed

end
