(* ===== verification/Cpu_Devs.thy ===== *)
theory Cpu_Devs
  imports Debug_Hw Delays Uart_Dev
begin

text \<open>
  The devices of the CPU test bench (src/sim/cpu_ctb.c): the signal table of cpu_signals.h, the five
  buses, the memory made of the image file and of anonymous memory behind it, the event trigger, the
  test result and stack dump registers, the LED port, the DDR stub and the serial port. An access
  outside the mapped memory (the rest of its last page included) sets \<open>wild_write\<close>, a read of the serial port that never returns sets
  \<open>stuck\<close>, and \<open>exit\<close> sets \<open>exited\<close>.
\<close>

section \<open>Signals\<close>

text \<open>The indices of the enumeration that sim_macros.h makes of cpu_signals.h.\<close>

definition SIG_db_sram_o :: nat where "SIG_db_sram_o = 1"
definition SIG_db_ddr_o :: nat where "SIG_db_ddr_o = 7"
definition SIG_db_pio_o :: nat where "SIG_db_pio_o = 13"
definition SIG_db_uart0_o :: nat where "SIG_db_uart0_o = 19"
definition SIG_inst_o_en :: nat where "SIG_inst_o_en = 25"
definition SIG_debug_o_ack :: nat where "SIG_debug_o_ack = 28"
definition SIG_event_ack_o :: nat where "SIG_event_ack_o = 31"
definition SIG_db_sram_i_d :: nat where "SIG_db_sram_i_d = 32"
definition SIG_db_ddr_i_d :: nat where "SIG_db_ddr_i_d = 34"
definition SIG_db_pio_i_d :: nat where "SIG_db_pio_i_d = 36"
definition SIG_db_uart0_i_d :: nat where "SIG_db_uart0_i_d = 38"
definition SIG_inst_i_d :: nat where "SIG_inst_i_d = 40"
definition SIG_debug_i_en :: nat where "SIG_debug_i_en = 42"
definition SIG_event_req_i :: nat where "SIG_event_req_i = 47"
definition SIG_event_info_i :: nat where "SIG_event_info_i = 48"
definition SIG_NUM_SIGNALS :: nat where "SIG_NUM_SIGNALS = 49"

definition CLK_PERIOD :: u64 where "CLK_PERIOD = 10"

text \<open>The outputs of a data bus come as a, d, we, wr, rd, en; the inputs as d, ack.\<close>

definition data_bus_signals :: "nat \<Rightarrow> nat \<Rightarrow> mem_bus_signals" where
  "data_bus_signals o_base i_base =
     \<lparr>sg_en = o_base + 5, sg_a = o_base, sg_din = o_base + 1, sg_rd_wr = Some (o_base + 4, o_base + 3), sg_we = o_base + 2,
      sg_dout = i_base, sg_ack = i_base + 1\<rparr>"

section \<open>Buses\<close>

datatype dev_fn = Mmap_Img | Mmap_Ram | Instr_Img | Instr_Ram | Trigger_Event | Test_Result | Dump_Stack | Pio | Ddr | Uart0

definition new_bus :: "nat \<Rightarrow> u32 \<Rightarrow> u32 \<Rightarrow> u32 \<Rightarrow> mem_bus_signals \<Rightarrow> dev_fn mem_bus" where
  "new_bus b rd_d wr_d drop_d sgs =
     \<lparr>read_val = 0, ack_delay = 0, ack_drop_delay = 0, rw_hook = 3 * b + 1, drop_ack_hook = 3 * b + 2, cancel_drop_hook = 3 * b + 3,
      ack_pending = False, op_count = 0, ack_drop_op = 0, ranges = [], d_ack_read = rd_d, d_ack_write = wr_d, d_drop_ack = drop_d,
      sig = sgs\<rparr>"

definition sram_bus :: "dev_fn mem_bus" where "sram_bus = new_bus 0 12 0 4 (data_bus_signals SIG_db_sram_o SIG_db_sram_i_d)"
definition ddr_bus :: "dev_fn mem_bus" where "ddr_bus = new_bus 1 12 0 4 (data_bus_signals SIG_db_ddr_o SIG_db_ddr_i_d)"
definition pio_bus :: "dev_fn mem_bus" where "pio_bus = new_bus 2 12 0 4 (data_bus_signals SIG_db_pio_o SIG_db_pio_i_d)"
definition uart0_bus :: "dev_fn mem_bus" where "uart0_bus = new_bus 3 12 0 4 (data_bus_signals SIG_db_uart0_o SIG_db_uart0_i_d)"

definition if_bus :: "dev_fn mem_bus" where
  "if_bus = new_bus 4 4 32 6
     \<lparr>sg_en = SIG_inst_o_en, sg_a = SIG_inst_o_en + 1, sg_din = 0, sg_rd_wr = None, sg_we = SIG_inst_o_en + 2,
      sg_dout = SIG_inst_i_d, sg_ack = SIG_inst_i_d + 1\<rparr>"

definition cpu_buses :: "nat \<Rightarrow> dev_fn mem_bus" where
  "cpu_buses b = (if b = 0 then sram_bus else if b = 1 then ddr_bus else if b = 2 then pio_bus else if b = 3 then uart0_bus else if_bus)"

section \<open>State\<close>

datatype cpu_cb = Evt_Ack_Cb | Debug_Ack_Cb | Debug_Drop_Cb

record cpu_bench = "(cpu_cb, dev_fn) debug_bench" +
  img :: "u8 list"
  ram :: "u8 list"
  delay_cfg :: delay_set
  uart0 :: uartlite
  stuck :: bool
  exited :: "int option"

type_synonym 'm cpu_sim = "'m cpu_bench_scheme"
type_synonym 'm cpu_ext = "'m cpu_bench_ext debug_bench_ext"

section \<open>Memory\<close>

definition mem_bytes :: "dev_fn \<Rightarrow> 'm cpu_sim \<Rightarrow> u8 list" where
  "mem_bytes f s = (if f = Mmap_Img \<or> f = Instr_Img then img s else ram s)"

definition mmap_read_at :: "u8 list \<Rightarrow> nat \<Rightarrow> nat \<Rightarrow> u32 option" where
  "mmap_read_at bs off n = (if off + n \<le> length bs then Some (be_join (take n (drop off bs))) else None)"

text \<open>The last byte first, each time shifting the value.\<close>

fun mmap_write_at :: "nat \<Rightarrow> nat \<Rightarrow> u32 \<Rightarrow> u8 list \<Rightarrow> u8 list" where
  "mmap_write_at off 0 v bs = bs"
| "mmap_write_at off (Suc k) v bs = mmap_write_at off k (drop_bit 8 v) (bs[off + k := ucast v])"

definition lookup_delays :: "u32 \<Rightarrow> bool \<Rightarrow> u32 \<times> u32 \<Rightarrow> 'm cpu_sim \<Rightarrow> u32 \<times> u32" where
  "lookup_delays addr is_read d s = (case delays_lookup (delay_cfg s) addr is_read of None \<Rightarrow> d | Some d' \<Rightarrow> d')"

definition mmap_read ::
  "dev_fn \<Rightarrow> dev_fn mem_range \<Rightarrow> u32 \<Rightarrow> nat \<Rightarrow> u32 \<times> u32 \<Rightarrow> 'm cpu_sim \<Rightarrow> int \<times> u32 \<times> (u32 \<times> u32) \<times> 'm cpu_sim" where
  "mmap_read f rg addr n d s =
     (case mmap_read_at (mem_bytes f s) (unat (addr - rg_start rg)) n of
        None \<Rightarrow> (0, 0, d, s\<lparr>wild_write := True\<rparr>)
      | Some v \<Rightarrow> (0, v, lookup_delays addr True d s, s))"

text \<open>The names that the fetch prints with \<open>--log-ops\<close> are left out; the delays are looked up once more.\<close>

definition mmap_instr_read ::
  "dev_fn \<Rightarrow> dev_fn mem_range \<Rightarrow> u32 \<Rightarrow> nat \<Rightarrow> u32 \<times> u32 \<Rightarrow> 'm cpu_sim \<Rightarrow> int \<times> u32 \<times> (u32 \<times> u32) \<times> 'm cpu_sim" where
  "mmap_instr_read f rg addr n d s =
     (let (res, v, d1, s1) = mmap_read f rg addr n d s in (res, v, lookup_delays addr True d1 s1, s1))"

definition mmap_write ::
  "dev_fn \<Rightarrow> dev_fn mem_range \<Rightarrow> u32 \<Rightarrow> nat \<Rightarrow> u32 \<Rightarrow> u32 \<times> u32 \<Rightarrow> 'm cpu_sim \<Rightarrow> int \<times> (u32 \<times> u32) \<times> 'm cpu_sim" where
  "mmap_write f rg addr n v d s =
     (let off = unat (addr - rg_start rg) in
      if off + n \<le> length (mem_bytes f s) then
        (0, lookup_delays addr False d s,
         if f = Mmap_Img then s\<lparr>img := mmap_write_at off n v (img s)\<rparr> else s\<lparr>ram := mmap_write_at off n v (ram s)\<rparr>)
      else (0, d, s\<lparr>wild_write := True\<rparr>))"

section \<open>Registers\<close>

definition trigger_event :: "nat \<Rightarrow> u32 \<Rightarrow> 'm cpu_sim \<Rightarrow> 'm cpu_sim" where
  "trigger_event n v s =
     (if n = 4 then seti SIG_event_info_i (v AND 0xFFF) (seti SIG_event_req_i (drop_bit 12 v AND 0x7) s) else s)"

definition test_result :: "nat \<Rightarrow> u32 \<Rightarrow> 'm cpu_sim \<Rightarrow> 'm cpu_sim" where
  "test_result n v s = (if n = 4 \<and> v = 0 then s\<lparr>exited := Some 0\<rparr> else s)"

lemma dump_advances: "v < (0x100000 :: u32) \<Longrightarrow> unat (v + 4) = unat v + 4"
  by (simp add: word_less_nat_alt unat_word_ariths)

text \<open>The dump reads words of the anonymous memory up to address 0x100000 and prints them.\<close>

function dump_words :: "u8 list \<Rightarrow> u32 \<Rightarrow> u32 \<Rightarrow> u32 list option" where
  "dump_words bs start v =
     (if v < 0x100000 then
        (case mmap_read_at bs (unat (v - start)) 4 of None \<Rightarrow> None | Some w \<Rightarrow> map_option (Cons w) (dump_words bs start (v + 4)))
      else Some [])"
  by auto
termination
  by (relation "measure (\<lambda>(bs, start, v). 0x100004 - unat v)") (auto simp: dump_advances word_less_nat_alt)

declare dump_words.simps [simp del]

definition dump_stack :: "u32 \<Rightarrow> nat \<Rightarrow> u32 \<Rightarrow> 'm cpu_sim \<Rightarrow> 'm cpu_sim" where
  "dump_stack start n v s =
     (if n = 4 \<and> dump_words (ram s) start v = None then s\<lparr>wild_write := True\<rparr> else s)"

definition pio_write :: "u32 \<Rightarrow> u32 \<times> u32 \<Rightarrow> 'm cpu_sim \<Rightarrow> int \<times> (u32 \<times> u32) \<times> 'm cpu_sim" where
  "pio_write addr d s = (0, lookup_delays addr False d s, s)"

definition ddr_read :: "u32 \<Rightarrow> u32 \<times> u32 \<Rightarrow> 'm cpu_sim \<Rightarrow> int \<times> u32 \<times> (u32 \<times> u32) \<times> 'm cpu_sim" where
  "ddr_read addr d s = (0, 0, lookup_delays addr True d s, s)"

definition ddr_write :: "u32 \<Rightarrow> u32 \<times> u32 \<Rightarrow> 'm cpu_sim \<Rightarrow> int \<times> (u32 \<times> u32) \<times> 'm cpu_sim" where
  "ddr_write addr d s = (0, lookup_delays addr False d s, s)"

definition uart0_read :: "u32 \<Rightarrow> u32 \<times> u32 \<Rightarrow> 'm cpu_sim \<Rightarrow> int \<times> u32 \<times> (u32 \<times> u32) \<times> 'm cpu_sim" where
  "uart0_read addr d s =
     (case uartlite_read addr (uart0 s) of None \<Rightarrow> (- 1, 0, d, s\<lparr>stuck := True\<rparr>) | Some (res, v, u) \<Rightarrow> (res, v, d, s\<lparr>uart0 := u\<rparr>))"

definition uart0_write :: "u32 \<Rightarrow> u32 \<Rightarrow> u32 \<times> u32 \<Rightarrow> 'm cpu_sim \<Rightarrow> int \<times> (u32 \<times> u32) \<times> 'm cpu_sim" where
  "uart0_write addr v d s = (let (res, u) = uartlite_write addr v (uart0 s) in (res, d, s\<lparr>uart0 := u\<rparr>))"

text \<open>The function pointers. A range without a function for an access never gets here.\<close>

definition cpu_read :: "(cpu_cb, dev_fn, 'm cpu_ext) read_dev" where
  "cpu_read f b rg addr n d s =
     (case f of
        Mmap_Img \<Rightarrow> mmap_read f rg addr n d s
      | Mmap_Ram \<Rightarrow> mmap_read f rg addr n d s
      | Instr_Img \<Rightarrow> mmap_instr_read f rg addr n d s
      | Instr_Ram \<Rightarrow> mmap_instr_read f rg addr n d s
      | Ddr \<Rightarrow> ddr_read addr d s
      | Uart0 \<Rightarrow> uart0_read addr d s
      | _ \<Rightarrow> (- 1, 0, d, s))"

definition cpu_write :: "u32 \<Rightarrow> (cpu_cb, dev_fn, 'm cpu_ext) write_dev" where
  "cpu_write ram_start f b rg addr n v d s =
     (case f of
        Mmap_Img \<Rightarrow> mmap_write f rg addr n v d s
      | Mmap_Ram \<Rightarrow> mmap_write f rg addr n v d s
      | Trigger_Event \<Rightarrow> (0, d, trigger_event n v s)
      | Test_Result \<Rightarrow> (0, d, test_result n v s)
      | Dump_Stack \<Rightarrow> (0, d, dump_stack ram_start n v s)
      | Pio \<Rightarrow> pio_write addr d s
      | Ddr \<Rightarrow> ddr_write addr d s
      | Uart0 \<Rightarrow> uart0_write addr v d s
      | _ \<Rightarrow> (- 1, d, s))"

definition evt_ack_cb :: "'m cpu_sim \<Rightarrow> int \<times> 'm cpu_sim" where
  "evt_ack_cb s =
     (0, if geti SIG_event_ack_o s = 0 \<and> geti SIG_event_req_i s \<noteq> 7
         then seti SIG_event_info_i 0 (seti SIG_event_req_i 7 s) else s)"

end
