(* ===== verification/Bus_Memory.thy ===== *)
theory Bus_Memory
  imports Cpu_Devs
begin

text \<open>
  The memories of the CPU test bench as the processor sees them: what a data bus writes is what the same
  bus, and the instruction bus, read.
\<close>

section \<open>Bytes of a memory\<close>

lemma mmap_write_length [simp]: "length (mmap_write_at off n v bs) = length bs"
  by (induction off n v bs rule: mmap_write_at.induct) simp_all

lemma mmap_write_nth:
  "off + n \<le> length bs \<Longrightarrow> j < length bs \<Longrightarrow>
   mmap_write_at off n v bs ! j = (if off \<le> j \<and> j < off + n then ucast (drop_bit (8 * (off + n - 1 - j)) v) else bs ! j)"
proof (induction off n v bs rule: mmap_write_at.induct)
  case (2 off k v bs)
  then have ih: "mmap_write_at off k (drop_bit 8 v) (bs[off + k := ucast v]) ! j =
      (if off \<le> j \<and> j < off + k then ucast (drop_bit (8 * (off + k - 1 - j)) (drop_bit 8 v)) else bs[off + k := ucast v] ! j)" by simp
  have "8 * (off + k - 1 - j) + 8 = 8 * (off + Suc k - 1 - j)" if "off \<le> j" "j < off + k" using that by simp
  then have "drop_bit (8 * (off + k - 1 - j)) (drop_bit 8 v) = drop_bit (8 * (off + Suc k - 1 - j)) v" if "off \<le> j" "j < off + k"
    using that by (simp only: drop_bit_drop_bit)
  then show ?case using ih "2.prems" by (auto simp: less_Suc_eq)
qed auto

lemma mmap_write_bytes:
  assumes "off + n \<le> length bs"
  shows "take n (drop off (mmap_write_at off n v bs)) = map (\<lambda>i. ucast (drop_bit (8 * (n - 1 - i)) v)) [0..<n]"
  using assms by (intro nth_equalityI) (auto simp: mmap_write_nth)

lemma be_join_cut:
  "be_join [ucast (v :: u32)] = (v AND 0xFF :: u32)" "be_join [ucast (drop_bit 8 v), ucast v] = (v AND 0xFFFF :: u32)"
proof -
  have m: "(0xFF :: u32) = mask 8" "(0xFFFF :: u32) = mask 16" by (simp_all add: mask_eq_exp_minus_1)
  show "be_join [ucast v] = (v AND 0xFF :: u32)"
    unfolding m take_bit_eq_mask [symmetric] by (rule bit_word_eqI) (auto simp: be_join_def bit_simps)
  show "be_join [ucast (drop_bit 8 v), ucast v] = (v AND 0xFFFF :: u32)"
    unfolding m take_bit_eq_mask [symmetric]
  proof (rule bit_word_eqI)
    fix n assume "n < LENGTH(32)"
    then consider "n < 8" | "8 \<le> n" "n < 16" | "16 \<le> n" by fastforce
    then show "bit (be_join [ucast (drop_bit 8 v), ucast v] :: u32) n = bit (take_bit 16 v) n"
      by cases (auto simp: be_join_def bit_simps bit_shift_back)
  qed
qed

lemma mmap_read_written:
  assumes "off + n \<le> length bs" "n \<in> {1, 2, 4}"
  shows "mmap_read_at (mmap_write_at off n v bs) off n = Some (cut_data n v)"
proof -
  have "map (\<lambda>i. ucast (drop_bit (8 * (4 - 1 - i)) v)) [0..<4] = be32 v" by (simp add: be32_def eval_nat_numeral upt_conv_Cons)
  moreover have "map (\<lambda>i. ucast (drop_bit (8 * (2 - 1 - i)) v)) [0..<2] = [ucast (drop_bit 8 v), ucast v :: u8]"
    by (simp add: eval_nat_numeral upt_conv_Cons)
  ultimately have "be_join (map (\<lambda>i. ucast (drop_bit (8 * (n - 1 - i)) v) :: u8) [0..<n]) = cut_data n v"
    using assms(2) be_join_cut [of v] by (auto simp: cut_data_def)
  then show ?thesis using assms(1) by (simp add: mmap_read_at_def mmap_write_bytes)
qed

lemma cut_data_idem [simp]: "cut_data n (cut_data n v) = cut_data n v"
  by (simp add: cut_data_def and.assoc)

section \<open>One access\<close>

text \<open>Which read functions look at the memory that a write function changes.\<close>

definition reads_back :: "dev_fn \<Rightarrow> dev_fn \<Rightarrow> bool" where
  "reads_back f g \<longleftrightarrow> f = Mmap_Img \<and> (g = Mmap_Img \<or> g = Instr_Img) \<or> f = Mmap_Ram \<and> (g = Mmap_Ram \<or> g = Instr_Ram)"

lemma bus_write_mem:
  assumes "write_alignment we = Some (addr AND 3)" "geti_check (sg_din (sig (buses s b))) s = Some data"
    "default_find_range (ranges (buses s b)) addr = Some rg" "rg_write_fn rg = Some f" "f = Mmap_Img \<or> f = Mmap_Ram"
    "unat (addr - rg_start rg) + write_bytes_of we \<le> length (mem_bytes f s)"
  shows "\<exists>s1. bus_write (cpu_write ram_start) b addr we s = Inr s1 \<and> (\<forall>c. ranges (buses s1 c) = ranges (buses s c)) \<and>
    (\<forall>g. reads_back f g \<longrightarrow>
       mem_bytes g s1 = mmap_write_at (unat (addr - rg_start rg)) (write_bytes_of we) (cut_data (write_bytes_of we) data) (mem_bytes f s)) \<and>
    (\<forall>g. \<not> reads_back f g \<longrightarrow> g \<in> {Mmap_Img, Mmap_Ram, Instr_Img, Instr_Ram} \<longrightarrow> mem_bytes g s1 = mem_bytes g s)"
  using assms
  by (auto simp: bus_write_def cpu_write_def mmap_write_def Let_def reads_back_def mem_bytes_def upd_bus_def split: prod.split)

lemma bus_read_mem:
  assumes "default_find_range (ranges (buses s c)) addr = Some rg" "rg_read_fn rg = Some g" "g \<in> {Mmap_Img, Mmap_Ram, Instr_Img, Instr_Ram}"
    "mmap_read_at (mem_bytes g s) (unat (addr - rg_start rg)) (read_bytes_of addr) = Some v"
  shows "\<exists>s2. bus_read cpu_read c addr 0 s = Inr s2 \<and> read_val (buses s2 c) = read_lane addr v"
  using assms
  by (auto simp: bus_read_def cpu_read_def mmap_read_def mmap_instr_read_def Let_def upd_bus_def split: prod.split)

section \<open>Byte lanes\<close>

text \<open>
  The protocol of the bus, apart from its model: a word has four byte lanes, lane 0 holds its most significant byte, and
  the bit \<open>3 - k\<close> of the write enable is that of lane \<open>k\<close>. A legal write enables one lane, the two lanes of a
  halfword or all lanes, and its address is that of the first lane it enables. The data are right-justified: the
  last enabled lane gets the least significant byte.
\<close>

definition lane_of :: "u32 \<Rightarrow> nat" where
  "lane_of addr = unat (addr AND 3)"

definition lane_enabled :: "u32 \<Rightarrow> nat \<Rightarrow> bool" where
  "lane_enabled we k \<longleftrightarrow> k < 4 \<and> bit we (3 - k)"

definition legal_write :: "u32 \<Rightarrow> u32 \<Rightarrow> bool" where
  "legal_write we addr \<longleftrightarrow> (we, lane_of addr) \<in> {(1, 3), (2, 2), (4, 1), (8, 0), (3, 2), (0xC, 0), (0xF, 0)}"

definition lane_byte :: "u32 \<Rightarrow> u32 \<Rightarrow> nat \<Rightarrow> u8" where
  "lane_byte we data k = ucast (drop_bit (8 * length (filter (lane_enabled we) [Suc k..<4])) data)"

lemma low_bits: "addr AND (3 :: u32) = of_nat (lane_of addr)" "lane_of addr < 4"
proof -
  have "addr AND 3 \<le> (3 :: u32)" by (rule word_and_le1)
  then show "lane_of addr < 4" by (simp add: lane_of_def word_le_nat_alt)
qed (simp add: lane_of_def)

lemma legal_write_cases:
  assumes "legal_write we addr"
  obtains "we = 1" "lane_of addr = 3" | "we = 2" "lane_of addr = 2" | "we = 4" "lane_of addr = 1" | "we = 8" "lane_of addr = 0"
    | "we = 3" "lane_of addr = 2" | "we = 0xC" "lane_of addr = 0" | "we = 0xF" "lane_of addr = 0"
  using assms by (auto simp: legal_write_def)

lemma legal_write_alignment: "legal_write we addr \<Longrightarrow> write_alignment we = Some (addr AND 3)"
  by (auto elim!: legal_write_cases simp: write_alignment_def low_bits(1))

text \<open>The written bytes are those of the enabled lanes, and get the bytes that belong there.\<close>

lemma written_lanes:
  assumes "legal_write we addr" "k < 4"
  shows "lane_enabled we k \<longleftrightarrow> lane_of addr \<le> k \<and> k < lane_of addr + write_bytes_of we"
    and "lane_enabled we k \<Longrightarrow> ucast (drop_bit (8 * (lane_of addr + write_bytes_of we - 1 - k)) (cut_data (write_bytes_of we) data)) = lane_byte we data k"
proof -
  have m: "(ucast (x AND 0xFF) :: u8) = ucast x" "(ucast (x AND 0xFFFF) :: u8) = ucast x"
    "(ucast (drop_bit 8 (x AND 0xFFFF)) :: u8) = ucast (drop_bit 8 x)" for x :: u32
  proof -
    have e: "(0xFF :: u32) = mask 8" "(0xFFFF :: u32) = mask 16" by (simp_all add: mask_eq_exp_minus_1)
    show "(ucast (x AND 0xFF) :: u8) = ucast x" "(ucast (x AND 0xFFFF) :: u8) = ucast x"
      "(ucast (drop_bit 8 (x AND 0xFFFF)) :: u8) = ucast (drop_bit 8 x)"
      unfolding e by (rule bit_word_eqI; auto simp: bit_simps)+
  qed
  have k: "k = 0 \<or> k = 1 \<or> k = 2 \<or> k = 3" using assms(2) by linarith
  show "lane_enabled we k \<longleftrightarrow> lane_of addr \<le> k \<and> k < lane_of addr + write_bytes_of we"
    using assms(1) k by (cases rule: legal_write_cases) (auto simp: lane_enabled_def write_bytes_of_def)
  show "ucast (drop_bit (8 * (lane_of addr + write_bytes_of we - 1 - k)) (cut_data (write_bytes_of we) data)) = lane_byte we data k"
    if "lane_enabled we k"
    using assms(1) k that
    by (cases rule: legal_write_cases)
      (auto simp: lane_enabled_def write_bytes_of_def cut_data_def lane_byte_def m upt_rec)
qed

lemma legal_in_word: "legal_write we addr \<Longrightarrow> lane_of addr + write_bytes_of we \<le> 4 \<and> 0 < write_bytes_of we"
  by (auto elim!: legal_write_cases simp: write_bytes_of_def)

text \<open>A read has the bytes of the memory in its lanes, and zeros in the others.\<close>

lemma bytes_of_word:
  fixes b0 b1 b2 b3 :: u8
  shows "ucast (drop_bit 24 (be_join [b0, b1, b2, b3] :: u32)) = b0" "ucast (drop_bit 16 (be_join [b0, b1, b2, b3] :: u32)) = b1"
    "ucast (drop_bit 8 (be_join [b0, b1, b2, b3] :: u32)) = b2" "ucast (be_join [b0, b1, b2, b3] :: u32) = b3"
    "ucast (drop_bit 24 (be_join [b0, b1] :: u32)) = (0 :: u8)" "ucast (drop_bit 16 (be_join [b0, b1] :: u32)) = (0 :: u8)"
    "ucast (drop_bit 8 (be_join [b0, b1] :: u32)) = b0" "ucast (be_join [b0, b1] :: u32) = b1"
    "ucast (drop_bit 24 (be_join [b0] :: u32)) = (0 :: u8)" "ucast (drop_bit 16 (be_join [b0] :: u32)) = (0 :: u8)"
    "ucast (drop_bit 8 (be_join [b0] :: u32)) = (0 :: u8)" "ucast (be_join [b0] :: u32) = b0"
  by (rule bit_word_eqI; auto simp: be_join_def bit_simps)+

lemma short_join:
  "(be_join [b0, b1] AND 0xFFFF :: u32) = be_join [b0, b1]" "(be_join [b0] AND 0xFF :: u32) = be_join [b0]" for b0 b1 :: u8
proof -
  have e: "(0xFF :: u32) = mask 8" "(0xFFFF :: u32) = mask 16" by (simp_all add: mask_eq_exp_minus_1)
  show "(be_join [b0, b1] AND 0xFFFF :: u32) = be_join [b0, b1]" "(be_join [b0] AND 0xFF :: u32) = be_join [b0]"
    unfolding e by (rule bit_word_eqI; fastforce simp: be_join_def bit_simps dest: bit_imp_le_length)+
qed

lemma read_lane_bytes:
  assumes "length bs = read_bytes_of a" "k < 4"
  shows "ucast (drop_bit (8 * (3 - k)) (read_lane a (be_join bs))) =
    (if lane_of a \<le> k \<and> k < lane_of a + read_bytes_of a then bs ! (k - lane_of a) else (0 :: u8))"
proof -
  have k: "k = 0 \<or> k = 1 \<or> k = 2 \<or> k = 3" using assms(2) by linarith
  have sh: "(ucast (push_bit 16 x) :: u8) = 0" "(ucast (drop_bit 8 (push_bit 16 x)) :: u8) = 0"
    "drop_bit 16 (push_bit 16 (be_join [b0])) = (be_join [b0] :: u32)" "(ucast (drop_bit 24 (push_bit 16 (be_join [b0] :: u32))) :: u8) = 0"
    for x :: u32 and b0 :: u8
    by (rule bit_word_eqI; fastforce simp: be_join_def bit_simps dest: bit_imp_le_length)+
  consider "lane_of a = 0" | "lane_of a = 1" | "lane_of a = 2" | "lane_of a = 3" using low_bits(2) [of a] by linarith
  then show ?thesis
  proof cases
    case 1
    then obtain b0 b1 b2 b3 where "bs = [b0, b1, b2, b3]"
      using assms(1) by (auto simp: low_bits(1) read_bytes_of_def length_Suc_conv eval_nat_numeral)
    with 1 k show ?thesis by (auto simp: low_bits(1) read_bytes_of_def read_lane_def bytes_of_word Let_def)
  next
    case 2
    then obtain b0 where "bs = [b0]" using assms(1) by (auto simp: low_bits(1) read_bytes_of_def length_Suc_conv)
    with 2 k show ?thesis by (auto simp: low_bits(1) read_bytes_of_def read_lane_def bytes_of_word short_join sh Let_def)
  next
    case 3
    then obtain b0 b1 where "bs = [b0, b1]" using assms(1) by (auto simp: low_bits(1) read_bytes_of_def length_Suc_conv eval_nat_numeral)
    with 3 k show ?thesis by (auto simp: low_bits(1) read_bytes_of_def read_lane_def bytes_of_word short_join Let_def)
  next
    case 4
    then obtain b0 where "bs = [b0]" using assms(1) by (auto simp: low_bits(1) read_bytes_of_def length_Suc_conv)
    with 4 k show ?thesis by (auto simp: low_bits(1) read_bytes_of_def read_lane_def bytes_of_word short_join Let_def)
  qed
qed

section \<open>Through the buses\<close>

text \<open>
  C9: A write through a data bus into the image or the memory, with any legal write enable - one lane, a halfword or
  a word - at the address of its first lane, succeeds when its lanes lie inside the memory. It changes exactly the
  bytes of the enabled lanes, each to the byte of the data that belongs to the lane, and the other memory not at all. A
  read of any address of the same memory, through a data bus or through the instruction bus, then gives the bytes of
  the memory in their lanes and zeros in the lanes it does not cover; so a read of the address that was written
  gives every written lane back.
\<close>

theorem bus_write_then_read:
  assumes "legal_write we addr" "geti_check (sg_din (sig (buses s b))) s = Some data"
    "default_find_range (ranges (buses s b)) addr = Some rg" "rg_write_fn rg = Some f" "reads_back f g"
    "\<And>k. lane_enabled we k \<Longrightarrow> unat (addr - rg_start rg) + (k - lane_of addr) < length (mem_bytes f s)"
    "default_find_range (ranges (buses s c)) a = Some rg'" "rg_read_fn rg' = Some g"
    "unat (a - rg_start rg') + read_bytes_of a \<le> length (mem_bytes f s)"
  shows "\<exists>s1 s2. bus_write (cpu_write ram_start) b addr we s = Inr s1 \<and> bus_read cpu_read c a 0 s1 = Inr s2 \<and>
    length (mem_bytes f s1) = length (mem_bytes f s) \<and>
    (\<forall>j<length (mem_bytes f s). mem_bytes f s1 ! j =
       (let k = j + lane_of addr - unat (addr - rg_start rg)
        in if unat (addr - rg_start rg) \<le> j + lane_of addr \<and> lane_enabled we k then lane_byte we data k else mem_bytes f s ! j)) \<and>
    (if f = Mmap_Img then ram s1 = ram s else img s1 = img s) \<and>
    (\<forall>k<4. ucast (drop_bit (8 * (3 - k)) (read_val (buses s2 c))) =
       (if lane_of a \<le> k \<and> k < lane_of a + read_bytes_of a
        then mem_bytes f s1 ! (unat (a - rg_start rg') + (k - lane_of a)) else 0)) \<and>
    (a = addr \<and> rg_start rg' = rg_start rg \<longrightarrow>
       (\<forall>k. lane_enabled we k \<longrightarrow> ucast (drop_bit (8 * (3 - k)) (read_val (buses s2 c))) = lane_byte we data k))"
proof -
  let ?o = "unat (addr - rg_start rg)" and ?n = "write_bytes_of we" and ?l = "lane_of addr"
  let ?v = "cut_data ?n data"
  have f: "f = Mmap_Img \<or> f = Mmap_Ram" "reads_back f f" "g \<in> {Mmap_Img, Mmap_Ram, Instr_Img, Instr_Ram}"
    using assms(5) by (auto simp: reads_back_def)
  have n: "?l + ?n \<le> 4" "0 < ?n" using legal_in_word [OF assms(1)] by simp_all
  then have "lane_enabled we (?l + ?n - 1)" using written_lanes(1) [OF assms(1), of "?l + ?n - 1"] by simp
  from assms(6) [OF this] n have fits: "?o + ?n \<le> length (mem_bytes f s)" by simp
  from bus_write_mem [OF legal_write_alignment [OF assms(1)] assms(2-4) f(1) fits] obtain s1 where
    s1: "bus_write (cpu_write ram_start) b addr we s = Inr s1" "ranges (buses s1 c) = ranges (buses s c)"
      "mem_bytes f s1 = mmap_write_at ?o ?n ?v (mem_bytes f s)" "mem_bytes g s1 = mem_bytes f s1"
      "\<forall>g. \<not> reads_back f g \<longrightarrow> g \<in> {Mmap_Img, Mmap_Ram, Instr_Img, Instr_Ram} \<longrightarrow> mem_bytes g s1 = mem_bytes g s"
    using assms(5) f(2) by metis
  have other: "if f = Mmap_Img then ram s1 = ram s else img s1 = img s"
    using f(1) s1(5) [rule_format, of Mmap_Ram] s1(5) [rule_format, of Mmap_Img] by (auto simp: reads_back_def mem_bytes_def)
  have len: "length (mem_bytes f s1) = length (mem_bytes f s)" by (simp add: s1(3))
  have wr: "mem_bytes f s1 ! j = (let k = j + ?l - ?o in if ?o \<le> j + ?l \<and> lane_enabled we k then lane_byte we data k else mem_bytes f s ! j)"
    if j: "j < length (mem_bytes f s)" for j
  proof (cases "?o \<le> j \<and> j < ?o + ?n")
    case True
    define k where "k = j + ?l - ?o"
    have k: "k < 4" "?l \<le> k \<and> k < ?l + ?n" "?o + ?n - 1 - j = ?l + ?n - 1 - k" "?o \<le> j + ?l" using True n unfolding k_def by linarith+
    then have e: "lane_enabled we k" using written_lanes(1) [OF assms(1)] by simp
    have "mem_bytes f s1 ! j = ucast (drop_bit (8 * (?l + ?n - 1 - k)) ?v)"
      using True j fits k(3) by (simp add: s1(3) mmap_write_nth)
    also have "\<dots> = lane_byte we data k" by (rule written_lanes(2) [OF assms(1) k(1) e])
    finally show ?thesis using e k(4) by (simp add: Let_def k_def)
  next
    case False
    then have "\<not> (?o \<le> j + ?l \<and> lane_enabled we (j + ?l - ?o))"
      using written_lanes(1) [OF assms(1), of "j + ?l - ?o"] by (auto simp: lane_enabled_def)
    then show ?thesis using False j fits by (auto simp: s1(3) mmap_write_nth Let_def)
  qed
  let ?r = "unat (a - rg_start rg')"
  let ?bs = "take (read_bytes_of a) (drop ?r (mem_bytes f s1))"
  have bs: "length ?bs = read_bytes_of a" "\<And>i. i < read_bytes_of a \<Longrightarrow> ?bs ! i = mem_bytes f s1 ! (?r + i)"
    using assms(9) len by simp_all
  have "mmap_read_at (mem_bytes g s1) ?r (read_bytes_of a) = Some (be_join ?bs)"
    using assms(9) s1(4) len by (simp add: mmap_read_at_def)
  then obtain s2 where s2: "bus_read cpu_read c a 0 s1 = Inr s2" "read_val (buses s2 c) = read_lane a (be_join ?bs)"
    using bus_read_mem [of s1 c a rg' g] s1(2) assms(7,8) f(3) by auto
  have rd: "ucast (drop_bit (8 * (3 - k)) (read_val (buses s2 c))) =
      (if lane_of a \<le> k \<and> k < lane_of a + read_bytes_of a then mem_bytes f s1 ! (?r + (k - lane_of a)) else (0 :: u8))"
    if "k < 4" for k
    using read_lane_bytes [OF bs(1) that] bs(2) [of "k - lane_of a"] by (auto simp: s2(2))
  have "ucast (drop_bit (8 * (3 - k)) (read_val (buses s2 c))) = lane_byte we data k"
    if "a = addr" "rg_start rg' = rg_start rg" "lane_enabled we k" for k
  proof -
    have k: "k < 4" using that(3) by (simp add: lane_enabled_def)
    then have lk: "?l \<le> k" "k < ?l + ?n" using written_lanes(1) [OF assms(1)] that(3) by blast+
    have "k < ?l + read_bytes_of addr" using assms(1) lk by (cases rule: legal_write_cases) (auto simp: write_bytes_of_def read_bytes_of_def low_bits(1))
    then have "ucast (drop_bit (8 * (3 - k)) (read_val (buses s2 c))) = mem_bytes f s1 ! (?o + (k - ?l))"
      using rd [OF k] lk that by simp
    also have "\<dots> = lane_byte we data k" using wr [of "?o + (k - ?l)"] assms(6) [OF that(3)] lk that(3) by (simp add: Let_def)
    finally show ?thesis .
  qed
  then show ?thesis using s1(1) s2(1) len wr other rd by blast
qed

text \<open>A bench whose signals all carry \<open>0x12345678\<close>, with 16 bytes of memory on two buses.\<close>

definition memory_bench :: "unit cpu_sim" where
  "memory_bench =
     \<lparr>sim_kind = SIM_TYPE_GHDL,
      signals = replicate 49 \<lparr>sig_index = 0, sig_name = ''d'', sig_type = [], sig_value = Some ''00010010001101000101011001111000'', value_len = 32,
        read_only = False, event = False\<rparr>,
      on_exit = SIMEXIT_EXIT, child_running = True, exit_status = 0, picos = 0, pico_scale = 1000,
      lr = line_reader_init, rd_script = [], pty_out = [], io_error = False, any_event = False, dirty_writes = False, events = empty_bv,
      calling_hooks = True, hook_of = (\<lambda>_. \<lparr>hk_cb = Sig_Wait_Cb, hk_signals = empty_bv, hk_time = 0\<rparr>), hooks = [], immediate_hooks = [],
      sig_wait_occurred = False, echo_arg = 0, wild_write = False,
      buses = (\<lambda>b. (cpu_buses b)\<lparr>ranges := [\<lparr>rg_id = 7, rg_start = 0x100, rg_end = 0x110, rg_read_fn = Some (if b = 4 then Instr_Ram else Mmap_Ram),
        rg_write_fn = if b = 4 then None else Some Mmap_Ram\<rparr>]\<rparr>),
      hw = \<lparr>ack_hook = 17, drop_en_hook = \<lparr>dh_hook = 18, dh_scheduled = False\<rparr>, calling_cmd_done = False, is_paused = False, clock_period = 0, cmds = [],
        dbg_sig = \<lparr>dg_en = 0, dg_cmd = 0, dg_din = 0, dg_din_en = 0, dg_ir = 0, dg_ack = 0, dg_rdy = 0, dg_dout = 0\<rparr>\<rparr>,
      cmd_of = (\<lambda>_. \<lparr>dc_cmd = DBG_CMD_BREAK, dc_ir = 0, dc_d = 0, dc_d_en = 0\<rparr>),
      img = [], ram = replicate 16 0, delay_cfg = \<lparr>delays = []\<rparr>, uart0 = uartlite_init 0 [], stuck = False, exited = None\<rparr>"

theorem bus_write_then_read_witness:
  "\<exists>s1 s2. bus_write (cpu_write 0) 0 0x104 0xC memory_bench = Inr s1 \<and> bus_read cpu_read 4 0x104 0 s1 = Inr s2 \<and>
     ram s1 ! 4 = 0x56 \<and> ram s1 ! 6 = 0 \<and> ucast (drop_bit 16 (read_val (buses s2 4))) = (0x78 :: u8)"
proof -
  let ?rg = "\<lparr>rg_id = 7, rg_start = 0x100, rg_end = 0x110, rg_read_fn = Some Mmap_Ram, rg_write_fn = Some Mmap_Ram\<rparr>"
  let ?rg' = "\<lparr>rg_id = 7, rg_start = 0x100, rg_end = 0x110, rg_read_fn = Some Instr_Ram, rg_write_fn = None\<rparr>"
  have l: "lane_of 0x104 = 0" by (simp add: lane_of_def)
  have m: "mem_bytes Mmap_Ram memory_bench = replicate 16 0" by (simp add: mem_bytes_def memory_bench_def)
  have a: "legal_write 0xC 0x104" by (simp add: legal_write_def l)
  have d: "geti_check (sg_din (sig (buses memory_bench 0))) memory_bench = Some 0x12345678" by code_simp
  have r: "default_find_range (ranges (buses memory_bench 0)) 0x104 = Some ?rg" "default_find_range (ranges (buses memory_bench 4)) 0x104 = Some ?rg'"
    "reads_back Mmap_Ram Instr_Ram" by (simp_all add: memory_bench_def reads_back_def)
  have k: "unat (0x104 - rg_start ?rg) + (k - lane_of 0x104) < length (mem_bytes Mmap_Ram memory_bench)" if "lane_enabled 0xC k" for k
    using that unfolding m by (simp add: lane_enabled_def l)
  have n: "unat (0x104 - rg_start ?rg') + read_bytes_of 0x104 \<le> length (mem_bytes Mmap_Ram memory_bench)" unfolding m by (simp add: read_bytes_of_def)
  have e: "lane_enabled 0xC 0" "lane_enabled 0xC 1" "\<not> lane_enabled 0xC 2" "lane_byte 0xC 0x12345678 0 = 0x56" "lane_byte 0xC 0x12345678 1 = 0x78"
    by (simp_all add: lane_enabled_def lane_byte_def upt_rec)
  obtain s1 s2 where "bus_write (cpu_write 0) 0 0x104 0xC memory_bench = Inr s1" "bus_read cpu_read 4 0x104 0 s1 = Inr s2"
    and w: "\<forall>j<length (mem_bytes Mmap_Ram memory_bench). mem_bytes Mmap_Ram s1 ! j =
       (let k = j + lane_of 0x104 - unat (0x104 - rg_start ?rg)
        in if unat (0x104 - rg_start ?rg) \<le> j + lane_of 0x104 \<and> lane_enabled 0xC k then lane_byte 0xC 0x12345678 k else mem_bytes Mmap_Ram memory_bench ! j)"
    and b: "\<forall>k. lane_enabled 0xC k \<longrightarrow> ucast (drop_bit (8 * (3 - k)) (read_val (buses s2 4))) = lane_byte 0xC 0x12345678 k"
    using bus_write_then_read [OF a d r(1) _ r(3) k r(2) _ n, of 0] by auto
  moreover have "ram s1 ! 4 = 0x56" "ram s1 ! 6 = 0"
    using w [rule_format, of 4] w [rule_format, of 6] e unfolding m l by (simp_all add: mem_bytes_def)
  moreover have "ucast (drop_bit 16 (read_val (buses s2 4))) = (0x78 :: u8)" using b [rule_format, of 1] e by simp
  ultimately show ?thesis by blast
qed

end
