(* ===== verification/Debug_Skt.thy ===== *)
theory Debug_Skt
  imports Recv_Buf Debug_Plan
begin

text \<open>
  The debug socket of the test bench (src/sim/debug_skt.c): requests of 8 bytes come in over a TCP
  connection, replies of 5 bytes go out. What the operating system answers is an argument: whether
  \<open>accept\<close> gave a connection that could be made non-blocking, what \<open>recv\<close> delivers for a given room, and
  the results of the calls of \<open>send\<close>; for opening the socket, the error of each call that fails.
\<close>

section \<open>State\<close>

record debug_skt =
  skt_listener :: bool
  skt_conn :: bool
  skt_buf :: recv_buf

text \<open>
  \<open>Recv_Data\<close> stands for one byte or more: when \<open>recv\<close> gives 0, the other side has closed the connection, which is
  \<open>Recv_Closed\<close>.
\<close>

datatype recv_result = Recv_Data "u8 list" | Recv_Again | Recv_Closed | Recv_Error

definition debug_skt_close :: "debug_skt \<Rightarrow> debug_skt" where
  "debug_skt_close k = k\<lparr>skt_listener := False, skt_conn := False\<rparr>"

text \<open>
  The \<open>errno\<close> of the calls on the listening socket, \<open>None\<close> for success, and the port \<open>getsockname\<close> gives. The
  error of \<open>setsockopt\<close> is only printed.
\<close>

record listen_sys =
  err_socket :: "int option"
  err_nonblock :: "int option"
  err_bind :: "int option"
  bound_port :: u16
  err_listen :: "int option"

definition debug_skt_init :: "listen_sys \<Rightarrow> debug_skt \<Rightarrow> u16 \<Rightarrow> int \<times> u16 \<times> debug_skt" where
  "debug_skt_init sys k port =
     (let k0 = k\<lparr>skt_buf := recv_buf_init (skt_buf k), skt_conn := False\<rparr>; k1 = k0\<lparr>skt_listener := True\<rparr> in
      case err_socket sys of Some e \<Rightarrow> (- e, port, k0\<lparr>skt_listener := False\<rparr>)
      | None \<Rightarrow>
      (case err_nonblock sys of Some e \<Rightarrow> (- e, port, debug_skt_close k1)
       | None \<Rightarrow>
       (case err_bind sys of Some e \<Rightarrow> (- e, port, debug_skt_close k1)
        | None \<Rightarrow>
        (case err_listen sys of Some e \<Rightarrow> (- e, bound_port sys, debug_skt_close k1)
         | None \<Rightarrow> (0, bound_port sys, k1)))))"

section \<open>Requests\<close>

text \<open>The first eight bytes of the buffer: a request, or the number 4 for a notification.\<close>

definition cmd_of_byte :: "u8 \<Rightarrow> debug_cmd option" where
  "cmd_of_byte b =
     (if b = 0 then Some DBG_CMD_BREAK else if b = 1 then Some DBG_CMD_STEP
      else if b = 2 then Some DBG_CMD_INSERT else if b = 3 then Some DBG_CMD_CONTINUE else None)"

definition decode_request :: "u8 list \<Rightarrow> debug_request option" where
  "decode_request bs =
     (case cmd_of_byte (bs ! 0) of None \<Rightarrow> None
      | Some c \<Rightarrow>
          Some \<lparr>req_cmd = c, req_instr = be_join (take 2 (drop 2 bs)), req_data = be_join (take 4 (drop 4 bs)),
                req_data_en = sint (bs ! 1)\<rparr>)"

definition skt_parse :: "debug_skt \<Rightarrow> debug_request option \<times> bool \<times> debug_skt" where
  "skt_parse k =
     (let b = skt_buf k in
      if recv_buf_len b \<ge> 8 then
        (let bs = take 8 (drop (rb_head b) (rb_buf b))
         in (decode_request bs, bs ! 0 = 4, k\<lparr>skt_buf := recv_buf_take b 8\<rparr>))
      else (None, False, k))"

definition debug_skt_handle ::
  "bool \<Rightarrow> (nat \<Rightarrow> recv_result) \<Rightarrow> debug_skt \<Rightarrow> debug_request option \<times> bool \<times> debug_skt" where
  "debug_skt_handle accept_ok recv k =
     (if \<not> skt_conn k then (None, False, k\<lparr>skt_conn := accept_ok\<rparr>)
      else
        (let (b, off, len) = recv_buf_get_empty_buf (skt_buf k); k1 = k\<lparr>skt_buf := b\<rparr> in
         if len > 0 then
           (case recv len of
              Recv_Error \<Rightarrow> (None, False, k1\<lparr>skt_conn := False\<rparr>)
            | Recv_Closed \<Rightarrow> (None, False, k1\<lparr>skt_conn := False\<rparr>)
            | Recv_Again \<Rightarrow> (None, False, k1)
            | Recv_Data xs \<Rightarrow>
                (let b1 = recv_buf_added (b\<lparr>rb_buf := buf_store (rb_buf b) off xs\<rparr>) (length xs);
                     b2 = b1\<lparr>rb_buf := (rb_buf b1)[rb_tail b1 := 0]\<rparr>
                 in skt_parse (k1\<lparr>skt_buf := b2\<rparr>)))
         else (None, False, k1)))"

section \<open>Replies\<close>

text \<open>
  Each result of \<open>send\<close> is the number of bytes it took, or \<open>None\<close> for an error. The result is whether
  all bytes went out, what was sent, and the results not used; \<open>None\<close> if \<open>send\<close> blocks.
\<close>

fun send_all :: "nat option list \<Rightarrow> u8 list \<Rightarrow> (bool \<times> u8 list \<times> nat option list) option" where
  "send_all rs [] = Some (True, [], rs)"
| "send_all [] (x # xs) = None"
| "send_all (None # rs) (x # xs) = Some (False, [], rs)"
| "send_all (Some n # rs) (x # xs) =
     map_option (\<lambda>(ok, sent, rest). (ok, take n (x # xs) @ sent, rest)) (send_all rs (drop n (x # xs)))"

definition MSG_REPLY :: u8 where "MSG_REPLY = 0"
definition MSG_NOTIFY :: u8 where "MSG_NOTIFY = 1"

definition skt_msg :: "u8 \<Rightarrow> u32 \<Rightarrow> u8 list" where
  "skt_msg kind data = kind # be32 data"

definition send_msg ::
  "u8 \<Rightarrow> u32 \<Rightarrow> nat option list \<Rightarrow> debug_skt \<Rightarrow> (u8 list \<times> nat option list \<times> debug_skt) option" where
  "send_msg kind data rs k =
     map_option (\<lambda>(ok, sent, rest). (sent, rest, if ok then k else k\<lparr>skt_conn := False\<rparr>)) (send_all rs (skt_msg kind data))"

definition debug_skt_notify_paused :: "u32 \<Rightarrow> nat option list \<Rightarrow> debug_skt \<Rightarrow> (u8 list \<times> nat option list \<times> debug_skt) option" where
  "debug_skt_notify_paused data rs k = send_msg MSG_NOTIFY data rs k"

definition debug_skt_reply :: "debug_reply \<Rightarrow> nat option list \<Rightarrow> debug_skt \<Rightarrow> (u8 list \<times> nat option list \<times> debug_skt) option" where
  "debug_skt_reply reply rs k = send_msg MSG_REPLY reply rs k"

section \<open>The stream of requests\<close>

text \<open>Calls of \<open>debug_skt_handle\<close>, each with the bytes that \<open>recv\<close> then delivers.\<close>

fun skt_run :: "u8 list list \<Rightarrow> debug_skt \<Rightarrow> (debug_request option \<times> bool) list \<times> debug_skt" where
  "skt_run [] k = ([], k)"
| "skt_run (xs # xss) k =
     (let (r, n, k1) = debug_skt_handle False (\<lambda>_. Recv_Data xs) k; (rs, k2) = skt_run xss k1 in ((r, n) # rs, k2))"

text \<open>The bytes fit the room that is offered, as \<open>recv\<close> guarantees.\<close>

fun fits :: "u8 list list \<Rightarrow> debug_skt \<Rightarrow> bool" where
  "fits [] k = True"
| "fits (xs # xss) k = (length xs \<le> recv_space (skt_buf k) \<and> fits xss (snd (snd (debug_skt_handle False (\<lambda>_. Recv_Data xs) k))))"

text \<open>The abstract socket: after each arrival the first message of the stream is answered, if it is complete.\<close>

fun serve :: "u8 list \<Rightarrow> u8 list list \<Rightarrow> (debug_request option \<times> bool) list \<times> u8 list" where
  "serve st [] = ([], st)"
| "serve st (xs # xss) =
     (let st1 = st @ xs in
      if length st1 < 8 then (let (rs, st2) = serve st1 xss in ((None, False) # rs, st2))
      else (let (rs, st2) = serve (drop 8 st1) xss in ((decode_request (take 8 st1), st1 ! 0 = 4) # rs, st2)))"

definition skt_wf :: "debug_skt \<Rightarrow> bool" where
  "skt_wf k \<longleftrightarrow> skt_conn k \<and> rb_wf (skt_buf k) \<and> length (rb_contents (skt_buf k)) < RECV_BUF_LEN"

lemma rb_end_marker:
  assumes "rb_wf b"
  shows "rb_wf (b\<lparr>rb_buf := (rb_buf b)[rb_tail b := v]\<rparr>)" "rb_contents (b\<lparr>rb_buf := (rb_buf b)[rb_tail b := v]\<rparr>) = rb_contents b"
proof -
  have "drop (rb_head b) (take (rb_tail b) ((rb_buf b)[rb_tail b := v])) = drop (rb_head b) (take (rb_tail b) (rb_buf b))"
    by simp
  then show "rb_contents (b\<lparr>rb_buf := (rb_buf b)[rb_tail b := v]\<rparr>) = rb_contents b"
    using assms by (simp add: rb_contents_def rb_wf_def take_drop)
qed (use assms in \<open>simp add: rb_wf_def\<close>)

lemma handle_serves:
  assumes "skt_wf k" "length xs \<le> recv_space (skt_buf k)"
  shows "\<exists>k1. debug_skt_handle accept_ok (\<lambda>_. Recv_Data xs) k =
      (let st = rb_contents (skt_buf k) @ xs in
       if length st < 8 then (None, False, k1) else (decode_request (take 8 st), st ! 0 = 4, k1)) \<and> skt_wf k1 \<and>
      rb_contents (skt_buf k1) = (let st = rb_contents (skt_buf k) @ xs in if length st < 8 then st else drop 8 st)"
proof -
  obtain b off len where e: "recv_buf_get_empty_buf (skt_buf k) = (b, off, len)" by (cases "recv_buf_get_empty_buf (skt_buf k)") auto
  have wf: "skt_conn k" "rb_wf (skt_buf k)" using assms(1) by (simp_all add: skt_wf_def)
  note g = rb_get_empty_buf [OF wf(2) e]
  have len: "0 < len" "length xs \<le> len"
    using recv_space_pos [OF wf(2)] assms by (simp_all add: skt_wf_def recv_space_def e)
  have tl: "rb_tail b + length xs \<le> RECV_BUF_LEN" using g(3,4) len by simp
  define b1 where "b1 = recv_buf_added (b\<lparr>rb_buf := buf_store (rb_buf b) (rb_tail b) xs\<rparr>) (length xs)"
  define b2 where "b2 = b1\<lparr>rb_buf := (rb_buf b1)[rb_tail b1 := 0]\<rparr>"
  have b2: "rb_wf b2" "rb_contents b2 = rb_contents (skt_buf k) @ xs"
    using rb_store [OF g(1) tl] rb_end_marker [of b1 0] g(2) by (simp_all add: b1_def b2_def)
  let ?st = "rb_contents b2" and ?k = "k\<lparr>skt_buf := b2\<rparr>"
  have h: "debug_skt_handle accept_ok (\<lambda>_. Recv_Data xs) k = skt_parse ?k"
    using wf(1) e len(1) g(3) by (simp add: debug_skt_handle_def b1_def b2_def Let_def)
  have ln: "recv_buf_len b2 = length ?st" by (rule rb_len_contents [OF b2(1)])
  show ?thesis
  proof (cases "length ?st < 8")
    case True
    then show ?thesis using h ln b2 wf(1) by (intro exI [of _ ?k]) (simp add: skt_parse_def Let_def skt_wf_def RECV_BUF_LEN_def)
  next
    case False
    let ?k1 = "?k\<lparr>skt_buf := recv_buf_take b2 8\<rparr>"
    have "take 8 (drop (rb_head b2) (rb_buf b2)) = take 8 ?st" using False by (auto simp: rb_contents_def)
    moreover have "take 8 ?st ! 0 = ?st ! 0" by simp
    ultimately have "skt_parse ?k = (decode_request (take 8 ?st), ?st ! 0 = 4, ?k1)" using False ln by (simp add: skt_parse_def Let_def)
    moreover have "skt_wf ?k1"
      using False ln b2(1) wf(1) rb_take_wf [OF b2(1), of 8] rb_take_contents [OF b2(1), of 8]
      by (auto simp: skt_wf_def rb_wf_def rb_contents_def)
    ultimately show ?thesis using False h b2(2) rb_take_contents [OF b2(1), of 8] by (intro exI [of _ ?k1]) (simp add: Let_def)
  qed
qed

text \<open>
  C10: The debug socket refines a stream of 8-byte messages. However the bytes are cut into pieces, the calls of
  \<open>debug_skt_handle\<close> answer the messages in the order they were sent, at most one per arrival, skipping none and
  cutting none, and what the buffer holds at the end is what has not been answered; the buffer never fills up.
\<close>

theorem skt_requests_in_order:
  assumes "skt_wf k" "fits xss k"
  shows "\<exists>k'. skt_run xss k = (fst (serve (rb_contents (skt_buf k)) xss), k') \<and>
    rb_contents (skt_buf k') = snd (serve (rb_contents (skt_buf k)) xss) \<and> skt_wf k'"
  using assms
proof (induction xss arbitrary: k)
  case (Cons xs xss)
  from handle_serves [OF Cons.prems(1), of xs False] Cons.prems(2) obtain k1 where
    k1: "debug_skt_handle False (\<lambda>_. Recv_Data xs) k =
      (let st = rb_contents (skt_buf k) @ xs in
       if length st < 8 then (None, False, k1) else (decode_request (take 8 st), st ! 0 = 4, k1))" "skt_wf k1"
      "rb_contents (skt_buf k1) = (let st = rb_contents (skt_buf k) @ xs in if length st < 8 then st else drop 8 st)" by auto
  moreover have "fits xss k1" using Cons.prems(2) k1(1) by (auto simp: Let_def split: if_splits)
  ultimately show ?case using Cons.IH [of k1] by (auto simp: Let_def split: prod.split if_splits)
qed simp

definition skt_demo :: debug_skt where
  "skt_demo = \<lparr>skt_listener = True, skt_conn = True, skt_buf = \<lparr>rb_head = 0, rb_tail = 0, rb_buf = replicate 1025 0\<rparr>\<rparr>"

theorem skt_requests_in_order_witness:
  "fst (skt_run [[2, 1, 0x12], [0x34, 0, 0, 0, 5, 3, 0], [0, 0, 0, 0, 0, 0, 1]] skt_demo) =
     [(None, False), (Some \<lparr>req_cmd = DBG_CMD_INSERT, req_instr = 0x1234, req_data = 5, req_data_en = 1\<rparr>, False),
      (Some \<lparr>req_cmd = DBG_CMD_CONTINUE, req_instr = 0, req_data = 0, req_data_en = 0\<rparr>, False)]"
proof -
  have w: "skt_wf skt_demo" by (simp add: skt_wf_def skt_demo_def rb_wf_def rb_contents_def RECV_BUF_LEN_def)
  have f: "fits [[2, 1, 0x12], [0x34, 0, 0, 0, 5, 3, 0], [0, 0, 0, 0, 0, 0, 1]] skt_demo" by code_simp
  have "rb_contents (skt_buf skt_demo) = []" by (simp add: skt_demo_def rb_contents_def)
  then show ?thesis using skt_requests_in_order [OF w f] by (auto simp: decode_request_def cmd_of_byte_def be_join_def)
qed

end
