(* ===== verification/Cpu_Debug.thy ===== *)
theory Cpu_Debug
  imports Cpu_Devs Debug_Skt
begin

text \<open>
  The debugger of the CPU test bench (src/sim/cpu_ctb.c): keys on the terminal and requests on the debug
  socket queue commands at the debug port, and the callbacks of the commands run debug plans or send
  replies. Command 0 is \<open>user_cmd\<close>, command 1 is the \<open>cmd\<close> of \<open>skt_cmd\<close>. What \<open>send\<close> answers is part of the
  state (\<open>skt_sends\<close>), since replies are sent from callbacks; a \<open>send\<close> that blocks sets \<open>stuck\<close>.
\<close>

section \<open>State\<close>

datatype dbg_state =
    DBG_STATE_RUN | DBG_STATE_STEP | DBG_STATE_PAUSE | DBG_STATE_DUMP | DBG_STATE_STORE | DBG_STATE_READ_MEM | DBG_STATE_WRITE_MEM

record cpu_debug = cpu_bench +
  dstate :: dbg_state
  dplan :: debug_plan
  dregs :: "u32 list"
  dvals :: "u32 list"
  skt :: debug_skt
  skt_sends :: "nat option list"
  skt_sent :: "u8 list"

type_synonym dsim = "cpu_debug"

definition user_cmd :: nat where "user_cmd = 0"
definition skt_cmd :: nat where "skt_cmd = 1"

definition debug_signals_cpu :: debug_signals where
  "debug_signals_cpu =
     \<lparr>dg_en = SIG_debug_i_en, dg_cmd = SIG_debug_i_en + 1, dg_din = SIG_debug_i_en + 2, dg_din_en = SIG_debug_i_en + 3,
      dg_ir = SIG_debug_i_en + 4, dg_ack = SIG_debug_o_ack, dg_rdy = SIG_debug_o_ack + 2, dg_dout = SIG_debug_o_ack + 1\<rparr>"

definition evt_ack_hook :: nat where "evt_ack_hook = 16"

definition cpu_hw :: debug_hw where
  "cpu_hw =
     \<lparr>ack_hook = 17, drop_en_hook = \<lparr>dh_hook = 18, dh_scheduled = False\<rparr>, calling_cmd_done = False, is_paused = False,
      clock_period = 0, cmds = [], dbg_sig = debug_signals_cpu\<rparr>"

section \<open>Running plans\<close>

text \<open>The array that the plan's pointer refers to: the registers, or the words to be written.\<close>

definition plan_arr :: "dsim \<Rightarrow> u32 list" where
  "plan_arr s = (case dplan s of MemWrite _ \<Rightarrow> dvals s | _ \<Rightarrow> dregs s)"

definition set_plan_arr :: "u32 list \<Rightarrow> dsim \<Rightarrow> dsim" where
  "set_plan_arr arr s = (case dplan s of MemWrite _ \<Rightarrow> s\<lparr>dvals := arr\<rparr> | _ \<Rightarrow> s\<lparr>dregs := arr\<rparr>)"

text \<open>\<open>wild_write\<close> marks a plan that leaves its array.\<close>

definition plan_request :: "nat \<Rightarrow> u32 \<Rightarrow> dsim \<Rightarrow> dsim" where
  "plan_request c rep s =
     (case debug_plan_next (dplan s) (plan_arr s) rep of
        None \<Rightarrow> s\<lparr>wild_write := True\<rparr>
      | Some (r, p, arr, req) \<Rightarrow>
          (let s1 = (set_plan_arr arr s)\<lparr>dplan := p\<rparr>;
               s2 = (if r = 0 then s1\<lparr>dstate := DBG_STATE_PAUSE\<rparr> else s1)
           in debug_add_request c req s2))"

definition debug_rdy :: "(nat \<Rightarrow> dsim \<Rightarrow> u32 \<times> dsim) \<Rightarrow> nat \<Rightarrow> dsim \<Rightarrow> dsim" where
  "debug_rdy get c s =
     (let s0 = upd_cmd c (\<lambda>k. k\<lparr>dc_d_en := 0\<rparr>) s in
      case dstate s0 of
        DBG_STATE_RUN \<Rightarrow> s0
      | DBG_STATE_STEP \<Rightarrow> s0
      | DBG_STATE_PAUSE \<Rightarrow> s0
      | _ \<Rightarrow> (let (rep, s1) = debug_read_data get s0 in plan_request c rep s1))"

definition debug_dump_state :: "(nat \<Rightarrow> dsim \<Rightarrow> u32 \<times> dsim) \<Rightarrow> nat \<Rightarrow> dsim \<Rightarrow> dsim" where
  "debug_dump_state get c s = debug_rdy get c (s\<lparr>dstate := DBG_STATE_DUMP, dplan := debug_plan_init_regs_read\<rparr>)"

definition debug_store_state :: "(nat \<Rightarrow> dsim \<Rightarrow> u32 \<times> dsim) \<Rightarrow> nat \<Rightarrow> dsim \<Rightarrow> dsim" where
  "debug_store_state get c s = debug_rdy get c (s\<lparr>dstate := DBG_STATE_STORE, dplan := debug_plan_init_regs_write\<rparr>)"

definition debug_read_mem :: "(nat \<Rightarrow> dsim \<Rightarrow> u32 \<times> dsim) \<Rightarrow> nat \<Rightarrow> u32 \<Rightarrow> u32 \<Rightarrow> dsim \<Rightarrow> dsim" where
  "debug_read_mem get c addr num_words s =
     (if 0 < sint num_words then
        debug_rdy get c (s\<lparr>dstate := DBG_STATE_READ_MEM, dplan := debug_plan_init_mem_read addr num_words None (dregs s ! REG_R0)\<rparr>)
      else s)"

definition debug_write_mem :: "(nat \<Rightarrow> dsim \<Rightarrow> u32 \<times> dsim) \<Rightarrow> nat \<Rightarrow> u32 \<Rightarrow> u32 list \<Rightarrow> u32 \<Rightarrow> dsim \<Rightarrow> dsim" where
  "debug_write_mem get c addr vs num_words s =
     (if 0 < sint num_words then
        debug_rdy get c (s\<lparr>dstate := DBG_STATE_WRITE_MEM, dplan := debug_plan_init_mem_write addr num_words 0 (dregs s ! REG_R0),
          dvals := vs\<rparr>)
      else s)"

section \<open>The debug socket\<close>

definition debug_skt_cmd_done :: "(nat \<Rightarrow> dsim \<Rightarrow> u32 \<times> dsim) \<Rightarrow> dsim \<Rightarrow> dsim" where
  "debug_skt_cmd_done get s =
     (let (v, s1) = debug_read_data get s in
      case debug_skt_reply v (skt_sends s1) (skt s1) of
        None \<Rightarrow> s1\<lparr>stuck := True\<rparr>
      | Some (sent, rest, k) \<Rightarrow> s1\<lparr>skt := k, skt_sends := rest, skt_sent := skt_sent s1 @ sent\<rparr>)"

definition process_debug_skt :: "bool \<Rightarrow> (nat \<Rightarrow> recv_result) \<Rightarrow> nat \<Rightarrow> dsim \<Rightarrow> dsim" where
  "process_debug_skt accept_ok recv c s =
     (if c \<in> set (cmds (hw s)) then s
      else
        (let (req, notify, k) = debug_skt_handle accept_ok recv (skt s);
             s1 = s\<lparr>skt := k\<rparr>;
             s2 = (case req of None \<Rightarrow> s1 | Some r \<Rightarrow> debug_add_request c r s1)
         in if notify \<and> is_paused (hw s2) then
              (case debug_skt_notify_paused 0 (skt_sends s2) (skt s2) of
                 None \<Rightarrow> s2\<lparr>stuck := True\<rparr>
               | Some (sent, rest, k2) \<Rightarrow> s2\<lparr>skt := k2, skt_sends := rest, skt_sent := skt_sent s2 @ sent\<rparr>)
            else s2))"

section \<open>Callbacks\<close>

text \<open>Inside a callback, \<open>sim_geti\<close> only looks at the signal table.\<close>

definition geti_cb :: "nat \<Rightarrow> dsim \<Rightarrow> u32 \<times> dsim" where
  "geti_cb i s = (geti i s, s)"

definition cpu_on_done :: "nat \<Rightarrow> (dsim \<Rightarrow> dsim) option" where
  "cpu_on_done c =
     (if c = user_cmd then Some (debug_rdy geti_cb c) else if c = skt_cmd then Some (debug_skt_cmd_done geti_cb) else None)"

definition cpu_other :: "cpu_cb \<Rightarrow> nat \<Rightarrow> dsim \<Rightarrow> int \<times> dsim" where
  "cpu_other c h s =
     (case c of
        Evt_Ack_Cb \<Rightarrow> evt_ack_cb s
      | Debug_Ack_Cb \<Rightarrow> ack_hook_cb cpu_on_done s
      | Debug_Drop_Cb \<Rightarrow> drop_en_cb s)"

definition cpu_client :: "u32 \<Rightarrow> cpu_cb bench_cb \<Rightarrow> nat \<Rightarrow> dsim \<Rightarrow> int \<times> dsim" where
  "cpu_client ram_start = bus_call cpu_read (cpu_write ram_start) cpu_other"

section \<open>Keys\<close>

definition key_vals :: "u32 list" where
  "key_vals = [0x42, 0x1234, 0xABCD, 0xEF000, 0x88000, 0x22020]"

text \<open>A key while the program is paused.\<close>

definition pause_key :: "(nat \<Rightarrow> dsim \<Rightarrow> u32 \<times> dsim) \<Rightarrow> char \<Rightarrow> dsim \<Rightarrow> dsim" where
  "pause_key get ch s =
     (if ch = CHR ''c'' then (debug_continue user_cmd s)\<lparr>dstate := DBG_STATE_RUN\<rparr>
      else if ch = CHR ''s'' then (debug_step user_cmd s)\<lparr>dstate := DBG_STATE_STEP\<rparr>
      else if ch = CHR ''d'' then debug_dump_state get user_cmd s
      else if ch = CHR ''D'' then debug_store_state get user_cmd s
      else if ch = CHR ''r'' then debug_read_mem get user_cmd 0 10 s
      else if ch = CHR ''w'' then debug_write_mem get user_cmd 0x10000000 key_vals 6 s
      else if ch = CHR ''i'' then debug_insert user_cmd 0x0009 s
      else s)"

definition process_key :: "(nat \<Rightarrow> dsim \<Rightarrow> u32 \<times> dsim) \<Rightarrow> char \<Rightarrow> dsim \<Rightarrow> dsim" where
  "process_key get ch s =
     (if user_cmd \<in> set (cmds (hw s)) then s
      else if ch = CHR ''b'' \<and> dstate s = DBG_STATE_RUN then (debug_break user_cmd s)\<lparr>dstate := DBG_STATE_PAUSE\<rparr>
      else if ch = CHR ''B'' \<and> dstate s = DBG_STATE_RUN then trigger_event 4 0x4000 s
      else if ch = CHR ''R'' \<and> dstate s = DBG_STATE_RUN then trigger_event 4 0x5002 s
      else if ch = CHR ''I'' \<and> dstate s = DBG_STATE_RUN then trigger_event 4 0x0000 s
      else if ch = CHR ''N'' \<and> dstate s = DBG_STATE_RUN then trigger_event 4 0x1010 s
      else if dstate s = DBG_STATE_PAUSE then pause_key get ch s
      else s)"

end
