(* ===== verification/Cpu_Bench.thy ===== *)
theory Cpu_Bench
  imports Cpu_Debug
begin

text \<open>
  The CPU test bench put together (main of src/sim/cpu_ctb.c): the instructions for the bench in the image
  file, the ranges on the buses, the start of the bench and one turn of its loop.
\<close>

section \<open>Instructions for the bench in the image\<close>

definition SIM_INSTR_MAGIC :: u32 where "SIM_INSTR_MAGIC = 0x3321AACC"
definition CMD_BAD_INSTR :: u32 where "CMD_BAD_INSTR = 1"
definition CMD_ENABLE_EVENT_TRIGGER :: u32 where "CMD_ENABLE_EVENT_TRIGGER = 2"
definition CMD_ENABLE_TEST_RESULT :: u32 where "CMD_ENABLE_TEST_RESULT = 3"
definition CMD_ENABLE_DUMP_STACK :: u32 where "CMD_ENABLE_DUMP_STACK = 4"

datatype sim_act = Enable_Event_Trigger | Enable_Test_Result | Enable_Dump_Stack

text \<open>Words in network order; \<open>None\<close> is a read outside the image.\<close>

definition word_at :: "u8 list \<Rightarrow> nat \<Rightarrow> u32 option" where
  "word_at bs i = mmap_read_at bs (4 * i) 4"

definition enable :: "sim_act \<Rightarrow> sim_act list \<Rightarrow> sim_act list" where
  "enable a acts = (if a \<in> set acts then acts else acts @ [a])"

definition act_of :: "u32 \<Rightarrow> sim_act list \<Rightarrow> sim_act list" where
  "act_of v acts =
     (if v = CMD_ENABLE_EVENT_TRIGGER then enable Enable_Event_Trigger acts
      else if v = CMD_ENABLE_TEST_RESULT then enable Enable_Test_Result acts
      else if v = CMD_ENABLE_DUMP_STACK then enable Enable_Dump_Stack acts
      else acts)"

function instr_loop :: "u8 list \<Rightarrow> nat \<Rightarrow> nat \<Rightarrow> sim_act list \<Rightarrow> sim_act list option" where
  "instr_loop bs num i acts =
     (if i < num then
        (case word_at bs (68 + i) of None \<Rightarrow> None
         | Some v \<Rightarrow>
             if v = CMD_BAD_INSTR then
               (if i + 1 = num then Some acts
                else case word_at bs (68 + i + 1) of None \<Rightarrow> None | Some _ \<Rightarrow> instr_loop bs num (i + 2) acts)
             else instr_loop bs num (i + 1) (act_of v acts))
      else Some acts)"
  by auto
termination by (relation "measure (\<lambda>(bs, num, i, acts). num - i)") auto

declare instr_loop.simps [simp del]

text \<open>The addresses where a test succeeds and fails, and what the image enables. The result of the C function is always -1.\<close>

definition parse_sim_instructions :: "u8 list \<Rightarrow> ((u32 \<times> u32) option \<times> sim_act list) option" where
  "parse_sim_instructions bs =
     (if length bs < 64 * 4 + 8 then Some (None, [])
      else case word_at bs 64 of None \<Rightarrow> None
      | Some v \<Rightarrow>
          if v \<noteq> SIM_INSTR_MAGIC then Some (None, [])
          else case word_at bs 65 of None \<Rightarrow> None
          | Some e \<Rightarrow>
              (let num_vals = e div 4 - 66 in
               if length bs < unat (64 * 4 + 8 + num_vals * 4) then Some (None, [])
               else if num_vals < 2 then Some (None, [])
               else case word_at bs 66 of None \<Rightarrow> None
               | Some succ_addr \<Rightarrow>
                   (case word_at bs 67 of None \<Rightarrow> None
                    | Some fail_addr \<Rightarrow>
                        map_option (Pair (Some (succ_addr, fail_addr))) (instr_loop bs (unat (num_vals - 2)) 0 []))))"

section \<open>Ranges\<close>

definition EVENT_TRIGGER_ADDRESS :: u32 where "EVENT_TRIGGER_ADDRESS = 0xBCDE0000"
definition TEST_RESULT_ADDRESS :: u32 where "TEST_RESULT_ADDRESS = 0xBCDE0010"
definition DUMP_STACK_ADDRESS :: u32 where "DUMP_STACK_ADDRESS = 0xBCDE0020"
definition PIO_ADDR :: u32 where "PIO_ADDR = 0xABCD0000"

definition write_range :: "nat \<Rightarrow> u32 \<Rightarrow> u32 \<Rightarrow> dev_fn \<Rightarrow> dev_fn mem_range" where
  "write_range k a len f = \<lparr>rg_id = k, rg_start = a, rg_end = a + len, rg_read_fn = None, rg_write_fn = Some f\<rparr>"

definition evt_trigger_range :: "dev_fn mem_range" where "evt_trigger_range = write_range 0 EVENT_TRIGGER_ADDRESS 4 Trigger_Event"
definition test_result_range :: "dev_fn mem_range" where "test_result_range = write_range 1 TEST_RESULT_ADDRESS 4 Test_Result"
definition dump_stack_range :: "dev_fn mem_range" where "dump_stack_range = write_range 2 DUMP_STACK_ADDRESS 4 Dump_Stack"
definition pio_range :: "dev_fn mem_range" where "pio_range = write_range 3 PIO_ADDR 1 Pio"

definition ddr_range :: "dev_fn mem_range" where
  "ddr_range = \<lparr>rg_id = 4, rg_start = 0x10000000, rg_end = 0x14000000, rg_read_fn = Some Ddr, rg_write_fn = Some Ddr\<rparr>"

definition mem_bus_map :: "u32 \<Rightarrow> dev_fn mem_range" where
  "mem_bus_map st_size = \<lparr>rg_id = 5, rg_start = 0, rg_end = st_size, rg_read_fn = Some Mmap_Img, rg_write_fn = Some Mmap_Img\<rparr>"

definition if_bus_map :: "u32 \<Rightarrow> dev_fn mem_range" where
  "if_bus_map st_size = \<lparr>rg_id = 6, rg_start = 0, rg_end = st_size, rg_read_fn = Some Instr_Img, rg_write_fn = None\<rparr>"

definition mem_bus_stack_map :: "u32 \<Rightarrow> dev_fn mem_range" where
  "mem_bus_stack_map st_size = \<lparr>rg_id = 7, rg_start = st_size, rg_end = 0x1000000, rg_read_fn = Some Mmap_Ram, rg_write_fn = Some Mmap_Ram\<rparr>"

definition if_bus_stack_map :: "u32 \<Rightarrow> dev_fn mem_range" where
  "if_bus_stack_map st_size = \<lparr>rg_id = 8, rg_start = st_size, rg_end = 0x1000000, rg_read_fn = Some Instr_Ram, rg_write_fn = None\<rparr>"

section \<open>Start of the bench\<close>

definition do_act :: "sim_act \<Rightarrow> dsim \<Rightarrow> dsim" where
  "do_act a s =
     (case a of
        Enable_Event_Trigger \<Rightarrow>
          sim_hook_add evt_ack_hook
            (watch_signal evt_ack_hook True SIG_event_ack_o
              (snd (sim_hook_init evt_ack_hook (User_Cb (Other_Cb Evt_Ack_Cb)) (mem_bus_range_add 0 evt_trigger_range s))))
      | Enable_Test_Result \<Rightarrow> mem_bus_range_add 0 test_result_range s
      | Enable_Dump_Stack \<Rightarrow> mem_bus_range_add 0 dump_stack_range s)"

definition init_buses :: "dsim \<Rightarrow> dsim" where
  "init_buses s = mem_bus_init 3 (mem_bus_init 2 (mem_bus_init 1 (mem_bus_init 0 (instr_fetch_init 4 s))))"

text \<open>The ranges of main, for an image of \<open>st_size\<close> bytes.\<close>

definition add_ranges :: "u32 \<Rightarrow> dsim \<Rightarrow> dsim" where
  "add_ranges st_size s =
     (let s3 = mem_bus_range_add 4 (if_bus_map st_size) (mem_bus_range_add 0 (mem_bus_map st_size) s);
          s4 = mem_bus_range_add 4 (if_bus_stack_map st_size) (mem_bus_range_add 0 (mem_bus_stack_map st_size) s3);
          s5 = uartlite_attach 3 9 Uart0 0xABCD0100 (mem_bus_range_add 2 pio_range s4)
      in mem_bus_range_add 1 ddr_range s5)"

text \<open>
  The static variables and the steps of main between the start of the simulator and its loop, for an image
  that was mapped. \<open>None\<close>: the instructions lie outside the image.
\<close>

definition cpu_statics :: "dsim \<Rightarrow> dsim" where
  "cpu_statics s =
     s\<lparr>buses := cpu_buses, hw := cpu_hw, cmd_of := (\<lambda>c. \<lparr>dc_cmd = DBG_CMD_BREAK, dc_ir = 0, dc_d = 0, dc_d_en = 0\<rparr>),
       stuck := False, exited := None, dstate := DBG_STATE_RUN, dplan := debug_plan_init_regs_read,
       dregs := map of_nat [0..<REG_NUM_REGS], dvals := key_vals\<rparr>"

definition cpu_init :: "u8 list \<Rightarrow> u8 list \<Rightarrow> dsim \<Rightarrow> dsim option" where
  "cpu_init file uart_in s =
     (case parse_sim_instructions file of None \<Rightarrow> None
      | Some (addrs, acts) \<Rightarrow>
          (let s1 = fold do_act acts (init_buses (cpu_statics s));
               s2 = s1\<lparr>img := file, ram := replicate 0x1000000 0, uart0 := uartlite_init 0xABCD0100 uart_in\<rparr>
           in Some (debug_hw_init Debug_Drop_Cb Debug_Ack_Cb (uint CLK_PERIOD) (add_ranges (of_nat (length file)) s2))))"

section \<open>The loop of the bench\<close>

text \<open>
  What one turn of the loop gets from outside: the keys that are waiting, and what the debug socket
  would answer.
\<close>

record turn_input =
  in_keys :: string
  in_accept :: bool
  in_recv :: "nat \<Rightarrow> recv_result"

definition main_debug :: "u32 \<Rightarrow> bool \<Rightarrow> bool \<Rightarrow> turn_input \<Rightarrow> dsim \<Rightarrow> dsim" where
  "main_debug ram_start use_skt enabled inp s =
     (if picos s mod (CLK_PERIOD * 1000) = 0 then
        (if use_skt then process_debug_skt (in_accept inp) (in_recv inp) skt_cmd s
         else if enabled then fold (process_key (sim_geti (cpu_client ram_start))) (in_keys inp) s
         else s)
      else s)"

definition main_turn :: "u32 \<Rightarrow> bool \<Rightarrow> bool \<Rightarrow> turn_input \<Rightarrow> dsim \<Rightarrow> dsim option" where
  "main_turn ram_start use_skt enabled inp s =
     (let s1 = main_debug ram_start use_skt enabled inp s in
      if \<not> is_paused (hw s1) then Some (sim_wait (cpu_client ram_start) s1)
      else sim_wait_time (cpu_client ram_start) (CLK_PERIOD * 1000) True s1)"

end
