(* ===== verification/Cpu_Run.thy ===== *)
theory Cpu_Run
  imports Cpu_Bench
begin

text \<open>
  Runs of the CPU test bench: its devices, its event hook and its debugger satisfy the contracts
  \<open>timed_devices\<close> and \<open>debug_client\<close>, the start of the bench establishes their invariants, and so the
  hooks stay in order for as long as the bench runs.
\<close>

section \<open>The devices keep their contract\<close>

text \<open>The rules of the delay file ask for less than 4 ms before the acknowledge is dropped.\<close>

definition small_cfg :: "delay_set \<Rightarrow> bool" where
  "small_cfg ds \<longleftrightarrow> (\<forall>d\<in>set (delays ds). rd_drop_delay d < 0x400000 \<and> wr_drop_delay d < 0x400000)"

text \<open>The part of the state that devices leave alone.\<close>

definition bench_key :: "'m cpu_ext \<Rightarrow> delay_set \<times> debug_hw" where
  "bench_key e = (let s = bus_sim.extend undefined e in (delay_cfg s, hw s))"

lemma bench_parts:
  assumes "bus_sim.more s' = bus_sim.more (s :: 'm cpu_sim)"
  shows "delay_cfg s' = delay_cfg s \<and> hw s' = hw s"
  by (rule cpu_bench.cases_scheme [of s], rule cpu_bench.cases_scheme [of s'])
    (use assms in \<open>simp only: bus_sim.select_convs debug_bench.select_convs cpu_bench.select_convs debug_bench.ext_inject cpu_bench.ext_inject\<close>)

lemma bench_key_more [simp]: "bench_key (bus_sim.more s) = (delay_cfg s, hw s)"
proof -
  have "bus_sim.more (bus_sim.extend undefined (bus_sim.more s)) = bus_sim.more s" by (simp only: bus_sim.extend_def bus_sim.select_convs)
  from bench_parts [OF this] show ?thesis by (simp add: bench_key_def Let_def)
qed

definition cfg_ok :: "delay_set \<times> debug_hw \<Rightarrow> bool" where
  "cfg_ok k \<longleftrightarrow> small_cfg (fst k)"

lemma lookup_small: "small_cfg ds \<Longrightarrow> delays_lookup ds addr rd = Some d \<Longrightarrow> snd d < 0x400000"
proof -
  have "lookup_from l addr rd = Some d \<Longrightarrow> (\<forall>d\<in>set l. rd_drop_delay d < 0x400000 \<and> wr_drop_delay d < 0x400000) \<Longrightarrow> snd d < 0x400000" for l
    by (induction l) (auto split: if_splits)
  then show "small_cfg ds \<Longrightarrow> delays_lookup ds addr rd = Some d \<Longrightarrow> snd d < 0x400000"
    by (simp add: small_cfg_def delays_lookup_def)
qed

lemma lookup_delays_small: "small_cfg (delay_cfg s) \<Longrightarrow> snd d < 0x400000 \<Longrightarrow> snd (lookup_delays addr rd d s) < 0x400000"
  by (auto simp: lookup_delays_def lookup_small split: option.split)

lemma cpu_quiet_updates [simp]:
  "quiet bench_key s s" "quiet bench_key s (s\<lparr>wild_write := w\<rparr>)" "quiet bench_key s (s\<lparr>img := i\<rparr>)" "quiet bench_key s (s\<lparr>ram := i\<rparr>)"
  "quiet bench_key s (s\<lparr>uart0 := u\<rparr>)" "quiet bench_key s (s\<lparr>stuck := b\<rparr>)" "quiet bench_key s (s\<lparr>exited := x\<rparr>)"
  by (simp_all add: quiet_def)

lemma quiet_seti2 [simp]: "quiet bench_key s (seti i v (seti j w s))"
  by (rule quiet_trans [OF quiet_set(1) quiet_set(1)])

lemma cpu_input_updates [simp]:
  "same_input t (s\<lparr>img := i\<rparr>) = same_input t s" "same_input t (s\<lparr>ram := i\<rparr>) = same_input t s"
  "same_input t (s\<lparr>uart0 := u\<rparr>) = same_input t s" "same_input t (s\<lparr>stuck := b\<rparr>) = same_input t s" "same_input t (s\<lparr>exited := x\<rparr>) = same_input t s"
  by (simp_all add: same_input_def)

lemma cpu_read_quiet:
  assumes "cpu_read f b rg addr n d s = (res, v, d', s')"
  shows "quiet bench_key s s'" "small_cfg (delay_cfg s) \<Longrightarrow> snd d < 0x400000 \<Longrightarrow> snd d' < 0x400000" "same_input s s'"
  using assms
  by (auto simp: cpu_read_def mmap_read_def mmap_instr_read_def ddr_read_def uart0_read_def lookup_delays_small
      split: dev_fn.splits option.splits prod.splits)

lemma cpu_write_quiet:
  assumes "cpu_write ram_start f b rg addr n v d s = (res, d', s')"
  shows "quiet bench_key s s'" "small_cfg (delay_cfg s) \<Longrightarrow> snd d < 0x400000 \<Longrightarrow> snd d' < 0x400000" "same_input s s'"
  using assms
  by (auto simp: cpu_write_def mmap_write_def trigger_event_def test_result_def dump_stack_def pio_write_def ddr_write_def
      uart0_write_def lookup_delays_small Let_def split: dev_fn.splits prod.splits if_splits)

section \<open>The debugger\<close>

definition dbg_cfg_ok :: "unit cpu_debug_ext cpu_bench_ext \<Rightarrow> bool" where
  "dbg_cfg_ok e \<longleftrightarrow> small_cfg (delay_cfg (debug_bench.extend undefined e))"

lemma debug_parts:
  assumes "debug_bench.more s' = debug_bench.more (s :: 'm cpu_sim)"
  shows "delay_cfg s' = delay_cfg s"
  by (rule cpu_bench.cases_scheme [of s], rule cpu_bench.cases_scheme [of s'])
    (use assms in \<open>simp only: debug_bench.select_convs cpu_bench.select_convs cpu_bench.ext_inject\<close>)

lemma dbg_cfg_more [simp]: "dbg_cfg_ok (debug_bench.more s) = small_cfg (delay_cfg s)"
proof -
  have "debug_bench.more (debug_bench.extend undefined (debug_bench.more s)) = debug_bench.more s"
    by (simp only: debug_bench.extend_def debug_bench.select_convs)
  from debug_parts [OF this] show ?thesis by (simp add: dbg_cfg_ok_def)
qed

lemma add_request_calling:
  assumes "calling_cmd_done (hw s)"
  shows "framed s (debug_add_request c req s)" "debug_bench.more (debug_add_request c req s) = debug_bench.more s"
    "hw (debug_add_request c req s) = (hw s)\<lparr>cmds := cmds (hw s) @ [c]\<rparr>"
  using assms by (auto simp: debug_add_request_def debug_add_cmd_def Let_def framed_def upd_hw_def upd_cmd_def dl_append_def)

lemma framed_cpu [simp]:
  "framed s (t\<lparr>wild_write := w\<rparr>) = framed s t" "framed s (t\<lparr>dplan := p\<rparr>) = framed s t" "framed s (t\<lparr>dstate := d\<rparr>) = framed s t"
  "framed s (t\<lparr>dregs := x\<rparr>) = framed s t" "framed s (t\<lparr>dvals := x\<rparr>) = framed s t" "framed s (t\<lparr>stuck := b\<rparr>) = framed s t"
  "framed s (t\<lparr>skt := k, skt_sends := l, skt_sent := m\<rparr>) = framed s t" "framed s (t\<lparr>skt := k\<rparr>) = framed s t"
  by (simp_all add: framed_def)

lemma set_plan_arr_simps [simp]:
  "framed s (set_plan_arr a t) = framed s t" "delay_cfg (set_plan_arr a t) = delay_cfg t" "hw (set_plan_arr a t) = hw t"
  by (auto simp: set_plan_arr_def split: debug_plan.split)

lemma plan_request_calling:
  assumes "calling_cmd_done (hw s)"
  shows "framed s (plan_request c rep s)" "delay_cfg (plan_request c rep s) = delay_cfg s"
    "hw (plan_request c rep s) = hw s \<or> hw (plan_request c rep s) = (hw s)\<lparr>cmds := cmds (hw s) @ [c]\<rparr>"
proof -
  consider "debug_plan_next (dplan s) (plan_arr s) rep = None"
    | r p arr req where "debug_plan_next (dplan s) (plan_arr s) rep = Some (r, p, arr, req)"
    by (cases "debug_plan_next (dplan s) (plan_arr s) rep") auto
  then have "framed s (plan_request c rep s) \<and> delay_cfg (plan_request c rep s) = delay_cfg s \<and>
    (hw (plan_request c rep s) = hw s \<or> hw (plan_request c rep s) = (hw s)\<lparr>cmds := cmds (hw s) @ [c]\<rparr>)"
  proof cases
    case 2
    let ?s1 = "(set_plan_arr arr s)\<lparr>dplan := p\<rparr>"
    let ?s2 = "if r = 0 then ?s1\<lparr>dstate := DBG_STATE_PAUSE\<rparr> else ?s1"
    have f: "framed s ?s2" "delay_cfg ?s2 = delay_cfg s" "hw ?s2 = hw s" by simp_all
    then have c: "calling_cmd_done (hw ?s2)" using assms by simp
    show ?thesis
      using 2 f framed_trans [OF f(1) add_request_calling(1) [OF c]] add_request_calling(3) [OF c]
        debug_parts [OF add_request_calling(2) [OF c]]
      by (simp add: plan_request_def Let_def)
  qed (simp add: plan_request_def)
  then show "framed s (plan_request c rep s)" "delay_cfg (plan_request c rep s) = delay_cfg s"
    "hw (plan_request c rep s) = hw s \<or> hw (plan_request c rep s) = (hw s)\<lparr>cmds := cmds (hw s) @ [c]\<rparr>" by blast+
qed

lemma debug_rdy_calling:
  assumes "calling_cmd_done (hw s)"
  shows "framed s (debug_rdy geti_cb c s)" "delay_cfg (debug_rdy geti_cb c s) = delay_cfg s"
    "hw (debug_rdy geti_cb c s) = hw s \<or> hw (debug_rdy geti_cb c s) = (hw s)\<lparr>cmds := cmds (hw s) @ [c]\<rparr>"
proof -
  let ?s0 = "upd_cmd c (\<lambda>k. k\<lparr>dc_d_en := 0\<rparr>) s"
  have f: "framed s ?s0" "delay_cfg ?s0 = delay_cfg s" "hw ?s0 = hw s" by (simp_all add: upd_cmd_def framed_def)
  then have c: "calling_cmd_done (hw ?s0)" using assms by simp
  have p: "framed s (plan_request c rep ?s0)" for rep
    using framed_trans [OF f(1) plan_request_calling(1) [OF c]] .
  show "framed s (debug_rdy geti_cb c s)" "delay_cfg (debug_rdy geti_cb c s) = delay_cfg s"
    "hw (debug_rdy geti_cb c s) = hw s \<or> hw (debug_rdy geti_cb c s) = (hw s)\<lparr>cmds := cmds (hw s) @ [c]\<rparr>"
    using f p plan_request_calling(2,3) [OF c]
    by (simp_all add: debug_rdy_def Let_def debug_read_data_def geti_cb_def split: dbg_state.split)
qed

interpretation cpu_port: debug_client cpu_on_done dbg_cfg_ok
proof
  fix c f and s :: dsim
  assume d: "cpu_on_done c = Some f" "calling_hooks s" "calling_cmd_done (hw s)" "dbg_cfg_ok (debug_bench.more s)"
  consider "f = debug_rdy geti_cb c" | "f = debug_skt_cmd_done geti_cb" using d(1) by (auto simp: cpu_on_done_def split: if_splits)
  then show "framed s (f s) \<and> dbg_cfg_ok (debug_bench.more (f s)) \<and> (hw (f s) = hw s \<or> hw (f s) = (hw s)\<lparr>cmds := cmds (hw s) @ [c]\<rparr>)"
  proof cases
    case 1
    then show ?thesis using debug_rdy_calling [OF d(3), of c] d(4) by simp
  next
    case 2
    then show ?thesis
      using d(4) by (auto simp: debug_skt_cmd_done_def debug_read_data_def geti_cb_def split: option.split prod.split)
  qed
qed

section \<open>The hooks of the bench\<close>

text \<open>
  Hooks 1 to 15 belong to the five buses, 16 is \<open>evt_ack_hook\<close>, 17 and 18 are those of the debug port;
  \<open>U\<close> holds the debug commands that may be queued.
\<close>

definition cpu_hooks :: "nat set \<Rightarrow> nat set \<Rightarrow> dsim \<Rightarrow> bool" where
  "cpu_hooks U L s \<longleftrightarrow> port_ok 17 18 U L (hw s) \<and> (\<forall>h\<in>L. h \<le> 18) \<and>
     hk_cb (hook_of s 17) = User_Cb (Other_Cb Debug_Ack_Cb) \<and> hk_cb (hook_of s 18) = User_Cb (Other_Cb Debug_Drop_Cb) \<and>
     (16 \<in> L \<longrightarrow> hk_cb (hook_of s 16) = User_Cb (Other_Cb Evt_Ack_Cb))"

lemma evt_ack_framed: "framed s (snd (evt_ack_cb s))" "hw (snd (evt_ack_cb s)) = hw s" "delay_cfg (snd (evt_ack_cb s)) = delay_cfg s"
  by (simp_all add: evt_ack_cb_def framed_def seti_def sim_seti_def Let_def sim_write_pty_def)

lemma foreign_callbacks: "foreign_step nb h new s s' \<Longrightarrow> hk_cb (hook_of s' k) = hk_cb (hook_of s k)"
  by (simp add: foreign_step_def)

lemma cpu_other_step:
  assumes "cpu_hooks U L s" "small_cfg (delay_cfg s)" "h \<in> L" "15 < h" "calling_hooks s" "picos s < 2 ^ 63"
    "hk_cb (hook_of s h) = User_Cb (Other_Cb x)" "cpu_other x h s = (res, s')"
  shows "\<exists>new. foreign_step 5 h new s s' \<and> set new \<inter> L = {} \<and> small_cfg (delay_cfg s') \<and>
    cpu_hooks U (if res \<noteq> 0 then L \<union> set new - {h} else L \<union> set new) s'"
proof -
  have p: "port_ok 17 18 U L (hw s)" using assms(1) by (simp add: cpu_hooks_def)
  consider "h = 16" "x = Evt_Ack_Cb" | "h = 17" "x = Debug_Ack_Cb" | "h = 18" "x = Debug_Drop_Cb"
  proof -
    have "h \<le> 18" using assms(1,3) by (simp add: cpu_hooks_def)
    then have "h = 16 \<or> h = 17 \<or> h = 18" using assms(4) by linarith
    then show ?thesis using that assms(1,3,7) by (auto simp: cpu_hooks_def)
  qed
  then show ?thesis
  proof cases
    case 1
    then have "s' = snd (evt_ack_cb s)" "res = 0" using assms(8) by (auto simp: cpu_other_def evt_ack_cb_def)
    then show ?thesis
      using foreign_framed [OF evt_ack_framed(1) [of s], of 5 h] evt_ack_framed [of s] assms(1,2)
      by (intro exI [of _ "[]"]) (auto simp: cpu_hooks_def framed_def)
  next
    case 2
    then have "ack_hook_cb cpu_on_done s = (res, s')" using assms(8) by (simp add: cpu_other_def)
    from cpu_port.ack_step [OF p _ _ assms(5,6) _ this, of 5] obtain new where
      n: "foreign_step 5 17 new s s'" "set new \<inter> L = {}" "set new \<subseteq> {18}" "small_cfg (delay_cfg s')"
        "port_ok 17 18 U (if res \<noteq> 0 then L \<union> set new - {17} else L \<union> set new) (hw s')"
      using assms(2,3) 2(1) by auto
    let ?L = "if res \<noteq> 0 then L \<union> set new - {17} else L \<union> set new"
    have "\<forall>h\<in>?L. h \<le> 18" "16 \<in> ?L \<longrightarrow> 16 \<in> L" using assms(1) n(3) by (auto simp: cpu_hooks_def split: if_splits)
    then have "cpu_hooks U ?L s'" using assms(1) n(5) unfolding cpu_hooks_def foreign_callbacks [OF n(1)] by blast
    then show ?thesis using 2(1) n(1,2,4) by blast
  next
    case 3
    then have "drop_en_cb s = (res, s')" using assms(8) by (simp add: cpu_other_def)
    note d = drop_en_step [OF p _ this]
    have "foreign_step 5 h [] s s'" using d(2) 3(1) assms(3) by (intro foreign_framed) simp
    moreover have "delay_cfg s' = delay_cfg s" using d(3) 3(1) assms(3) by (intro debug_parts) simp
    ultimately show ?thesis
      using 3(1) assms(1-3) d by (intro exI [of _ "[]"]) (auto simp: cpu_hooks_def foreign_callbacks)
  qed
qed

lemma same_input_hw [simp]:
  "same_input s (upd_hw f t) = same_input s t" "same_input s (upd_cmd c g t) = same_input s t" "same_input s (set_scheduled b t) = same_input s t"
  by (auto simp: same_input_def upd_hw_def upd_cmd_def set_scheduled_def)

lemma same_input_port [simp]:
  "same_input s (drive_cmd k t) = same_input s t" "same_input s (unschedule t) = same_input s t" "same_input s (schedule_delay d t) = same_input s t"
  by (simp_all add: drive_cmd_def unschedule_def schedule_delay_def schedule_def Let_def)

lemma same_input_next [simp]: "same_input s (snd (next_cmd t)) = same_input s t" "same_input s (snd (ack_again t)) = same_input s t"
  by (auto simp: next_cmd_def ack_again_def Let_def split: list.split)

lemma next_cmd_input: "next_cmd t = (r, u) \<Longrightarrow> same_input s u = same_input s t" and ack_again_input: "ack_again t = (i, u) \<Longrightarrow> same_input s u = same_input s t"
  by (metis same_input_next snd_conv)+

lemma same_input_add [simp]: "same_input s (debug_add_cmd c t) = same_input s t" "same_input s (debug_add_request c req t) = same_input s t"
proof -
  have "same_input s (debug_add_cmd c u) = same_input s u" for u
    by (auto simp: debug_add_cmd_def Let_def next_cmd_input split: prod.split)
  then show "same_input s (debug_add_cmd c t) = same_input s t" "same_input s (debug_add_request c req t) = same_input s t"
    by (simp_all add: debug_add_request_def)
qed

lemma same_input_debug [simp]:
  "same_input s (t\<lparr>dplan := p\<rparr>) = same_input s t" "same_input s (t\<lparr>dstate := d\<rparr>) = same_input s t" "same_input s (t\<lparr>dregs := x\<rparr>) = same_input s t"
  "same_input s (t\<lparr>dvals := x\<rparr>) = same_input s t" "same_input s (t\<lparr>skt := k\<rparr>) = same_input s t"
  "same_input s (t\<lparr>skt := k, skt_sends := l, skt_sent := m\<rparr>) = same_input s t"
  by (simp_all add: same_input_def)

lemma same_input_plan [simp]: "same_input s (plan_request c rep t) = same_input s t"
  by (auto simp: plan_request_def set_plan_arr_def Let_def split: option.split prod.split debug_plan.split)

lemma cpu_on_done_input: "cpu_on_done c = Some f \<Longrightarrow> same_input s (f t) = same_input s t"
  by (auto simp: cpu_on_done_def debug_rdy_def debug_skt_cmd_done_def debug_read_data_def geti_cb_def Let_def
      split: if_splits dbg_state.splits option.splits prod.splits)

lemma ack_hook_cb_input: "ack_hook_cb cpu_on_done s = (res, s') \<Longrightarrow> same_input s s'"
proof -
  assume a: "ack_hook_cb cpu_on_done s = (res, s')"
  have step: "same_input s u" if "(let (driven, s3) = next_cmd t in if driven then ack_again s3 else (- 1, s3)) = (r, u)" "same_input s t" for r t u
    using that by (auto simp: next_cmd_input ack_again_input split: prod.splits if_splits)
  show ?thesis
  proof (cases "geti (dg_ack (dbg_sig (hw s))) s \<noteq> 0")
    case True
    show ?thesis
    proof (cases "cmds (hw s)")
      case (Cons c cs)
      show ?thesis using a True Cons by (auto simp: ack_hook_cb_def Let_def cpu_on_done_input split: option.splits intro: step [unfolded Let_def])
    qed (use a True in \<open>auto simp: ack_hook_cb_def\<close>)
  qed (use a in \<open>auto simp: ack_hook_cb_def ack_again_input\<close>)
qed

lemma cpu_other_input: "cpu_other x h s = (res, s') \<Longrightarrow> same_input s s'"
  by (auto simp: cpu_other_def evt_ack_cb_def drop_en_cb_def ack_hook_cb_input split: cpu_cb.splits)

interpretation cpu: timed_devices bench_key cfg_ok 5 "cpu_hooks U" cpu_read "cpu_write ram_start" cpu_other
  for U ram_start
proof
  fix f b rg addr n d d' res v and s s' :: dsim
  assume "cpu_read f b rg addr n d s = (res, v, d', s')"
  from cpu_read_quiet [OF this]
  show "quiet bench_key s s' \<and> (cfg_ok (bench_key (bus_sim.more s)) \<and> snd d < 0x400000 \<longrightarrow> snd d' < 0x400000)" "same_input s s'"
    by (auto simp: cfg_ok_def)
next
  fix f b rg addr n v d d' res and s s' :: dsim
  assume "cpu_write ram_start f b rg addr n v d s = (res, d', s')"
  from cpu_write_quiet [OF this]
  show "quiet bench_key s s' \<and> (cfg_ok (bench_key (bus_sim.more s)) \<and> snd d < 0x400000 \<longrightarrow> snd d' < 0x400000)" "same_input s s'"
    by (auto simp: cfg_ok_def)
next
  fix L h x res and s s' :: dsim
  assume "cpu_hooks U L s" "cfg_ok (bench_key (bus_sim.more s))" "h \<in> L" "3 * 5 < h" "calling_hooks s" "picos s < 2 ^ 63"
    "hk_cb (hook_of s h) = User_Cb (Other_Cb x)" "cpu_other x h s = (res, s')"
  then show "\<exists>new. foreign_step 5 h new s s' \<and> set new \<inter> L = {} \<and> cfg_ok (bench_key (bus_sim.more s')) \<and>
      cpu_hooks U (if res \<noteq> 0 then L \<union> set new - {h} else L \<union> set new) s'"
    using cpu_other_step [of U L s h x res s'] by (simp add: cfg_ok_def)
next
  fix L h and s :: dsim
  assume "cpu_hooks U L s" "h \<in> L" "3 * 5 < h"
  moreover from this have "h = 16 \<or> h = 17 \<or> h = 18" unfolding cpu_hooks_def by fastforce
  ultimately show "\<exists>x. hk_cb (hook_of s h) = User_Cb (Other_Cb x)" by (auto simp: cpu_hooks_def)
next
  fix L L' and s s' :: dsim
  assume h: "cpu_hooks U L s" "\<And>h. 3 * 5 < h \<Longrightarrow> hk_cb (hook_of s' h) = hk_cb (hook_of s h)" "\<And>h. 3 * 5 < h \<Longrightarrow> (h \<in> L') = (h \<in> L)"
    "bench_key (bus_sim.more s') = bench_key (bus_sim.more s)"
  have "k \<le> 18" if "k \<in> L'" for k
  proof (cases "15 < k")
    case True
    then have "k \<in> L" using h(3) [of k] that by simp
    then show ?thesis using h(1) by (simp add: cpu_hooks_def)
  qed simp
  then show "cpu_hooks U L' s'"
    using h(1,4) h(2,3) [of 16] h(2,3) [of 17] h(2,3) [of 18] by (auto simp: cpu_hooks_def port_ok_def)
next
  fix x h res and s s' :: dsim
  assume "cpu_other x h s = (res, s')"
  then show "same_input s s'" by (rule cpu_other_input)
qed

section \<open>The debugger from outside the callbacks\<close>

lemma run_ok_parts:
  "cpu.run_ok U s \<longleftrightarrow> hook_list_ok s \<and> bus_inv bench_key cfg_ok 5 (set (hooks s)) s \<and> cpu_hooks U (set (hooks s)) s \<and>
     \<not> calling_hooks s \<and> times_ok s"
  by (auto simp: cpu.run_ok_def cpu.bench_ok_def cpu.hooks_inv_def)

lemma run_ok_queued: "cpu.run_ok U s \<longleftrightarrow> cpu.run_ok UNIV s \<and> set (cmds (hw s)) \<subseteq> U"
  by (auto simp: run_ok_parts cpu_hooks_def port_ok_def)

lemma run_ok_framed:
  assumes "cpu.run_ok U s" "framed s s'" "hw s' = hw s" "delay_cfg s' = delay_cfg s" "same_input s s'"
  shows "cpu.run_ok U s'"
proof -
  have "hook_list_ok s'" using hook_list_ok_framed [OF assms(2)] assms(1) by (simp add: run_ok_parts)
  moreover have "bus_inv bench_key cfg_ok 5 (set (hooks s')) s'"
    by (rule bus_inv_same [of _ _ _ "set (hooks s)" s]) (use assms in \<open>auto simp: run_ok_parts framed_def hook_time_def bus_inv_def\<close>)
  ultimately show ?thesis
    using assms times_ok_input [of s s'] by (auto simp: run_ok_parts cpu_hooks_def framed_def)
qed

lemma run_ok_add:
  assumes "cpu.run_ok U s" "c \<in> U" "c \<notin> set (cmds (hw s))"
  shows "cpu.run_ok U (debug_add_cmd c s)"
proof -
  have p: "hook_list_ok s" "port_ok 17 18 U (set (hooks s)) (hw s)" "\<not> calling_hooks s" "bus_inv bench_key cfg_ok 5 (set (hooks s)) s"
    "cpu_hooks U (set (hooks s)) s" "times_ok s"
    using assms(1) by (auto simp: run_ok_parts cpu_hooks_def)
  note a = add_cmd_ok [OF p(1,2) assms(2,3) p(3)]
  let ?s = "debug_add_cmd c s"
  have o: "calling_hooks ?s = calling_hooks s" "buses ?s = buses s" "immediate_hooks ?s = immediate_hooks s" "delay_cfg ?s = delay_cfg s"
    "hk_cb (hook_of ?s k) = hk_cb (hook_of s k)" "k \<noteq> 17 \<Longrightarrow> hook_time ?s k = hook_time s k"
    "k \<noteq> 17 \<Longrightarrow> k \<noteq> 18 \<Longrightarrow> k \<in> set (hooks ?s) \<longleftrightarrow> k \<in> set (hooks s)" for k
    using a(3) debug_parts [of ?s s] by (auto simp: outside_step_def)
  have "bus_inv bench_key cfg_ok 5 (set (hooks ?s)) ?s"
    by (rule bus_inv_same [OF p(4)]) (use p(4) o in \<open>simp_all add: bus_inv_def cfg_ok_def\<close>)
  moreover have "k \<le> 18" if "k \<in> set (hooks ?s)" for k
    using o(7) [of k] that p(5) by (cases "k = 17 \<or> k = 18") (auto simp: cpu_hooks_def)
  then have "cpu_hooks U (set (hooks ?s)) ?s" using p(5) a(2) o(5) o(7) [of 16] by (auto simp: cpu_hooks_def)
  moreover have "times_ok ?s" by (rule times_ok_input [OF p(6)]) simp
  ultimately show ?thesis using a(1) o(1) p(3) by (simp add: run_ok_parts)
qed

lemma cpu_seti [simp]:
  "delay_cfg (upd_cmd c g s) = delay_cfg s" "delay_cfg (seti i v s) = delay_cfg s"
  by (auto simp: upd_cmd_def seti_def sim_seti_def Let_def sim_write_pty_def)

lemma run_ok_upd_cmd: "cpu.run_ok U s \<Longrightarrow> cpu.run_ok U (upd_cmd c g s)"
  by (erule run_ok_framed) simp_all

lemma run_ok_request: "cpu.run_ok U s \<Longrightarrow> c \<in> U \<Longrightarrow> c \<notin> set (cmds (hw s)) \<Longrightarrow> cpu.run_ok U (debug_add_request c r s)"
  unfolding debug_add_request_def by (intro run_ok_add run_ok_upd_cmd) simp_all

lemma run_ok_debug_updates:
  assumes "cpu.run_ok U s"
  shows "cpu.run_ok U (s\<lparr>wild_write := w\<rparr>)" "cpu.run_ok U (s\<lparr>dplan := p\<rparr>)" "cpu.run_ok U (s\<lparr>dstate := d\<rparr>)" "cpu.run_ok U (s\<lparr>dvals := v\<rparr>)"
    "cpu.run_ok U (s\<lparr>dregs := v\<rparr>)" "cpu.run_ok U (s\<lparr>stuck := b\<rparr>)" "cpu.run_ok U (s\<lparr>skt := k\<rparr>)"
    "cpu.run_ok U (s\<lparr>skt := k, skt_sends := l, skt_sent := m\<rparr>)" "cpu.run_ok U (seti i x s)"
  by (rule run_ok_framed [OF assms]; simp)+

lemma set_plan_arr_cmds [simp]: "cmds (hw (set_plan_arr a s)) = cmds (hw s)"
  by simp

lemma run_ok_plan:
  assumes "cpu.run_ok U s" "c \<in> U" "c \<notin> set (cmds (hw s))"
  shows "cpu.run_ok U (plan_request c rep s)"
proof -
  have "cpu.run_ok U (set_plan_arr a s)" for a
    using assms(1) by (auto simp: set_plan_arr_def run_ok_debug_updates split: debug_plan.split)
  then have "cpu.run_ok U (debug_add_request c req ((set_plan_arr a s)\<lparr>dplan := p\<rparr>))"
    "cpu.run_ok U (debug_add_request c req ((set_plan_arr a s)\<lparr>dplan := p, dstate := d\<rparr>))" for a req p d
    using assms(2,3) by (intro run_ok_request run_ok_debug_updates; simp)+
  then show ?thesis using assms(1) by (auto simp: plan_request_def Let_def run_ok_debug_updates split: option.split prod.split)
qed

text \<open>Reading the data of the port may let the simulation run, but it cannot queue the command.\<close>

lemma run_ok_rdy:
  assumes "cpu.run_ok UNIV s" "c \<notin> set (cmds (hw s))"
  shows "cpu.run_ok UNIV (debug_rdy (sim_geti (cpu_client ram_start)) c s)"
proof -
  let ?s0 = "upd_cmd c (\<lambda>k. k\<lparr>dc_d_en := 0\<rparr>) s"
  have r0: "cpu.run_ok (- {c}) ?s0" using assms run_ok_queued [of "- {c}" s] by (intro run_ok_upd_cmd) auto
  have "cpu.run_ok (- {c}) (refresh (cpu_client ram_start) ?s0)"
    unfolding cpu_client_def using r0 by (rule cpu.run_ok_refresh)
  then have "cpu.run_ok (- {c}) t" if "sim_geti (cpu_client ram_start) i ?s0 = (v, t)" for i v t
    using that r0 by (auto simp: sim_geti_def sim_geti_check_def Let_def split: if_splits option.splits prod.splits)
  then have "cpu.run_ok UNIV t \<and> c \<notin> set (cmds (hw t))" if "sim_geti (cpu_client ram_start) i ?s0 = (v, t)" for i v t
    using that run_ok_queued [of "- {c}" t] by auto
  moreover have "cpu.run_ok UNIV ?s0" using assms(1) by (rule run_ok_upd_cmd)
  ultimately show ?thesis
    by (auto simp: debug_rdy_def debug_read_data_def Let_def run_ok_plan split: dbg_state.split prod.split)
qed

lemma run_ok_key:
  assumes "cpu.run_ok UNIV s"
  shows "cpu.run_ok UNIV (process_key (sim_geti (cpu_client ram_start)) ch s)"
proof (cases "user_cmd \<in> set (cmds (hw s))")
  case False
  have add: "cpu.run_ok UNIV (debug_add_cmd user_cmd (upd_cmd user_cmd g s))" for g
    using False assms by (intro run_ok_add run_ok_upd_cmd) simp_all
  have rdy: "cpu.run_ok UNIV (debug_rdy (sim_geti (cpu_client ram_start)) user_cmd (s\<lparr>dstate := d, dplan := p\<rparr>))"
    "cpu.run_ok UNIV (debug_rdy (sim_geti (cpu_client ram_start)) user_cmd (s\<lparr>dstate := d, dplan := p, dvals := v\<rparr>))" for d p v
    using False assms by (intro run_ok_rdy run_ok_debug_updates; simp)+
  have ev: "cpu.run_ok UNIV (trigger_event n v s)" for n v
    using assms by (auto simp: trigger_event_def intro: run_ok_debug_updates)
  show ?thesis
    using False assms
    by (auto simp: process_key_def pause_key_def debug_break_def debug_continue_def debug_step_def debug_insert_def debug_dump_state_def
        debug_store_state_def debug_read_mem_def debug_write_mem_def intro!: add rdy ev run_ok_debug_updates(3))
qed (simp add: process_key_def assms)

lemma run_ok_keys: "cpu.run_ok UNIV s \<Longrightarrow> cpu.run_ok UNIV (fold (process_key (sim_geti (cpu_client ram_start))) chs s)"
  by (induction chs arbitrary: s) (simp_all add: run_ok_key)

lemma run_ok_skt: "cpu.run_ok UNIV s \<Longrightarrow> cpu.run_ok UNIV (process_debug_skt accept_ok recv c s)"
proof -
  assume s: "cpu.run_ok UNIV s"
  have "cpu.run_ok UNIV (debug_add_request c r (s\<lparr>skt := k\<rparr>))" if "c \<notin> set (cmds (hw s))" for r k
    using s that by (intro run_ok_request run_ok_debug_updates) simp_all
  then show ?thesis
    using s by (auto simp: process_debug_skt_def Let_def run_ok_debug_updates split: option.split prod.split)
qed

lemma run_ok_debug: "cpu.run_ok UNIV s \<Longrightarrow> cpu.run_ok UNIV (main_debug ram_start use_skt enabled inp s)"
  by (simp add: main_debug_def run_ok_skt run_ok_keys)

section \<open>Turns of the loop\<close>

lemma wait_until_ok:
  assumes "wait_until (cpu_client ram_start) target s = Some s'" "cpu.run_ok UNIV s"
  shows "cpu.run_ok UNIV s'" "picos s < target \<Longrightarrow> cpu.idle_ok UNIV s'"
proof -
  define Q where "Q c tg t t' \<longleftrightarrow> (c = cpu_client ram_start \<and> cpu.run_ok UNIV t \<longrightarrow>
    cpu.run_ok UNIV t' \<and> (if picos t < tg then cpu.idle_ok UNIV t' else t' = t))" for c tg t t'
  have "Q (cpu_client ram_start) target s s'"
  proof (rule wait_until.raw_induct [OF _ assms(1)])
    fix w c tg t t'
    assume ih: "\<And>c tg t t'. w c tg t = Some t' \<Longrightarrow> Q c tg t t'"
      and r: "(if picos t < tg then w c tg (sim_wait_once c (tg - picos t) t) else Some t) = Some t'"
    show "Q c tg t t'"
      unfolding Q_def
    proof (intro impI, elim conjE)
      assume c: "c = cpu_client ram_start" "cpu.run_ok UNIV t"
      let ?t1 = "sim_wait_once c (tg - picos t) t"
      have o: "cpu.idle_ok UNIV ?t1" "cpu.run_ok UNIV ?t1"
        using cpu.run_ok_wait_once [OF c(2)] unfolding c(1) cpu_client_def by blast+
      show "cpu.run_ok UNIV t' \<and> (if picos t < tg then cpu.idle_ok UNIV t' else t' = t)"
        using r c o ih [of c tg ?t1 t'] by (auto simp: Q_def split: if_splits)
    qed
  qed
  then show "cpu.run_ok UNIV s'" "picos s < target \<Longrightarrow> cpu.idle_ok UNIV s'" using assms(2) by (auto simp: Q_def)
qed

lemma main_turn_ok:
  assumes "main_turn ram_start use_skt enabled inp s = Some s'" "cpu.run_ok UNIV s"
  shows "cpu.run_ok UNIV s'" "cpu.idle_ok UNIV s'"
proof -
  let ?s1 = "main_debug ram_start use_skt enabled inp s"
  have r: "cpu.run_ok UNIV ?s1" using assms(2) by (rule run_ok_debug)
  then have nc: "\<not> calling_hooks ?s1" "picos ?s1 < 2 ^ 63" by (auto simp: run_ok_parts times_ok_def)
  have "cpu.run_ok UNIV s' \<and> cpu.idle_ok UNIV s'"
  proof (cases "is_paused (hw ?s1)")
    case False
    then have "s' = sim_wait (cpu_client ram_start) ?s1" using assms(1) by (simp add: main_turn_def Let_def)
    then show ?thesis using cpu.run_ok_wait [OF r] unfolding cpu_client_def by blast
  next
    case True
    then have w: "wait_until (cpu_client ram_start) (picos ?s1 + CLK_PERIOD * 1000) ?s1 = Some s'"
      using assms(1) nc(1) by (simp add: main_turn_def sim_wait_time_def Let_def)
    have "picos ?s1 < picos ?s1 + of_int 10000" by (rule small_period [OF nc(2)]) simp_all
    then have "picos ?s1 < picos ?s1 + CLK_PERIOD * 1000" by (simp add: CLK_PERIOD_def)
    then show ?thesis using wait_until_ok [OF w r] by blast
  qed
  then show "cpu.run_ok UNIV s'" "cpu.idle_ok UNIV s'" by blast+
qed

end
