(* ===== verification/Bus_Init.thy ===== *)
theory Bus_Init
  imports Bus_Hooks
begin

text \<open>
  Starting the buses of a bench, one after the other, establishes the invariant of their hooks.
\<close>

section \<open>One bus\<close>

text \<open>What the initialisation of bus \<open>b\<close> leaves behind.\<close>

definition bus_started :: "nat \<Rightarrow> ('x, 'fn, 'm) bench \<Rightarrow> ('x, 'fn, 'm) bench \<Rightarrow> bool" where
  "bus_started b s s' \<longleftrightarrow>
     (let rw = rw_hook (buses s b); dr = drop_ack_hook (buses s b); ca = cancel_drop_hook (buses s b) in
      hooks s' = hooks s @ [rw] \<and> calling_hooks s' = calling_hooks s \<and> immediate_hooks s' = immediate_hooks s \<and>
      same_input s s' \<and> bus_sim.more s' = bus_sim.more s \<and>
      (\<forall>h. hook_time s' h = (if h \<in> {rw, dr, ca} then 0 else hook_time s h)) \<and>
      (\<forall>h. hk_cb (hook_of s' h) =
         (if h = ca then User_Cb (Bus_Cb (Cancel_Drop_Cb b)) else if h = dr then User_Cb (Bus_Cb (Drop_Ack_Cb b))
          else if h = rw then User_Cb (Bus_Cb (Read_Write_Cb b)) else hk_cb (hook_of s h))) \<and>
      (\<forall>c. rw_hook (buses s' c) = rw_hook (buses s c) \<and> drop_ack_hook (buses s' c) = drop_ack_hook (buses s c) \<and>
         cancel_drop_hook (buses s' c) = cancel_drop_hook (buses s c) \<and> small (buses s' c) = small (buses s c)))"

text \<open>Watching signals and setting the outputs change none of this.\<close>

definition same_table :: "('x, 'fn, 'm) bench \<Rightarrow> ('x, 'fn, 'm) bench \<Rightarrow> bool" where
  "same_table s s' \<longleftrightarrow> hooks s' = hooks s \<and> calling_hooks s' = calling_hooks s \<and> immediate_hooks s' = immediate_hooks s \<and>
     same_input s s' \<and> bus_sim.more s' = bus_sim.more s \<and> buses s' = buses s \<and>
     (\<forall>h. hook_time s' h = hook_time s h \<and> hk_cb (hook_of s' h) = hk_cb (hook_of s h))"

lemma same_table_refl [simp]: "same_table s s"
  by (simp add: same_table_def)

lemma same_table_trans: "same_table s t \<Longrightarrow> same_table t u \<Longrightarrow> same_table s u"
  by (auto simp: same_table_def intro: same_input_trans)

lemma same_table_watch [simp]: "same_table s (watch_signal h b i t) = same_table s t"
  by (auto simp: same_table_def watch_signal_def hook_time_def same_input_def)

lemma same_table_set [simp]: "same_table s (seti i v t) = same_table s t" "same_table s (set_all i c t) = same_table s t"
  by (auto simp: same_table_def seti_def set_all_def sim_seti_def sim_set_all_def sim_set_def Let_def sim_write_pty_def hook_time_def same_input_def)

lemma same_table_watch_all: "same_table s (fold (\<lambda>i. watch_signal h True i) is t) = same_table s t"
  by (induction "is" arbitrary: t) simp_all

lemma started_table: "bus_started b s t \<Longrightarrow> same_table t u \<Longrightarrow> bus_started b s u"
  by (auto simp: bus_started_def same_table_def Let_def intro: same_input_trans)

lemma started_common:
  assumes "rw_hook (buses s b) \<noteq> drop_ack_hook (buses s b)" "rw_hook (buses s b) \<noteq> cancel_drop_hook (buses s b)"
    and "same_table (common_init b s) t"
  shows "bus_started b s (sim_hook_add (rw_hook (buses t b)) t)"
proof -
  let ?s1 = "common_init b s"
  have b1: "buses ?s1 = (buses s)(b := (buses s b)\<lparr>op_count := 0, ack_drop_op := 0\<rparr>)"
    by (simp add: common_init_def upd_bus_def sim_hook_init_def Let_def split: prod.split)
  have i: "same_input s ?s1" "bus_sim.more ?s1 = bus_sim.more s" "hooks ?s1 = hooks s" "calling_hooks ?s1 = calling_hooks s"
    "immediate_hooks ?s1 = immediate_hooks s"
    by (simp_all add: common_init_def upd_bus_def sim_hook_init_def Let_def same_input_def split: prod.split)
  have h: "hook_time ?s1 k = (if k \<in> {rw_hook (buses s b), drop_ack_hook (buses s b), cancel_drop_hook (buses s b)} then 0 else hook_time s k)"
    "hk_cb (hook_of ?s1 k) =
         (if k = cancel_drop_hook (buses s b) then User_Cb (Bus_Cb (Cancel_Drop_Cb b)) else if k = drop_ack_hook (buses s b) then User_Cb (Bus_Cb (Drop_Ack_Cb b))
          else if k = rw_hook (buses s b) then User_Cb (Bus_Cb (Read_Write_Cb b)) else hk_cb (hook_of s k))" for k
    by (auto simp: common_init_def upd_bus_def sim_hook_init_def Let_def hook_time_def split: prod.split)
  have rw: "rw_hook (buses t b) = rw_hook (buses s b)" "hook_time t (rw_hook (buses s b)) = 0"
    using assms(3) by (simp_all add: same_table_def b1 h)
  have hk: "hooks (sim_hook_add (rw_hook (buses t b)) t) = hooks s @ [rw_hook (buses s b)]"
    "bus_sim.more (sim_hook_add h t) = bus_sim.more t" "buses (sim_hook_add h t) = buses t" for h
    using rw assms(3) i by (auto simp: sim_hook_add_def dl_append_def same_table_def)
  show ?thesis
    using assms(3) i h hk b1 by (auto simp: bus_started_def same_table_def Let_def small_def intro: same_input_trans)
qed

lemma started_idle:
  assumes "rw_hook (buses s b) \<noteq> drop_ack_hook (buses s b)" "rw_hook (buses s b) \<noteq> cancel_drop_hook (buses s b)"
  shows "bus_started b s (bus_idle b (bus_watch b is (common_init b s)))"
proof -
  let ?t = "bus_watch b is (common_init b s)"
  have w: "same_table (common_init b s) ?t" by (simp add: bus_watch_def same_table_watch_all)
  have "same_table (sim_hook_add (rw_hook (buses ?t b)) ?t) (bus_idle b ?t)" by (simp add: bus_idle_def Let_def)
  then show ?thesis by (rule started_table [OF started_common [OF assms w]])
qed

lemma mem_bus_init_started:
  assumes "rw_hook (buses s b) \<noteq> drop_ack_hook (buses s b)" "rw_hook (buses s b) \<noteq> cancel_drop_hook (buses s b)"
  shows "bus_started b s (mem_bus_init b s)"
  unfolding mem_bus_init_def Let_def by (rule started_idle [OF assms])

lemma instr_fetch_init_started:
  assumes "rw_hook (buses s b) \<noteq> drop_ack_hook (buses s b)" "rw_hook (buses s b) \<noteq> cancel_drop_hook (buses s b)"
  shows "bus_started b s (instr_fetch_init b s)"
proof -
  let ?s0 = "upd_bus b (\<lambda>bus. bus\<lparr>sig := (sig bus)\<lparr>sg_rd_wr := None\<rparr>\<rparr>) s"
  have b0: "rw_hook (buses ?s0 b) \<noteq> drop_ack_hook (buses ?s0 b)" "rw_hook (buses ?s0 b) \<noteq> cancel_drop_hook (buses ?s0 b)"
    using assms by (simp_all add: upd_bus_def)
  have "bus_started b ?s0 (instr_fetch_init b s)"
    unfolding instr_fetch_init_def Let_def by (rule started_idle [OF b0])
  then show ?thesis by (simp add: bus_started_def upd_bus_def Let_def hook_time_def small_def same_input_def)
qed

section \<open>All buses\<close>

text \<open>The buses of \<open>B\<close> have been started, of \<open>nb\<close> buses with their own hooks.\<close>

definition buses_up :: "nat \<Rightarrow> nat set \<Rightarrow> ('x, 'fn, 'm) bench \<Rightarrow> bool" where
  "buses_up nb B s \<longleftrightarrow> \<not> calling_hooks s \<and> immediate_hooks s = [] \<and> distinct (hooks s) \<and> set (hooks s) = (\<lambda>b. 3 * b + 1) ` B \<and>
     (\<forall>h\<in>set (hooks s). hook_time s h = 0) \<and>
     (\<forall>c<nb. rw_hook (buses s c) = 3 * c + 1 \<and> drop_ack_hook (buses s c) = 3 * c + 2 \<and> cancel_drop_hook (buses s c) = 3 * c + 3 \<and>
        small (buses s c)) \<and>
     (\<forall>c\<in>B. c < nb \<and> bus_hooks_ok (set (hooks s)) s c)"

lemma buses_up_step:
  assumes "buses_up nb B s" "b < nb" "b \<notin> B" "bus_started b s s'"
  shows "buses_up nb (insert b B) s'"
proof -
  have h: "rw_hook (buses s b) = 3 * b + 1" "drop_ack_hook (buses s b) = 3 * b + 2" "cancel_drop_hook (buses s b) = 3 * b + 3"
    using assms(1,2) by (auto simp: buses_up_def)
  have hs: "hooks s' = hooks s @ [3 * b + 1]" "\<And>k. hook_time s' k = (if k \<in> {3 * b + 1, 3 * b + 2, 3 * b + 3} then 0 else hook_time s k)"
    "\<And>k. hk_cb (hook_of s' k) =
         (if k = 3 * b + 3 then User_Cb (Bus_Cb (Cancel_Drop_Cb b)) else if k = 3 * b + 2 then User_Cb (Bus_Cb (Drop_Ack_Cb b))
          else if k = 3 * b + 1 then User_Cb (Bus_Cb (Read_Write_Cb b)) else hk_cb (hook_of s k))"
    using assms(4) by (simp_all add: bus_started_def Let_def h)
  have bs: "rw_hook (buses s' c) = rw_hook (buses s c)" "drop_ack_hook (buses s' c) = drop_ack_hook (buses s c)"
    "cancel_drop_hook (buses s' c) = cancel_drop_hook (buses s c)" "small (buses s' c) = small (buses s c)" for c
    using assms(4) by (simp_all add: bus_started_def Let_def)
  have L: "set (hooks s) = (\<lambda>b. 3 * b + 1) ` B" using assms(1) by (simp add: buses_up_def)
  have no: "3 * c + 2 \<notin> set (hooks s')" "3 * c + 3 \<notin> set (hooks s')" for c
    unfolding hs(1) using L by (auto, presburger+)
  have "bus_hooks_ok (set (hooks s')) s' c" if "c \<in> insert b B" for c
  proof -
    have c: "c < nb" using that assms(1,2) by (auto simp: buses_up_def)
    have ne: "3 * c + i \<noteq> 3 * b + j" if "c \<noteq> b" "i \<in> {1, 2, 3}" "j \<in> {1, 2, 3}" for i j
      using that by auto
    have old: "bus_hooks_ok (set (hooks s)) s c" if "c \<noteq> b" using that \<open>c \<in> insert b B\<close> assms(1) by (auto simp: buses_up_def)
    have nold: "3 * c + 2 \<notin> set (hooks s)" using L by (auto, presburger)
    show ?thesis
    proof (cases "c = b")
      case True
      then show ?thesis using assms(1) c no bs by (simp add: bus_hooks_ok_def hs(2,3) buses_up_def)
    next
      case False
      then show ?thesis
        using old [OF False] nold no bs ne [OF False] by (simp add: bus_hooks_ok_def hs(2,3))
    qed
  qed
  moreover have "distinct (hooks s')" unfolding hs(1) using assms(1,3) by (auto simp: buses_up_def)
  moreover have "set (hooks s') = (\<lambda>b. 3 * b + 1) ` insert b B" unfolding hs(1) using L by auto
  moreover have "\<forall>h\<in>set (hooks s'). hook_time s' h = 0" unfolding hs(1) hs(2) using assms(1) by (auto simp: buses_up_def)
  moreover have "\<not> calling_hooks s'" "immediate_hooks s' = []" using assms(1,4) by (simp_all add: buses_up_def bus_started_def Let_def)
  ultimately show ?thesis using assms(1,2) bs by (auto simp: buses_up_def)
qed

lemma buses_up_inv:
  assumes "buses_up nb {..<nb} s" "P (K (bus_sim.more s))"
  shows "hook_list_ok s" "bus_inv K P nb (set (hooks s)) s"
proof -
  have z: "\<forall>h\<in>set (hooks s). hook_time s h = 0" "set (hooks s) = (\<lambda>b. 3 * b + 1) ` {..<nb}" using assms(1) by (auto simp: buses_up_def)
  have "sorted_wrt (before (hook_time s)) (hooks s)"
    by (rule sorted_wrt_mono_rel [of _ "\<lambda>_ _. True"]) (use z in \<open>auto simp: before_def sorted_wrt_iff_nth_less\<close>)
  then show "hook_list_ok s" using assms(1) by (simp add: hook_list_ok_def buses_up_def)
  show "bus_inv K P nb (set (hooks s)) s"
    using assms z(2) by (auto simp: bus_inv_def buses_up_def)
qed

end
