(* ===== verification/Sim_Launch.thy ===== *)
theory Sim_Launch
  imports Sim_Hooks
begin

text \<open>
  How a bench is configured and started: the options of \<open>sim_cfg_parse\<close>, the command line of the child
  process and \<open>sim_new\<close> (src/sim/sim/simulator.c), and the options of the CPU test bench (\<open>parse_args\<close> of
  src/sim/cpu_ctb.c). The settings of GHDL and of Icarus Verilog share a union, so that \<open>ieee\<close> and \<open>vpi_dir\<close> are
  one field here, and \<open>ieee_asserts\<close> and \<open>vpi_name\<close> another. The command line is that of the Linux build
  (\<open>GHDL_MCODE_BACKEND\<close> is not defined).
\<close>

section \<open>Configuration\<close>

record sim_cfg =
  cf_type :: sim_type
  cf_name :: string
  cf_signals :: "signal list"
  cf_pico_scale :: u64
  cf_on_exit :: sim_on_exit
  stop_time :: "string option"
  ieee_or_vpi_dir :: "string option"
  ieee_asserts_or_vpi_name :: "string option"
  work_name :: "string option"
  std :: "string option"
  vcd :: "string option"
  wave :: "string option"
  explicit :: bool

text \<open>\<open>CMP_PREFIX\<close>.\<close>

definition cmp_prefix :: "string \<Rightarrow> string \<Rightarrow> string option" where
  "cmp_prefix str prefix = (if take (length prefix) str = prefix then Some (drop (length prefix) str) else None)"

fun first_prefix :: "string \<Rightarrow> (string \<times> (string \<Rightarrow> 'a)) list \<Rightarrow> 'a option" where
  "first_prefix arg [] = None"
| "first_prefix arg ((p, f) # ps) = (case cmp_prefix arg p of Some v \<Rightarrow> Some (f v) | None \<Rightarrow> first_prefix arg ps)"

definition cfg_option :: "string \<Rightarrow> sim_cfg \<Rightarrow> sim_cfg option" where
  "cfg_option arg cfg =
     (case first_prefix arg
        [(''--ieee='', \<lambda>v. cfg\<lparr>ieee_or_vpi_dir := Some v\<rparr>),
         (''--ieee-asserts='', \<lambda>v. cfg\<lparr>ieee_asserts_or_vpi_name := Some v\<rparr>),
         (''--work='', \<lambda>v. cfg\<lparr>work_name := Some v\<rparr>),
         (''--std='', \<lambda>v. cfg\<lparr>std := Some v\<rparr>),
         (''--vcd='', \<lambda>v. cfg\<lparr>vcd := Some v\<rparr>),
         (''--wave='', \<lambda>v. cfg\<lparr>wave := Some v\<rparr>),
         (''--stop-time='', \<lambda>v. cfg\<lparr>stop_time := Some v\<rparr>)] of
        Some cfg' \<Rightarrow> Some cfg'
      | None \<Rightarrow>
          if arg = ''-fexplicit'' then Some (cfg\<lparr>explicit := True\<rparr>)
          else map_option (\<lambda>v. cfg\<lparr>ieee_or_vpi_dir := Some v\<rparr>) (cmp_prefix arg ''--vpi-dir=''))"

fun parse_from :: "int \<Rightarrow> string list \<Rightarrow> sim_cfg \<Rightarrow> int \<times> sim_cfg" where
  "parse_from i [] cfg = (i, cfg)"
| "parse_from i (arg # args) cfg =
     (case cfg_option arg cfg of
        Some cfg' \<Rightarrow> parse_from (i + 1) args cfg'
      | None \<Rightarrow> (if arg \<noteq> [] \<and> hd arg = CHR ''-'' then - i - 1 else i, cfg))"

definition sim_cfg_parse :: "sim_cfg \<Rightarrow> string list \<Rightarrow> int \<times> sim_cfg" where
  "sim_cfg_parse cfg args = parse_from 0 args cfg"

section \<open>The command line of the child\<close>

datatype argv_error = Too_Many_Args | Too_Long

definition MAX_NUM_ARG :: nat where "MAX_NUM_ARG = 15"
definition ARG_BUF_LEN :: nat where "ARG_BUF_LEN = 2048"

text \<open>The arguments so far and the bytes used of \<open>cmd_buf\<close>. A text that was cut is never executed.\<close>

type_synonym argv = "argv_error + string list \<times> nat"

definition put_arg :: "string \<Rightarrow> string list \<times> nat \<Rightarrow> argv" where
  "put_arg txt a =
     (case a of (argv, used) \<Rightarrow>
        let used' = used + 1 + length txt in if used' \<ge> ARG_BUF_LEN then Inl Too_Long else Inr (argv @ [txt], used'))"

definition abind :: "argv \<Rightarrow> (string list \<times> nat \<Rightarrow> argv) \<Rightarrow> argv" where
  "abind r f = (case r of Inl e \<Rightarrow> Inl e | Inr a \<Rightarrow> f a)"

definition add_option :: "string \<Rightarrow> string option \<Rightarrow> string list \<times> nat \<Rightarrow> argv" where
  "add_option name val a =
     (case val of None \<Rightarrow> Inr a
      | Some v \<Rightarrow> if length (fst a) \<ge> MAX_NUM_ARG then Inl Too_Many_Args else put_arg (name @ v) a)"

definition ADD_LONG_OPTION :: "string \<Rightarrow> string option \<Rightarrow> string list \<times> nat \<Rightarrow> argv" where
  "ADD_LONG_OPTION name val a = add_option (''--'' @ name @ ''='') val a"

definition ADD_OPTION :: "string \<Rightarrow> string option \<Rightarrow> string list \<times> nat \<Rightarrow> argv" where
  "ADD_OPTION name val a = add_option (CHR ''-'' # name) val a"

definition or_default :: "string option \<Rightarrow> string \<Rightarrow> string" where
  "or_default v d = (case v of None \<Rightarrow> d | Some x \<Rightarrow> x)"

definition child_argv :: "sim_cfg \<Rightarrow> argv" where
  "child_argv cfg =
     (case cf_type cfg of
        SIM_TYPE_GHDL \<Rightarrow>
          abind (abind (abind (abind (abind (put_arg (''./'' @ cf_name cfg) ([], 0))
            (ADD_LONG_OPTION ''ieee-asserts'' (Some ''disable-at-0'')))
            (ADD_LONG_OPTION ''ieee-asserts'' (ieee_asserts_or_vpi_name cfg)))
            (ADD_LONG_OPTION ''vcd'' (vcd cfg)))
            (ADD_LONG_OPTION ''wave'' (wave cfg)))
            (ADD_LONG_OPTION ''stop-time'' (stop_time cfg))
      | SIM_TYPE_IVERILOG \<Rightarrow>
          abind (abind (abind (Inr ([''vvp''], 0))
            (ADD_OPTION ''M'' (Some (or_default (ieee_or_vpi_dir cfg) ''sim''))))
            (ADD_OPTION ''m'' (Some (or_default (ieee_asserts_or_vpi_name cfg) ''vpibridge''))))
            (\<lambda>(argv, used). Inr (argv @ [cf_name cfg], used)))"

section \<open>Starting\<close>

text \<open>Whether the calls that set up the pseudo terminal and the child succeed.\<close>

record launch_sys =
  openpty_ok :: bool
  fork_ok :: bool
  termios_ok :: bool

text \<open>The fields that \<open>memset\<close> and the assignments from the configuration set.\<close>

definition sim_reset :: "sim_cfg \<Rightarrow> ('cb, 'm) sim \<Rightarrow> ('cb, 'm) sim" where
  "sim_reset cfg s =
     s\<lparr>sim_kind := cf_type cfg, signals := cf_signals cfg, on_exit := cf_on_exit cfg, child_running := False, exit_status := 0, picos := 0,
       pico_scale := (if cf_pico_scale cfg \<noteq> 0 then cf_pico_scale cfg else 1), io_error := False, any_event := False, dirty_writes := False,
       calling_hooks := False, hooks := [], immediate_hooks := [], sig_wait_occurred := False\<rparr>"

text \<open>The parent's side once the child runs; \<open>sc\<close> is what the child will write.\<close>

definition sim_attach :: "bool \<Rightarrow> read_result list \<Rightarrow> ('cb, 'm) sim \<Rightarrow> int \<times> ('cb, 'm) sim" where
  "sim_attach termios sc s =
     (if \<not> termios then (1, s)
      else let s1 = sim_startup (s\<lparr>child_running := True, lr := line_reader_init, rd_script := sc, pty_out := []\<rparr>)
        in (if child_running s1 then 0 else - 1, s1))"

definition sim_new :: "launch_sys \<Rightarrow> sim_cfg \<Rightarrow> read_result list \<Rightarrow> ('cb, 'm) sim \<Rightarrow> int \<times> ('cb, 'm) sim" where
  "sim_new sys cfg sc s =
     (let (r1, s1) = sim_hook_init sig_wait_id Sig_Wait_Cb (sim_reset cfg s) in
      if r1 \<noteq> 0 then (- 1, s1)
      else let (r2, ev) = bv_init empty_bv (length (signals s1)); s2 = s1\<lparr>events := ev\<rparr> in
        if r2 \<noteq> 0 then (- 1, s2)
        else if \<not> openpty_ok sys then (- 1, s2)
        else if \<not> fork_ok sys then (- 1, s2)
        else sim_attach (termios_ok sys) sc s2)"

text \<open>
  The end: \<open>pty\<close> and \<open>pid\<close> of the simulator, \<open>-1\<close> when it has been freed, and what the operating system is asked
  to do, in order.
\<close>

datatype os_call = Close int | Kill_Child int | Waitpid int

definition sim_free :: "int \<times> int \<Rightarrow> ('cb, 'm) sim \<Rightarrow> int \<times> os_call list \<times> (int \<times> int) \<times> ('cb, 'm) sim" where
  "sim_free = (\<lambda>(pty, pid) s.
     if pty = - 1 \<or> pid = - 1 then (- 1, [], (pty, pid), s)
     else (0, Close pty # (if child_running s then [Kill_Child pid, Waitpid pid] else []), (- 1, - 1), s\<lparr>child_running := False\<rparr>))"

text \<open>The child is killed at most once and never after it has ended; a second call does nothing.\<close>

lemma sim_free_twice:
  assumes "sim_free p s = (0, calls, p', s')"
  shows "\<not> child_running s' \<and> sim_free p' s' = (- 1, [], p', s') \<and>
    (\<not> child_running s \<longrightarrow> (\<forall>k. Kill_Child k \<notin> set calls))"
  using assms by (auto simp: sim_free_def split: prod.splits if_splits)

section \<open>Options of the CPU test bench\<close>

record cpu_cfg =
  uart_pty :: bool
  delay_file :: "string option"
  log_opcodes :: bool
  debug_skt_opt :: bool
  debug_skt_port :: u16

definition default_cfg :: "signal list \<Rightarrow> sim_cfg" where
  "default_cfg ss =
     \<lparr>cf_type = SIM_TYPE_GHDL, cf_name = ''cpu_tb'', cf_signals = ss, cf_pico_scale = 0, cf_on_exit = SIMEXIT_EXIT, stop_time = None,
      ieee_or_vpi_dir = Some ''synopsys'', ieee_asserts_or_vpi_name = None, work_name = None, std = None, vcd = None, wave = None, explicit = True\<rparr>"

text \<open>The value is cut from a \<open>long\<close> to an \<open>int\<close>.\<close>

definition parse_arg_int :: "string \<Rightarrow> int option" where
  "parse_arg_int str =
     (case scan_number str 10 of (neg, ds, rest) \<Rightarrow>
        let v = (if neg then - int (base_value 10 ds) else int (base_value 10 ds)) in
        if clamp_long v \<noteq> v \<or> ds = [] \<or> rest \<noteq> [] then None else Some (sint (word_of_int v :: u32)))"

datatype option_code = Opt nat | Opt_Char char

definition cpu_option :: "option_code \<Rightarrow> string \<Rightarrow> sim_cfg \<times> cpu_cfg \<times> string \<Rightarrow> (sim_cfg \<times> cpu_cfg \<times> string) option" where
  "cpu_option c optarg x =
     (case x of (cfg, cpu, img) \<Rightarrow>
        if c = Opt 0 then Some (cfg\<lparr>ieee_or_vpi_dir := Some optarg\<rparr>, cpu, img)
        else if c = Opt 1 then Some (cfg\<lparr>ieee_asserts_or_vpi_name := Some optarg\<rparr>, cpu, img)
        else if c = Opt 2 then Some (cfg\<lparr>work_name := Some optarg\<rparr>, cpu, img)
        else if c = Opt 3 then Some (cfg\<lparr>std := Some optarg\<rparr>, cpu, img)
        else if c = Opt 4 then Some (cfg\<lparr>vcd := Some optarg\<rparr>, cpu, img)
        else if c = Opt 5 then Some (cfg\<lparr>wave := Some optarg\<rparr>, cpu, img)
        else if c = Opt 6 then Some (cfg\<lparr>stop_time := Some optarg\<rparr>, cpu, img)
        else if c = Opt 7 then Some (cfg\<lparr>explicit := True\<rparr>, cpu, img)
        else if c = Opt 8 then Some (cfg, cpu\<lparr>log_opcodes := True\<rparr>, img)
        else if c = Opt 9 then Some (cfg, cpu\<lparr>debug_skt_opt := True\<rparr>, img)
        else if c = Opt 10 then
          (case parse_arg_int optarg of None \<Rightarrow> None
           | Some v \<Rightarrow> if v < 0 \<or> v > 65535 then None else Some (cfg, cpu\<lparr>debug_skt_opt := True, debug_skt_port := of_int v\<rparr>, img))
        else if c = Opt_Char CHR ''u'' then Some (cfg, cpu\<lparr>uart_pty := True\<rparr>, img)
        else if c = Opt_Char CHR ''d'' then Some (cfg, cpu\<lparr>delay_file := Some optarg\<rparr>, img)
        else if c = Opt_Char CHR ''i'' then Some (cfg, cpu, optarg)
        else if c = Opt_Char CHR ''?'' then None
        else Some x)"

text \<open>The options as \<open>getopt_long\<close> gives them.\<close>

fun parse_args :: "(option_code \<times> string) list \<Rightarrow> sim_cfg \<times> cpu_cfg \<times> string \<Rightarrow> (sim_cfg \<times> cpu_cfg \<times> string) option" where
  "parse_args [] x = Some x"
| "parse_args ((c, optarg) # os) x = (case cpu_option c optarg x of None \<Rightarrow> None | Some y \<Rightarrow> parse_args os y)"

section \<open>Properties\<close>

definition long_opt :: "string \<Rightarrow> string option \<Rightarrow> string list" where
  "long_opt name val = (case val of None \<Rightarrow> [] | Some v \<Rightarrow> [''--'' @ name @ ''='' @ v])"

definition args_len :: "string list \<Rightarrow> nat" where
  "args_len xs = sum_list (map (\<lambda>x. 1 + length x) xs)"

definition ghdl_args :: "sim_cfg \<Rightarrow> string list" where
  "ghdl_args cfg =
     [''./'' @ cf_name cfg, ''--ieee-asserts=disable-at-0''] @ long_opt ''ieee-asserts'' (ieee_asserts_or_vpi_name cfg) @
     long_opt ''vcd'' (vcd cfg) @ long_opt ''wave'' (wave cfg) @ long_opt ''stop-time'' (stop_time cfg)"

text \<open>One step of the construction: the arguments so far fit, or the line was refused.\<close>

definition args_state :: "string list \<Rightarrow> argv" where
  "args_state xs = (if args_len xs < ARG_BUF_LEN then Inr (xs, args_len xs) else Inl Too_Long)"

lemma args_step:
  assumes "length xs < MAX_NUM_ARG"
  shows "abind (args_state xs) (ADD_LONG_OPTION name val) = args_state (xs @ long_opt name val)"
  using assms
  by (auto simp: args_state_def abind_def ADD_LONG_OPTION_def add_option_def put_arg_def long_opt_def args_len_def Let_def split: option.split)

lemma long_opt_length: "length (long_opt name val) \<le> 1"
  by (simp add: long_opt_def split: option.split)

text \<open>
  The command line of GHDL is either complete, every option whole and in order, or refused for its length; the
  array of 15 pointers always has room for it and its terminating null.
\<close>

lemma ghdl_command_line:
  assumes "cf_type cfg = SIM_TYPE_GHDL"
  shows "child_argv cfg = (if args_len (ghdl_args cfg) < ARG_BUF_LEN then Inr (ghdl_args cfg, args_len (ghdl_args cfg)) else Inl Too_Long)"
    and "length (ghdl_args cfg) < MAX_NUM_ARG"
proof -
  note l = long_opt_length
  have first: "put_arg (''./'' @ cf_name cfg) ([], 0) = args_state [''./'' @ cf_name cfg]"
    by (auto simp: args_state_def put_arg_def args_len_def Let_def)
  have d: "long_opt ''ieee-asserts'' (Some ''disable-at-0'') = [''--ieee-asserts=disable-at-0'']" by (simp add: long_opt_def)
  have len: "length (long_opt ''ieee-asserts'' (ieee_asserts_or_vpi_name cfg)) \<le> 1" "length (long_opt ''vcd'' (vcd cfg)) \<le> 1"
    "length (long_opt ''wave'' (wave cfg)) \<le> 1" "length (long_opt ''stop-time'' (stop_time cfg)) \<le> 1" by (rule l)+
  show "length (ghdl_args cfg) < MAX_NUM_ARG" using len by (simp add: ghdl_args_def MAX_NUM_ARG_def)
  have "child_argv cfg = args_state (ghdl_args cfg)"
    using assms len by (simp add: child_argv_def first [simplified] args_step MAX_NUM_ARG_def ghdl_args_def d)
  then show "child_argv cfg = (if args_len (ghdl_args cfg) < ARG_BUF_LEN then Inr (ghdl_args cfg, args_len (ghdl_args cfg)) else Inl Too_Long)"
    by (simp add: args_state_def)
qed

text \<open>A port number that is too large for an \<open>int\<close> is cut before it is compared: this one is taken for port 80.\<close>

lemma port_number_wraps: "cpu_option (Opt 10) ''4294967376'' (cfg, cpu, i) = Some (cfg, cpu\<lparr>debug_skt_opt := True, debug_skt_port := 80\<rparr>, i)"
proof -
  have "parse_arg_int ''4294967376'' = Some 80"
    by (simp add: parse_arg_int_def scan_number_def base_value_def digit_value_def clamp_long_def c_isspace_def c_isdigit_def)
  then show ?thesis by (simp add: cpu_option_def)
qed

text \<open>On Icarus Verilog the option for the IEEE library changes the directory of the VPI module, a member of the same union.\<close>

lemma ieee_sets_vpi_dir: "sim_cfg_parse cfg [''--ieee='' @ v] = sim_cfg_parse cfg [''--vpi-dir='' @ v]"
  by (simp add: sim_cfg_parse_def cfg_option_def cmp_prefix_def)

text \<open>A simulator that has been started has no hooks, and none is being called.\<close>

lemma startup_same_hooks: "same_hooks s (sim_startup s)"
proof -
  have w: "same_hooks s (sim_write_pty x s)" for x and s :: "('a, 'b) sim" by (simp add: same_hooks_def sim_write_pty_def)
  have "same_hooks s (startup_reads i sgs s)" for i sgs and s :: "('a, 'b) sim"
  proof (induction i sgs s rule: startup_reads.induct)
    case (2 i sg sgs s)
    let ?s1 = "sim_write_pty (''r '' @ sig_name sg @ [CHR 0x0A]) s"
    let ?s2 = "if (i + 1) mod 10 = 0 then sim_go_to_idle ?s1 else ?s1"
    have a: "same_hooks s ?s2" using w same_hooks_trans [OF w same_hooks_go_to_idle] by (simp only: split: if_split) blast
    have "same_hooks ?s2 (startup_reads (i + 1) sgs ?s2)" by (rule "2.IH" [OF refl])
    from same_hooks_trans [OF a this] show ?case by (simp only: startup_reads.simps Let_def)
  qed simp
  then have "same_hooks s (sim_go_to_idle (startup_reads 0 (signals s) s))" using same_hooks_go_to_idle same_hooks_trans by blast
  then show ?thesis by (simp add: sim_startup_def same_hooks_def sim_clear_events_def)
qed

lemma sim_new_no_hooks:
  assumes "sim_new sys cfg sc s = (0, s')"
  shows "hooks s' = []" "immediate_hooks s' = []" "\<not> calling_hooks s'"
proof -
  obtain t where t: "s' = sim_startup t" "hooks t = []" "immediate_hooks t = []" "\<not> calling_hooks t"
    using assms by (auto simp: sim_new_def sim_attach_def sim_hook_init_def sim_reset_def Let_def split: prod.splits if_splits)
  show "hooks s' = []" "immediate_hooks s' = []" "\<not> calling_hooks s'"
    using startup_same_hooks [of t] t by (simp_all add: same_hooks_def)
qed

end
