(* ===== verification/Bench_Runs.thy ===== *)
theory Bench_Runs
  imports Cpu_Run Bus_Init Sim_Launch
begin

text \<open>
  The start of the CPU test bench establishes the invariants of \<open>Cpu_Run\<close>, and every turn of its loop
  keeps them.
\<close>

section \<open>The start\<close>

text \<open>
  The simulator as \<open>sim_new\<close> hands it over, with the delay file read, under the two conditions on its input: the
  rules of the delay file drop the acknowledge after less than 0x400000 ns, and the process reports no time of
  2^63 ps or more.
\<close>

definition fresh :: "dsim \<Rightarrow> bool" where
  "fresh s \<longleftrightarrow> hooks s = [] \<and> immediate_hooks s = [] \<and> \<not> calling_hooks s \<and> small_cfg (delay_cfg s) \<and> times_ok s"

lemma sim_new_fresh:
  assumes "sim_new sys cfg sc s = (0, s')" "small_cfg (delay_cfg s')" "times_ok s'"
  shows "fresh s'"
  using sim_new_no_hooks [OF assms(1)] assms(2,3) by (simp add: fresh_def)

text \<open>Between the start of the buses and that of the debug port.\<close>

definition starting :: "dsim \<Rightarrow> bool" where
  "starting s \<longleftrightarrow> hook_list_ok s \<and> bus_inv bench_key cfg_ok 5 (set (hooks s)) s \<and> \<not> calling_hooks s \<and> times_ok s \<and> hw s = cpu_hw \<and>
     (\<forall>h\<in>set (hooks s). h \<le> 16 \<and> hook_time s h = 0) \<and> (16 \<in> set (hooks s) \<longrightarrow> hk_cb (hook_of s 16) = User_Cb (Other_Cb Evt_Ack_Cb))"

lemma range_add_parts [simp]:
  "hooks (mem_bus_range_add b rg s) = hooks s" "hook_of (mem_bus_range_add b rg s) = hook_of s"
  "calling_hooks (mem_bus_range_add b rg s) = calling_hooks s" "immediate_hooks (mem_bus_range_add b rg s) = immediate_hooks s"
  "bus_sim.more (mem_bus_range_add b rg s) = bus_sim.more s" "same_input t (mem_bus_range_add b rg s) = same_input t s"
  "hook_time (mem_bus_range_add b rg s) = hook_time s"
  "rw_hook (buses (mem_bus_range_add b rg s) c) = rw_hook (buses s c)" "drop_ack_hook (buses (mem_bus_range_add b rg s) c) = drop_ack_hook (buses s c)"
  "cancel_drop_hook (buses (mem_bus_range_add b rg s) c) = cancel_drop_hook (buses s c)" "small (buses (mem_bus_range_add b rg s) c) = small (buses s c)"
  by (auto simp: mem_bus_range_add_def upd_bus_def same_input_def hook_time_def fun_eq_iff small_def)

lemma hw_more: "bus_sim.more s' = bus_sim.more (s :: dsim) \<Longrightarrow> hw s' = hw s" "bus_sim.more s' = bus_sim.more (s :: dsim) \<Longrightarrow> delay_cfg s' = delay_cfg s"
  using bench_parts by blast+

lemma starting_same:
  assumes "starting s" "hooks s' = hooks s" "hook_of s' = hook_of s" "calling_hooks s' = calling_hooks s"
    "immediate_hooks s' = immediate_hooks s" "hw s' = hw s" "delay_cfg s' = delay_cfg s" "same_input s s'"
    "\<And>c. rw_hook (buses s' c) = rw_hook (buses s c) \<and> drop_ack_hook (buses s' c) = drop_ack_hook (buses s c) \<and>
       cancel_drop_hook (buses s' c) = cancel_drop_hook (buses s c) \<and> small (buses s' c) = small (buses s c)"
  shows "starting s'"
proof -
  have t: "hook_time s' = hook_time s" using assms(3) by (simp add: hook_time_def fun_eq_iff)
  have "times_ok s'" using assms(1,8) times_ok_input by (auto simp: starting_def)
  then show ?thesis
    using assms t by (auto simp: starting_def bus_inv_def bus_hooks_ok_def hook_list_ok_def)
qed

lemma starting_range: "starting s \<Longrightarrow> starting (mem_bus_range_add b rg s)"
  using hw_more [of "mem_bus_range_add b rg s" s] by (elim starting_same) simp_all

lemma starting_event:
  assumes "starting s" "16 \<notin> set (hooks s)"
  shows "starting (sim_hook_add 16 (watch_signal 16 True i (snd (sim_hook_init 16 (User_Cb (Other_Cb Evt_Ack_Cb)) s))))"
    (is "starting ?s")
proof -
  have h: "hooks ?s = hooks s @ [16]" "calling_hooks ?s = calling_hooks s" "immediate_hooks ?s = immediate_hooks s" "buses ?s = buses s"
    "bus_sim.more ?s = bus_sim.more s" "same_input s ?s" "hook_time ?s = (hook_time s)(16 := 0)"
    "hk_cb (hook_of ?s k) = (if k = 16 then User_Cb (Other_Cb Evt_Ack_Cb) else hk_cb (hook_of s k))" for k
    by (auto simp: sim_hook_add_def watch_signal_def sim_hook_init_def Let_def dl_append_def hook_time_def fun_eq_iff same_input_def
        split: prod.split)
  have "bus_inv bench_key cfg_ok 5 (set (hooks ?s)) ?s"
    by (rule bus_inv_same [of _ _ _ "set (hooks s)" s]) (use assms(1) h in \<open>auto simp: starting_def bus_inv_def\<close>)
  moreover have "sorted_wrt (before (hook_time ?s)) (hooks ?s)"
    by (rule sorted_wrt_mono_rel [of _ "\<lambda>_ _. True"])
      (use assms(1) h in \<open>auto simp: starting_def before_def sorted_wrt_iff_nth_less\<close>)
  ultimately show ?thesis
    using assms h times_ok_input [of s ?s] hw_more(1) [OF h(5)] by (auto simp: starting_def hook_list_ok_def)
qed

lemma do_act_starting:
  assumes "starting s" "a = Enable_Event_Trigger \<longrightarrow> 16 \<notin> set (hooks s)"
  shows "starting (do_act a s)" "16 \<in> set (hooks (do_act a s)) \<longrightarrow> 16 \<in> set (hooks s) \<or> a = Enable_Event_Trigger"
proof -
  show "starting (do_act a s)"
    using assms by (cases a) (simp_all add: do_act_def evt_ack_hook_def starting_range starting_event)
  show "16 \<in> set (hooks (do_act a s)) \<longrightarrow> 16 \<in> set (hooks s) \<or> a = Enable_Event_Trigger"
    by (cases a) (simp_all add: do_act_def)
qed

lemma do_acts_starting:
  "starting s \<Longrightarrow> distinct acts \<Longrightarrow> (Enable_Event_Trigger \<in> set acts \<longrightarrow> 16 \<notin> set (hooks s)) \<Longrightarrow> starting (fold do_act acts s)"
proof (induction acts arbitrary: s)
  case (Cons a acts)
  note d = do_act_starting [of s a]
  show ?case using Cons.prems d by (auto intro!: Cons.IH)
qed simp

text \<open>An instruction is carried out once, however often the image names it.\<close>

lemma act_of_distinct: "distinct acts \<Longrightarrow> distinct (act_of v acts)"
  by (simp add: act_of_def enable_def)

lemma instr_loop_distinct: "instr_loop bs num i acts = Some acts' \<Longrightarrow> distinct acts \<Longrightarrow> distinct acts'"
proof (induction bs num i acts rule: instr_loop.induct)
  case (1 bs num i acts)
  from "1.prems" show ?case
    by (subst (asm) instr_loop.simps) (auto split: if_splits option.splits intro: "1.IH" act_of_distinct)
qed

lemma parse_sim_distinct: "parse_sim_instructions bs = Some (addrs, acts) \<Longrightarrow> distinct acts"
  by (auto simp: parse_sim_instructions_def Let_def split: if_splits option.splits dest!: instr_loop_distinct)

lemma new_bus_hooks:
  "rw_hook (new_bus b rd wr dr g) = 3 * b + 1 \<and> drop_ack_hook (new_bus b rd wr dr g) = 3 * b + 2 \<and> cancel_drop_hook (new_bus b rd wr dr g) = 3 * b + 3 \<and>
   (dr < 0x400000 \<longrightarrow> small (new_bus b rd wr dr g))"
  by (simp add: new_bus_def small_def)

lemma cpu_buses_hooks:
  assumes "c < 5"
  shows "rw_hook (cpu_buses c) = 3 * c + 1 \<and> drop_ack_hook (cpu_buses c) = 3 * c + 2 \<and> cancel_drop_hook (cpu_buses c) = 3 * c + 3 \<and> small (cpu_buses c)"
proof -
  have "\<exists>rd wr dr g. cpu_buses c = new_bus c rd wr dr g \<and> dr < 0x400000"
    using assms less_Suc_eq by (auto simp: cpu_buses_def sram_bus_def ddr_bus_def pio_bus_def uart0_bus_def if_bus_def numeral_eq_Suc)
      (fastforce+)?
  then show ?thesis using new_bus_hooks by metis
qed

lemma init_buses_starting:
  assumes "fresh s"
  shows "starting (init_buses (cpu_statics s))" "16 \<notin> set (hooks (init_buses (cpu_statics s)))"
proof -
  let ?s0 = "cpu_statics s"
  have u0: "buses_up 5 {} ?s0" using assms cpu_buses_hooks by (simp add: buses_up_def cpu_statics_def fresh_def)
  have next_up: "buses_up 5 (insert b B) s' \<and> same_input s s' \<and> bus_sim.more s' = bus_sim.more ?s0"
    if "buses_up 5 B t \<and> same_input s t \<and> bus_sim.more t = bus_sim.more ?s0" "b < 5" "b \<notin> B" "bus_started b t s'" for b B t s'
    using that buses_up_step [of 5 B t b s'] by (auto simp: bus_started_def Let_def intro: same_input_trans)
  have ne: "rw_hook (buses t b) \<noteq> drop_ack_hook (buses t b)" "rw_hook (buses t b) \<noteq> cancel_drop_hook (buses t b)" if "buses_up 5 B t" "b < 5" for B t b
    using that by (auto simp: buses_up_def)
  have st: "buses_up 5 (insert b B) (mem_bus_init b t) \<and> same_input s (mem_bus_init b t) \<and> bus_sim.more (mem_bus_init b t) = bus_sim.more ?s0"
    if "buses_up 5 B t \<and> same_input s t \<and> bus_sim.more t = bus_sim.more ?s0" "b < 5" "b \<notin> B" for b B t
    using that ne [of B t b] by (intro next_up [OF that(1)] mem_bus_init_started) auto
  have "buses_up 5 {} ?s0 \<and> same_input s ?s0 \<and> bus_sim.more ?s0 = bus_sim.more ?s0" using u0 by (simp add: same_input_def cpu_statics_def)
  then have "buses_up 5 {4} (instr_fetch_init 4 ?s0) \<and> same_input s (instr_fetch_init 4 ?s0) \<and> bus_sim.more (instr_fetch_init 4 ?s0) = bus_sim.more ?s0"
    using u0 ne [of "{}" ?s0 4] by (intro next_up [of "{}" ?s0] instr_fetch_init_started) auto
  then have "buses_up 5 (insert 3 (insert 2 (insert 1 (insert 0 {4})))) (init_buses ?s0) \<and> same_input s (init_buses ?s0) \<and> bus_sim.more (init_buses ?s0) = bus_sim.more ?s0"
    unfolding init_buses_def by (intro st) auto
  moreover have "insert 3 (insert 2 (insert 1 (insert 0 {4 :: nat}))) = {..<5}" by auto
  ultimately have u: "buses_up 5 {..<5} (init_buses ?s0)" "same_input s (init_buses ?s0)" "bus_sim.more (init_buses ?s0) = bus_sim.more ?s0" by simp_all
  have hc: "hw (init_buses ?s0) = cpu_hw" "small_cfg (delay_cfg (init_buses ?s0))"
    unfolding hw_more(1) [OF u(3)] hw_more(2) [OF u(3)] using assms by (simp_all add: cpu_statics_def fresh_def)
  have b: "hook_list_ok (init_buses ?s0)" "bus_inv bench_key cfg_ok 5 (set (hooks (init_buses ?s0))) (init_buses ?s0)"
    using hc by (auto intro!: buses_up_inv [OF u(1)] simp: cfg_ok_def)
  have hs: "set (hooks (init_buses ?s0)) = (\<lambda>b. 3 * b + 1) ` {..<5}" using u(1) by (simp add: buses_up_def)
  then show n: "16 \<notin> set (hooks (init_buses ?s0))" by auto
  have "\<forall>h\<in>set (hooks (init_buses ?s0)). h \<le> 16" unfolding hs by auto
  moreover have "\<not> calling_hooks (init_buses ?s0)" "\<forall>h\<in>set (hooks (init_buses ?s0)). hook_time (init_buses ?s0) h = 0"
    using u(1) by (simp_all add: buses_up_def)
  moreover have "times_ok (init_buses ?s0)" using assms u(2) times_ok_input by (auto simp: fresh_def)
  ultimately show "starting (init_buses ?s0)" using b hc(1) n by (simp add: starting_def)
qed

lemma cpu_hook_init [simp]:
  "hw (snd (sim_hook_init h c s)) = hw s" "delay_cfg (snd (sim_hook_init h c s)) = delay_cfg s" "hooks (snd (sim_hook_init h c s)) = hooks s"
  "calling_hooks (snd (sim_hook_init h c s)) = calling_hooks s" "immediate_hooks (snd (sim_hook_init h c s)) = immediate_hooks s"
  "buses (snd (sim_hook_init h c s)) = buses s" "same_input t (snd (sim_hook_init h c s)) = same_input t s"
  "hook_time (snd (sim_hook_init h c s)) = (hook_time s)(h := 0)"
  "hk_cb (hook_of (snd (sim_hook_init h c s)) k) = (if k = h then c else hk_cb (hook_of s k))"
  by (auto simp: sim_hook_init_def Let_def hook_time_def same_input_def fun_eq_iff split: prod.split)

lemma debug_hw_init_ok:
  assumes "starting s"
  shows "cpu.run_ok UNIV (debug_hw_init Debug_Drop_Cb Debug_Ack_Cb (uint CLK_PERIOD) s)"
proof -
  let ?s = "debug_hw_init Debug_Drop_Cb Debug_Ack_Cb (uint CLK_PERIOD) s"
  have hwd: "hw s = cpu_hw" using assms by (simp add: starting_def)
  define h0 where "h0 = cpu_hw\<lparr>calling_cmd_done := False, is_paused := False, clock_period := uint CLK_PERIOD * 1000, cmds := []\<rparr>"
  define t where "t = snd (sim_hook_init 17 (User_Cb (Other_Cb Debug_Ack_Cb)) (snd (sim_hook_init 18 (User_Cb (Other_Cb Debug_Drop_Cb)) (s\<lparr>hw := h0\<rparr>))))"
  have s: "?s = seti (dg_ir debug_signals_cpu) 0 (seti (dg_din debug_signals_cpu) 0 (seti (dg_cmd debug_signals_cpu) (cmd_code DBG_CMD_BREAK)
      (seti (dg_en debug_signals_cpu) 0 t)))"
    by (simp add: debug_hw_init_def Let_def t_def upd_hw_def hwd init_delay_hook_def cpu_hw_def h0_def set_scheduled_def)
  have iw: "same_input s (s\<lparr>hw := h0\<rparr>)" by (simp add: same_input_def)
  have hs: "hooks t = hooks s" "calling_hooks t = calling_hooks s" "immediate_hooks t = immediate_hooks s" "buses t = buses s" "same_input s t" "hw t = h0"
    "delay_cfg t = delay_cfg s" "hook_time t = (hook_time s)(18 := 0, 17 := 0)"
    "hk_cb (hook_of t k) = (if k = 17 then User_Cb (Other_Cb Debug_Ack_Cb) else if k = 18 then User_Cb (Other_Cb Debug_Drop_Cb) else hk_cb (hook_of s k))" for k
    unfolding t_def using iw by (simp_all add: hook_time_def fun_eq_iff)
  have no: "17 \<notin> set (hooks s)" "18 \<notin> set (hooks s)" "\<forall>h\<in>set (hooks s). h \<le> 18" using assms by (auto simp: starting_def)
  have "bus_inv bench_key cfg_ok 5 (set (hooks t)) t"
    by (rule bus_inv_same [of _ _ _ "set (hooks s)" s]) (use assms hs in \<open>auto simp: starting_def bus_inv_def cfg_ok_def\<close>)
  moreover have "sorted_wrt (before (hook_time t)) (hooks t)"
    by (rule sorted_wrt_mono_rel [of _ "\<lambda>_ _. True"])
      (use assms hs in \<open>auto simp: starting_def before_def sorted_wrt_iff_nth_less\<close>)
  moreover have "cpu_hooks UNIV (set (hooks t)) t"
    using assms no by (auto simp: cpu_hooks_def hs h0_def starting_def port_ok_def port_hw_def cpu_hw_def CLK_PERIOD_def)
  moreover have "times_ok t" using assms hs(5) times_ok_input by (auto simp: starting_def)
  ultimately have "cpu.run_ok UNIV t" using assms hs by (auto simp: run_ok_parts hook_list_ok_def starting_def)
  then show ?thesis unfolding s by (intro run_ok_debug_updates)
qed

lemma add_ranges_starting: "starting s \<Longrightarrow> starting (add_ranges n s)"
  by (simp add: add_ranges_def uartlite_attach_def Let_def starting_range)

lemma cpu_init_ok:
  assumes "fresh s" "cpu_init file uart_in s = Some s'"
  shows "cpu.run_ok UNIV s'"
proof -
  obtain addrs acts where p: "parse_sim_instructions file = Some (addrs, acts)"
    and s': "s' = debug_hw_init Debug_Drop_Cb Debug_Ack_Cb (uint CLK_PERIOD) (add_ranges (of_nat (length file))
      ((fold do_act acts (init_buses (cpu_statics s)))\<lparr>img := file, ram := replicate 0x1000000 0, uart0 := uartlite_init 0xABCD0100 uart_in\<rparr>))"
    using assms(2) by (auto simp: cpu_init_def Let_def split: option.splits)
  let ?s1 = "fold do_act acts (init_buses (cpu_statics s))"
  have "starting ?s1" using init_buses_starting [OF assms(1)] parse_sim_distinct [OF p] by (intro do_acts_starting) simp_all
  then have "starting (?s1\<lparr>img := file, ram := replicate 0x1000000 0, uart0 := uartlite_init 0xABCD0100 uart_in\<rparr>)"
    by (rule starting_same) simp_all
  then show ?thesis unfolding s' by (intro debug_hw_init_ok add_ranges_starting)
qed

section \<open>Runs\<close>

text \<open>The states of the bench before each turn of its loop.\<close>

inductive bench_run :: "u32 \<Rightarrow> bool \<Rightarrow> bool \<Rightarrow> dsim \<Rightarrow> bool" for ram_start use_skt enabled where
  started: "fresh s0 \<Longrightarrow> cpu_init file uart_in s0 = Some s \<Longrightarrow> bench_run ram_start use_skt enabled s"
| turned: "bench_run ram_start use_skt enabled s \<Longrightarrow> main_turn ram_start use_skt enabled inp s = Some s' \<Longrightarrow>
    bench_run ram_start use_skt enabled s'"

lemma bench_run_ok: "bench_run ram_start use_skt enabled s \<Longrightarrow> cpu.run_ok UNIV s"
  by (induction rule: bench_run.induct) (auto intro: cpu_init_ok main_turn_ok(1))

section \<open>Properties\<close>

text \<open>A bench to start from: its process never writes.\<close>

definition idle_bench :: dsim where
  "idle_bench =
     \<lparr>sim_kind = SIM_TYPE_GHDL, signals = [], on_exit = SIMEXIT_EXIT, child_running = True, exit_status = 0, picos = 0, pico_scale = 1000,
      lr = line_reader_init, rd_script = [], pty_out = [], io_error = False, any_event = False, dirty_writes = False, events = empty_bv,
      calling_hooks = False, hook_of = (\<lambda>_. \<lparr>hk_cb = Sig_Wait_Cb, hk_signals = empty_bv, hk_time = 0\<rparr>), hooks = [], immediate_hooks = [],
      sig_wait_occurred = False, echo_arg = 0, wild_write = False, buses = cpu_buses, hw = cpu_hw,
      cmd_of = (\<lambda>_. \<lparr>dc_cmd = DBG_CMD_BREAK, dc_ir = 0, dc_d = 0, dc_d_en = 0\<rparr>), img = [], ram = [], delay_cfg = \<lparr>delays = []\<rparr>,
      uart0 = uartlite_init 0 [], stuck = False, exited = None, dstate = DBG_STATE_RUN, dplan = debug_plan_init_regs_read, dregs = [], dvals = [],
      skt = \<lparr>skt_listener = False, skt_conn = False, skt_buf = \<lparr>rb_head = 0, rb_tail = 0, rb_buf = []\<rparr>\<rparr>, skt_sends = [], skt_sent = []\<rparr>"

lemma idle_reader: "line_reader_next line_reader_init [] = (Eof, line_reader_init, [])"
  by (subst line_reader_next.simps) (simp add: line_reader_init_def scan_lines.simps compact_def Let_def)

lemma idle_bench_fresh: "fresh idle_bench"
proof -
  have "comes l sc x \<Longrightarrow> l = line_reader_init \<Longrightarrow> sc = [] \<Longrightarrow> False" for l sc x
    by (induction rule: comes.induct) (simp_all add: idle_reader)
  then show ?thesis by (auto simp: fresh_def idle_bench_def times_ok_def small_cfg_def)
qed

lemma idle_bench_starts: "\<exists>s. cpu_init [] [] idle_bench = Some s \<and> \<not> is_paused (hw s)"
  by (simp add: cpu_init_def parse_sim_instructions_def Let_def debug_hw_init_def upd_hw_def init_delay_hook_def set_scheduled_def)

text \<open>
  C5: Before every turn of the loop of the bench, in every run from a fresh simulator whose process reports
  times below 2^63 ps and whose delay rules drop the acknowledge after less than 0x400000 ns: the hooks are distinct and sorted by the time they wait for, hooks without a time last;
  the hook that drops the acknowledge of a bus is in the list exactly while it waits for a time; the hook that
  waits for the acknowledge of the debug port is in the list exactly while a debug command is queued, and never
  together with the one that drops the port's enable.
\<close>

theorem bench_hooks_in_order:
  assumes "bench_run ram_start use_skt enabled s"
  shows "distinct (hooks s) \<and>
    (\<forall>i j. i < j \<and> j < length (hooks s) \<and> hook_time s (hooks s ! j) \<noteq> 0 \<longrightarrow>
       hook_time s (hooks s ! i) \<noteq> 0 \<and> hook_time s (hooks s ! i) \<le> hook_time s (hooks s ! j)) \<and>
    (\<forall>b<5. drop_ack_hook (buses s b) \<in> set (hooks s) \<longleftrightarrow> hook_time s (drop_ack_hook (buses s b)) \<noteq> 0) \<and>
    (ack_hook (hw s) \<in> set (hooks s) \<longleftrightarrow> cmds (hw s) \<noteq> []) \<and>
    \<not> (ack_hook (hw s) \<in> set (hooks s) \<and> dh_hook (drop_en_hook (hw s)) \<in> set (hooks s))"
proof -
  have r: "hook_list_ok s" "\<forall>b<5. bus_hooks_ok (set (hooks s)) s b" "port_ok 17 18 UNIV (set (hooks s)) (hw s)"
    using bench_run_ok [OF assms] by (auto simp: run_ok_parts bus_inv_def cpu_hooks_def)
  have "\<forall>i j. i < j \<and> j < length (hooks s) \<longrightarrow> before (hook_time s) (hooks s ! i) (hooks s ! j)"
    using r(1) by (auto simp: hook_list_ok_def sorted_wrt_iff_nth_less)
  moreover have "distinct (hooks s)" using r(1) by (simp add: hook_list_ok_def)
  moreover have "\<forall>b<5. drop_ack_hook (buses s b) \<in> set (hooks s) \<longleftrightarrow> hook_time s (drop_ack_hook (buses s b)) \<noteq> 0"
    using r(2) by (auto simp: bus_hooks_ok_def)
  moreover have "(ack_hook (hw s) \<in> set (hooks s) \<longleftrightarrow> cmds (hw s) \<noteq> []) \<and>
    \<not> (ack_hook (hw s) \<in> set (hooks s) \<and> dh_hook (drop_en_hook (hw s)) \<in> set (hooks s))"
    using r(3) by (auto simp: port_ok_def port_hw_def)
  ultimately show ?thesis unfolding before_def by blast
qed

theorem bench_hooks_in_order_witness:
  "\<exists>s. bench_run 0 False False s \<and> distinct (hooks s) \<and> (ack_hook (hw s) \<in> set (hooks s) \<longleftrightarrow> cmds (hw s) \<noteq> [])"
proof -
  obtain s where "cpu_init [] [] idle_bench = Some s" using idle_bench_starts by blast
  then have "bench_run 0 False False s" by (rule bench_run.started [OF idle_bench_fresh])
  from this bench_hooks_in_order [OF this] show ?thesis by blast
qed

text \<open>
  C6: After every turn of the loop, in a run from such a start (times below 2^63 ps, drop delays below
  0x400000 ns), each waiting time of a hook still lies ahead, and the time the bench lets the
  process run before it looks at its hooks again, \<open>next_hook_delay\<close>, passes none of them; it is 0, no limit,
  only when no hook waits for a time.
\<close>

theorem bench_never_oversleeps:
  assumes "bench_run ram_start use_skt enabled s" "main_turn ram_start use_skt enabled inp s = Some s'"
  shows "(\<forall>h\<in>set (hooks s'). hook_time s' h \<noteq> 0 \<longrightarrow> picos s' < hook_time s' h \<and> picos s' + next_hook_delay s' \<le> hook_time s' h) \<and>
    (next_hook_delay s' = 0 \<longleftrightarrow> (\<forall>h\<in>set (hooks s'). hook_time s' h = 0))"
proof -
  have "cpu.idle_ok UNIV s'" using main_turn_ok(2) [OF assms(2) bench_run_ok [OF assms(1)]] .
  then have i: "hook_list_ok s'" "\<forall>h\<in>set (hooks s'). future s' h" by (auto simp: cpu.idle_ok_def cpu.bench_ok_def)
  then show ?thesis using next_hook_delay_least [OF i] by (auto simp: future_def)
qed

theorem bench_never_oversleeps_witness:
  "\<exists>s s'. bench_run 0 False False s \<and> main_turn 0 False False \<lparr>in_keys = [], in_accept = False, in_recv = (\<lambda>_. Recv_Again)\<rparr> s = Some s' \<and>
     (next_hook_delay s' = 0 \<longleftrightarrow> (\<forall>h\<in>set (hooks s'). hook_time s' h = 0))"
proof -
  obtain s where s: "cpu_init [] [] idle_bench = Some s" "\<not> is_paused (hw s)" using idle_bench_starts by blast
  have "bench_run 0 False False s" by (rule bench_run.started [OF idle_bench_fresh s(1)])
  moreover have "\<exists>s'. main_turn 0 False False \<lparr>in_keys = [], in_accept = False, in_recv = (\<lambda>_. Recv_Again)\<rparr> s = Some s'"
    using s(2) by (simp add: main_turn_def main_debug_def Let_def)
  ultimately show ?thesis using bench_never_oversleeps by blast
qed

text \<open>
  C40: Stepping locks the keyboard. The key for a step, pressed while the program is paused, sets the state to
  \<open>DBG_STATE_STEP\<close>; when the step is acknowledged, \<open>debug_rdy\<close> prints the keys that may be pressed but leaves that
  state, and in it every key is ignored, whatever it is, so that the program can never be continued.
\<close>

theorem step_locks_keyboard:
  assumes "dstate s = DBG_STATE_PAUSE" "user_cmd \<notin> set (cmds (hw s))"
  shows "dstate (process_key get CHR ''s'' s) = DBG_STATE_STEP \<and>
    (\<forall>t. dstate t = DBG_STATE_STEP \<longrightarrow> dstate (debug_rdy get user_cmd t) = DBG_STATE_STEP \<and> (\<forall>keys. fold (process_key get) keys t = t))"
proof -
  have "fold (process_key get) keys t = t" if "dstate t = DBG_STATE_STEP" for keys t
    using that by (induction keys) (simp_all add: process_key_def)
  then show ?thesis using assms by (auto simp: process_key_def pause_key_def debug_rdy_def Let_def upd_cmd_def)
qed

theorem step_locks_keyboard_witness:
  "dstate (process_key geti_cb CHR ''s'' (idle_bench\<lparr>dstate := DBG_STATE_PAUSE\<rparr>)) = DBG_STATE_STEP"
  using step_locks_keyboard [of "idle_bench\<lparr>dstate := DBG_STATE_PAUSE\<rparr>" geti_cb] by (simp add: idle_bench_def cpu_hw_def)

end
