(* ===== verification/Cpu_Main.thy ===== *)
theory Cpu_Main
  imports Bench_Runs
begin

text \<open>
  The whole of main of the CPU test bench (src/sim/cpu_ctb.c): its signal table (cpu_signals.h, put together by
  sim_macros.h), the options, the start with all its failures, and the end. What the operating system answers is
  \<open>main_sys\<close>. Shown: what main hands to its loop is the start of a run of \<open>Bench_Runs\<close>, and with what status it
  exits when something fails.
\<close>

section \<open>The signal table\<close>

definition read_only_signals :: "(string \<times> string) list" where
  "read_only_signals =
     [(''rst'', ''std_logic''),
      (''data_slaves_o(DEV_SRAM).a'', ''std_logic_vector(31 downto 0)''),
      (''data_slaves_o(DEV_SRAM).d'', ''std_logic_vector(31 downto 0)''),
      (''data_slaves_o(DEV_SRAM).we'', ''std_logic_vector(3 downto 0)''),
      (''data_slaves_o(DEV_SRAM).wr'', ''std_logic''),
      (''data_slaves_o(DEV_SRAM).rd'', ''std_logic''),
      (''data_slaves_o(DEV_SRAM).en'', ''std_logic''),
      (''data_slaves_o(DEV_DDR).a'', ''std_logic_vector(31 downto 0)''),
      (''data_slaves_o(DEV_DDR).d'', ''std_logic_vector(31 downto 0)''),
      (''data_slaves_o(DEV_DDR).we'', ''std_logic_vector(3 downto 0)''),
      (''data_slaves_o(DEV_DDR).wr'', ''std_logic''),
      (''data_slaves_o(DEV_DDR).rd'', ''std_logic''),
      (''data_slaves_o(DEV_DDR).en'', ''std_logic''),
      (''pio_data_o.a'', ''std_logic_vector(31 downto 0)''),
      (''pio_data_o.d'', ''std_logic_vector(31 downto 0)''),
      (''pio_data_o.we'', ''std_logic_vector(3 downto 0)''),
      (''pio_data_o.wr'', ''std_logic''),
      (''pio_data_o.rd'', ''std_logic''),
      (''pio_data_o.en'', ''std_logic''),
      (''data_slaves_o(DEV_UART0).a'', ''std_logic_vector(31 downto 0)''),
      (''data_slaves_o(DEV_UART0).d'', ''std_logic_vector(31 downto 0)''),
      (''data_slaves_o(DEV_UART0).we'', ''std_logic_vector(3 downto 0)''),
      (''data_slaves_o(DEV_UART0).wr'', ''std_logic''),
      (''data_slaves_o(DEV_UART0).rd'', ''std_logic''),
      (''data_slaves_o(DEV_UART0).en'', ''std_logic''),
      (''instrd_slaves_o(DEV_SRAM).en'', ''std_logic''),
      (''instrd_slaves_o(DEV_SRAM).a'', ''std_logic_vector(31 downto 0)''),
      (''instrd_slaves_o(DEV_SRAM).we'', ''std_logic_vector(3 downto 0)''),
      (''debug_o.ack'', ''std_logic''),
      (''debug_o.d'', ''std_logic_vector(31 downto 0)''),
      (''debug_o.rdy'', ''std_logic''),
      (''event_ack_o'', ''std_logic_vector(2 downto 0)'')]"

definition write_signals :: "(string \<times> string) list" where
  "write_signals =
     [(''data_slaves_i(DEV_SRAM).d'', ''std_logic_vector(31 downto 0)''),
      (''data_slaves_i(DEV_SRAM).ack'', ''std_logic''),
      (''data_slaves_i(DEV_DDR).d'', ''std_logic_vector(31 downto 0)''),
      (''data_slaves_i(DEV_DDR).ack'', ''std_logic''),
      (''pio_data_i.d'', ''std_logic_vector(31 downto 0)''),
      (''pio_data_i.ack'', ''std_logic''),
      (''data_slaves_i(DEV_UART0).d'', ''std_logic_vector(31 downto 0)''),
      (''data_slaves_i(DEV_UART0).ack'', ''std_logic''),
      (''instrd_slaves_i(DEV_SRAM).d'', ''std_logic_vector(31 downto 0)''),
      (''instrd_slaves_i(DEV_SRAM).ack'', ''std_logic''),
      (''debug_i.en'', ''std_logic''),
      (''debug_i_cmd'', ''std_logic_vector(1 downto 0)''),
      (''debug_i.d'', ''std_logic_vector(31 downto 0)''),
      (''debug_i.d_en'', ''std_logic''),
      (''debug_i.ir'', ''std_logic_vector(15 downto 0)''),
      (''event_req_i'', ''std_logic_vector(2 downto 0)''),
      (''event_info_i'', ''std_logic_vector(11 downto 0)'')]"

definition cpu_signals :: "signal list" where
  "cpu_signals =
     map (\<lambda>(i, ro, name, typ). \<lparr>sig_index = i, sig_name = name, sig_type = typ, sig_value = None, value_len = 0, read_only = ro, event = False\<rparr>)
       (zip [0..<49] (map (Pair True) read_only_signals @ map (Pair False) write_signals))"

section \<open>The program\<close>

text \<open>
  What main gets from outside: the results of the calls that start the simulator process and everything it
  will write, the files, the socket, the terminal and the pseudo terminal of the serial port. \<open>child_ids\<close> are the file
  descriptor and the number of the process.
\<close>

record main_sys =
  launch :: launch_sys
  child_ids :: "int \<times> int"
  child_output :: "read_result list"
  delay_files :: "string \<Rightarrow> string option"
  image_files :: "string \<Rightarrow> u8 list option"
  fstat_ok :: bool
  mmap_img_ok :: bool
  mmap_ram_ok :: bool
  skt_sys :: listen_sys
  pty_input :: "u8 list option"
  terminal_ok :: bool

text \<open>What the loop is entered with: the size of the image, whether the socket is used and whether keys are read.\<close>

record main_loop =
  ml_size :: u32
  ml_skt :: bool
  ml_enabled :: bool
  ml_state :: dsim

text \<open>The result of main before its loop: an exit status with the calls of \<open>sim_free\<close>, or the loop.\<close>

datatype main_result = Exits int "os_call list" | Loops main_loop

definition no_options :: cpu_cfg where
  "no_options = \<lparr>uart_pty = False, delay_file = None, log_opcodes = False, debug_skt_opt = False, debug_skt_port = 0\<rparr>"

definition exit_sim :: "main_sys \<Rightarrow> int \<Rightarrow> dsim \<Rightarrow> main_result" where
  "exit_sim sys err s = Exits err (fst (snd (sim_free (child_ids sys) s)))"

text \<open>The debug socket, if one is asked for.\<close>

definition main_socket :: "main_sys \<Rightarrow> cpu_cfg \<Rightarrow> dsim \<Rightarrow> int \<times> dsim" where
  "main_socket sys cpu s =
     (if debug_skt_opt cpu
      then (case debug_skt_init (skt_sys sys) (skt s) (debug_skt_port cpu) of (r, _, k) \<Rightarrow> (r, s\<lparr>skt := k\<rparr>))
      else (0, s))"

text \<open>
  From the image file on. The serial port reads from its pseudo terminal, or from no file at all. \<open>None\<close>: the
  instructions for the bench lie outside the image.
\<close>

definition main_image :: "main_sys \<Rightarrow> cpu_cfg \<Rightarrow> string \<Rightarrow> dsim \<Rightarrow> main_result option" where
  "main_image sys cpu img_name s =
     (case image_files sys img_name of
        None \<Rightarrow> Some (exit_sim sys 1 s)
      | Some file \<Rightarrow>
          if \<not> fstat_ok sys then Some (exit_sim sys 1 s)
          else if \<not> mmap_img_ok sys then Some (exit_sim sys 1 s)
          else if \<not> mmap_ram_ok sys then Some (exit_sim sys 1 s)
          else
            (case cpu_init file (if uart_pty cpu then (case pty_input sys of None \<Rightarrow> [] | Some bs \<Rightarrow> bs) else []) s of
               None \<Rightarrow> None
             | Some s1 \<Rightarrow>
                 if uart_pty cpu \<and> pty_input sys = None then Some (exit_sim sys 0 s)
                 else Some (Loops \<lparr>ml_size = of_nat (length file), ml_skt = debug_skt_opt cpu,
                        ml_enabled = (\<not> debug_skt_opt cpu \<and> terminal_ok sys), ml_state = s1\<rparr>)))"

definition cpu_main :: "main_sys \<Rightarrow> (option_code \<times> string) list \<Rightarrow> dsim \<Rightarrow> main_result option" where
  "cpu_main sys opts s0 =
     (case parse_args opts (default_cfg cpu_signals, no_options, ''ram.img'') of
        None \<Rightarrow> Some (Exits 1 [])
      | Some (cfg, cpu, img_name) \<Rightarrow>
          let (r, s1) = sim_new (launch sys) cfg (child_output sys) s0 in
          if r \<noteq> 0 then Some (Exits 1 [])
          else let (r, ds) = delays_init_cfg (delay_files sys) (delay_file cpu); s2 = s1\<lparr>delay_cfg := ds\<rparr> in
            if r \<noteq> 0 then Some (exit_sim sys 0 s2)
            else let (r, s3) = main_socket sys cpu s2 in
              if r \<noteq> 0 then Some (exit_sim sys 0 s3)
              else main_image sys cpu img_name s3)"

section \<open>Lemmas\<close>

lemma cpu_signals_length: "length cpu_signals = SIG_NUM_SIGNALS"
  by (simp add: cpu_signals_def read_only_signals_def write_signals_def SIG_NUM_SIGNALS_def)

lemma cpu_signals_names: "map sig_name cpu_signals = map fst (read_only_signals @ write_signals)"
  by (simp add: cpu_signals_def read_only_signals_def write_signals_def upt_rec)

text \<open>The table answers look-ups by name, and its indices are those of the enumeration.\<close>

lemma cpu_table_ok: "table_ok cpu_signals"
proof -
  have "distinct (map fst (read_only_signals @ write_signals))" by code_simp
  moreover have "list_all word_ok (map fst (read_only_signals @ write_signals))" by code_simp
  ultimately show ?thesis unfolding table_ok_def cpu_signals_names [symmetric] by (simp add: list_all_iff)
qed

lemma cpu_signals_enum:
  "sig_name (cpu_signals ! SIG_db_sram_o) = ''data_slaves_o(DEV_SRAM).a''" "sig_name (cpu_signals ! SIG_db_ddr_o) = ''data_slaves_o(DEV_DDR).a''"
  "sig_name (cpu_signals ! SIG_db_pio_o) = ''pio_data_o.a''" "sig_name (cpu_signals ! SIG_db_uart0_o) = ''data_slaves_o(DEV_UART0).a''"
  "sig_name (cpu_signals ! SIG_inst_o_en) = ''instrd_slaves_o(DEV_SRAM).en''" "sig_name (cpu_signals ! SIG_debug_o_ack) = ''debug_o.ack''"
  "sig_name (cpu_signals ! SIG_event_ack_o) = ''event_ack_o''" "sig_name (cpu_signals ! SIG_db_sram_i_d) = ''data_slaves_i(DEV_SRAM).d''"
  "sig_name (cpu_signals ! SIG_inst_i_d) = ''instrd_slaves_i(DEV_SRAM).d''" "sig_name (cpu_signals ! SIG_debug_i_en) = ''debug_i.en''"
  "sig_name (cpu_signals ! SIG_event_req_i) = ''event_req_i''" "sig_name (cpu_signals ! SIG_event_info_i) = ''event_info_i''"
  by code_simp+

lemma sim_new_runs:
  assumes "sim_new sys cfg sc s = (0, s')"
  shows "child_running s'"
  using assms by (auto simp: sim_new_def sim_attach_def Let_def split: prod.splits if_splits)

lemma main_socket_parts:
  assumes "main_socket sys cpu s = (r, s')"
  shows "child_running s' = child_running s" "fresh s' = fresh s"
proof -
  have "\<exists>k. s' = s\<lparr>skt := k\<rparr>"
    using assms by (auto simp: main_socket_def split: prod.splits if_splits intro: exI [of _ "skt s"])
  then obtain k where k: "s' = s\<lparr>skt := k\<rparr>" ..
  then have "times_ok s' = times_ok s" using times_ok_input [of s s'] times_ok_input [of s' s] by (auto simp: same_input_def)
  then show "child_running s' = child_running s" "fresh s' = fresh s" by (simp_all add: k fresh_def)
qed

lemma main_socket_delays: "fst (main_socket sys cpu (s\<lparr>delay_cfg := ds\<rparr>)) = fst (main_socket sys cpu s)"
  by (simp add: main_socket_def split: prod.splits)

section \<open>A silent child\<close>

lemma silent_idle:
  assumes "lr s = line_reader_init" "rd_script s = []"
  shows "lr (sim_go_to_idle s) = line_reader_init \<and> rd_script (sim_go_to_idle s) = [] \<and> picos (sim_go_to_idle s) = picos s \<and>
    child_running (sim_go_to_idle s) = child_running s"
proof -
  have "idle_loop (echo_arg s) (send_echo s) = (send_echo s)\<lparr>lr := line_reader_init, rd_script := []\<rparr>"
    by (subst idle_loop.simps) (simp add: assms idle_reader)
  then show ?thesis using assms by (simp add: sim_go_to_idle_def send_echo_def sim_write_pty_def)
qed

lemma silent_reads:
  "lr s = line_reader_init \<Longrightarrow> rd_script s = [] \<Longrightarrow>
   lr (startup_reads i sgs s) = line_reader_init \<and> rd_script (startup_reads i sgs s) = [] \<and> picos (startup_reads i sgs s) = picos s \<and>
    child_running (startup_reads i sgs s) = child_running s"
proof (induction sgs arbitrary: i s)
  case (Cons sg sgs)
  let ?s1 = "sim_write_pty (''r '' @ sig_name sg @ [CHR 0x0A]) s"
  have "lr ?s1 = line_reader_init" "rd_script ?s1 = []" "picos ?s1 = picos s" "child_running ?s1 = child_running s"
    using Cons.prems by (simp_all add: sim_write_pty_def)
  then show ?case using silent_idle [of ?s1] Cons.IH by (simp add: Let_def)
qed simp

definition all_ok :: launch_sys where
  "all_ok = \<lparr>openpty_ok = True, fork_ok = True, termios_ok = True\<rparr>"

lemma silent_startup:
  fixes t :: dsim
  assumes "lr t = line_reader_init" "rd_script t = []"
  shows "lr (sim_startup t) = line_reader_init \<and> rd_script (sim_startup t) = [] \<and> picos (sim_startup t) = picos t \<and>
    child_running (sim_startup t) = child_running t"
  using assms silent_reads [of t 0 "signals t"] silent_idle [of "startup_reads 0 (signals t) t"]
  by (simp add: sim_startup_def sim_clear_events_def)



lemma silent_starts:
  assumes "length (cf_signals cfg) = 49"
  shows "\<exists>s1. sim_new all_ok cfg [] (s0 :: dsim) = (0, s1)"
proof -
  have b: "bv_init b 49 = (0, b\<lparr>bv_n := 49, bv_max_i := 2, bv_vals := replicate BITVEC_SIZE 0\<rparr>)" for b
    by (simp add: bv_init_def BITVEC_SIZE_def Let_def)
  show ?thesis
    using silent_startup assms
    by (simp add: sim_new_def sim_attach_def sim_hook_init_def sim_reset_def b all_ok_def Let_def)
qed

section \<open>Properties\<close>


text \<open>
  C37: The status with which main exits before its loop. Once the simulator has been started, every failure closes
  its terminal and kills it; but the status is 1 only for a missing image or memory that cannot be mapped: a delay file that
  cannot be read, a socket that cannot be opened and a pseudo terminal that is not available end the program with status 0,
  success.
\<close>

theorem main_exit_status:
  assumes "parse_args opts (default_cfg cpu_signals, no_options, ''ram.img'') = Some (cfg, cpu, img_name)"
    and "sim_new (launch sys) cfg (child_output sys) s0 = (0, s1)" "child_ids sys = (pty, pid)" "pty \<noteq> - 1" "pid \<noteq> - 1"
    and "cpu_main sys opts s0 = Some (Exits st calls)"
  shows "calls = [Close pty, Kill_Child pid, Waitpid pid] \<and>
    st = (if fst (delays_init_cfg (delay_files sys) (delay_file cpu)) = 0 \<and> fst (main_socket sys cpu s1) = 0 \<and>
             (image_files sys img_name = None \<or> \<not> fstat_ok sys \<or> \<not> mmap_img_ok sys \<or> \<not> mmap_ram_ok sys)
          then 1 else 0)"
proof -
  obtain r2 ds where d: "delays_init_cfg (delay_files sys) (delay_file cpu) = (r2, ds)" by fastforce
  obtain r3 s3 where k: "main_socket sys cpu (s1\<lparr>delay_cfg := ds\<rparr>) = (r3, s3)" by fastforce
  have c: "child_running s1" "child_running s3" using sim_new_runs [OF assms(2)] main_socket_parts(1) [OF k] by simp_all
  have e: "exit_sim sys err s = Exits err [Close pty, Kill_Child pid, Waitpid pid]" if "child_running s" for err s
    using that assms(3-5) by (simp add: exit_sim_def sim_free_def)
  have k1: "fst (main_socket sys cpu s1) = r3" using main_socket_delays [of sys cpu ds s1] k by simp
  have m: "cpu_main sys opts s0 =
      (if r2 \<noteq> 0 then Some (exit_sim sys 0 (s1\<lparr>delay_cfg := ds\<rparr>)) else if r3 \<noteq> 0 then Some (exit_sim sys 0 s3) else main_image sys cpu img_name s3)"
    by (simp add: cpu_main_def assms(1,2) d k Let_def)
  show ?thesis
  proof (cases "r2 = 0 \<and> r3 = 0")
    case True
    then have i: "main_image sys cpu img_name s3 = Some (Exits st calls)" using assms(6) m by simp
    show ?thesis
      using i True by (auto simp: main_image_def e c d k1 split: option.splits if_splits)
  next
    case False
    then show ?thesis using assms(6) c by (auto simp: m e d k1 split: if_splits)
  qed
qed

text \<open>Everything works, the image is empty and the child is silent; or there is no delay file of the name \<open>x\<close>.\<close>

definition demo_sys :: main_sys where
  "demo_sys =
     \<lparr>launch = all_ok, child_ids = (3, 77), child_output = [], delay_files = (\<lambda>_. None), image_files = (\<lambda>_. Some []), fstat_ok = True,
      mmap_img_ok = True, mmap_ram_ok = True,
      skt_sys = \<lparr>err_socket = None, err_nonblock = None, err_bind = None, bound_port = 0, err_listen = None\<rparr>,
      pty_input = None, terminal_ok = True\<rparr>"

lemma demo_new: "\<exists>s1. sim_new (launch demo_sys) (default_cfg cpu_signals) (child_output demo_sys) (s0 :: dsim) = (0, s1)"
  using silent_starts [of "default_cfg cpu_signals" s0] cpu_signals_length
  by (simp add: demo_sys_def default_cfg_def SIG_NUM_SIGNALS_def)


theorem main_exit_status_witness:
  "\<exists>calls. cpu_main demo_sys [(Opt_Char CHR ''d'', ''x'')] idle_bench = Some (Exits 0 calls) \<and> calls = [Close 3, Kill_Child 77, Waitpid 77]"
proof -
  obtain s1 where s1: "sim_new (launch demo_sys) (default_cfg cpu_signals) (child_output demo_sys) idle_bench = (0, s1)"
    using demo_new by blast
  have p: "parse_args [(Opt_Char CHR ''d'', ''x'')] (default_cfg cpu_signals, no_options, ''ram.img'') =
      Some (default_cfg cpu_signals, no_options\<lparr>delay_file := Some ''x''\<rparr>, ''ram.img'')"
    by (simp add: cpu_option_def)
  have "\<exists>calls. cpu_main demo_sys [(Opt_Char CHR ''d'', ''x'')] idle_bench = Some (Exits 0 calls)"
    using s1 p by (simp add: cpu_main_def delays_init_cfg_def exit_sim_def demo_sys_def del: parse_args.simps)
  then obtain calls where c: "cpu_main demo_sys [(Opt_Char CHR ''d'', ''x'')] idle_bench = Some (Exits 0 calls)" by blast
  have "child_ids demo_sys = (3, 77)" by (simp add: demo_sys_def)
  from main_exit_status [OF p s1 this _ _ c] c show ?thesis by simp
qed

end
