(* ===== verification/Decode_Op.thy ===== *)
theory Decode_Op
  imports Sim_Signals Sh2_Instr
begin

text \<open>
  The opcode decoding bench (src/sim/decodeop.c): it feeds opcodes to the decoder of the CPU and prints, at
  every rising edge of the clock, which control signals are set. What it prints is collected in \<open>console\<close>;
  \<open>None\<close> as a text is an access behind the end of one of its tables.
\<close>

section \<open>Tables\<close>

definition decode_signal_names :: "string list" where
  "decode_signal_names =
     [''CLK'', ''RST'', ''SLOT'', ''ID_IF_ISSUE'', ''ID_IF_JP'', ''IF_DR'', ''IF_STALL'', ''EX_MA_ISSUE'', ''EX_KEEP_CYC'',
      ''EX_MA_WR'', ''EX_MA_SZ'', ''EX_MULCOM1'', ''EX_MULCOM2'', ''WB_MULCOM1'', ''WB_MULCOM2'', ''EX_WRMACH'', ''EX_WRMACL'',
      ''WB_WRMACH'', ''WB_WRMACL'', ''WB_MAC_BUSY'', ''WB1_MULCOM1'', ''WB1_MULCOM2'', ''WB1_WRMACH'', ''WB1_WRMACL'',
      ''WB1_MAC_BUSY'', ''WB2_MULCOM1'', ''WB2_MULCOM2'', ''WB2_WRMACH'', ''WB2_WRMACL'', ''WB2_MAC_BUSY'', ''WB3_MAC_BUSY'',
      ''EX_MAC_BUSY'', ''EX1_MAC_BUSY'', ''MAC_BUSY'', ''MAC_STALL_SENSE'', ''EX_RDREG_X'', ''EX_RDREG_Y'', ''EX_WRREG_Z'',
      ''WB_WRREG_W'', ''EX_REGNUM_X'', ''EX_REGNUM_Y'', ''EX_REGNUM_Z'', ''WB_REGNUM_W'', ''EX_ALUFUNC'', ''EX_WRMAAD_Z'',
      ''EX_WRMADW_X'', ''EX_WRMADW_Y'', ''EX_MACSEL1'', ''EX_MACSEL2'', ''WB_MACSEL1'', ''WB_MACSEL2'', ''EX_RDMACH_X'',
      ''EX_RDMACL_X'', ''EX_RDMACH_Y'', ''EX_RDMACL_Y'', ''EX_RDSR_X'', ''EX_RDSR_Y'', ''EX_WRSR_Z'', ''WB_WRSR_W'', ''MAC_S_LATCH'',
      ''EX_RDGBR_X'', ''EX_RDGBR_Y'', ''EX_WRGBR_Z'', ''WB_WRGBR_W'', ''EX_RDVBR_X'', ''EX_RDVBR_Y'', ''EX_WRVBR_Z'', ''WB_WRVBR_W'',
      ''EX_RDPR_X'', ''EX_RDPR_Y'', ''EX_WRPR_Z'', ''WB_WRPR_W'', ''EX_WRPR_PC'', ''EX_RDPC_X'', ''EX_RDPC_Y'', ''EX_WRPC_Z'',
      ''EX_WRPC_W'', ''ID_INCPC'', ''ID_IFADSEL'', ''EX_CONST_ZERO4'', ''EX_CONST_ZERO42'', ''EX_CONST_ZERO44'', ''EX_CONST_ZERO8'',
      ''EX_CONST_ZERO82'', ''EX_CONST_ZERO84'', ''EX_CONST_SIGN8'', ''EX_CONST_SIGN82'', ''EX_CONST_SIGN122'', ''EX_RDCONST_X'',
      ''EX_RDCONST_Y'', ''EX_CMPCOM'', ''EX_SFTFUNC'', ''EX_RDSFT_Z'', ''EX_RDDIV_Z'', ''T_BCC'', ''EX_T_CMPSET'', ''EX_T_CRYSET'',
      ''EX_T_TSTSET'', ''EX_T_SFTSET'', ''EX_QT_DV1SET'', ''EX_MQT_DV0SET'', ''EX_T_CLR'', ''EX_T_SET'', ''EX_MQ_CLR'',
      ''EX_RDTEMP_X'', ''EX_WRTEMP_Z'', ''EX_WRMAAD_TEMP'', ''EVENT_REQ'', ''EVENT_ACK'', ''EVENT_ACK_0'', ''EVENT_INFO'', ''RST_SR'',
      ''IBIT'', ''ILEVEL'', ''ILEVEL_CAP'', ''WR_IBIT'', ''SLP'', ''EX_FWD_W2X'', ''DELAY_JUMP'', ''DISPATCH'', ''INSTR_SEQ'',
      ''INSTR_STATE'', ''NEXT_ID_STALL'', ''MASKINT_NEXT'', ''IF_ISSUE'', ''RDREG_X'', ''REGNUM_X'', ''RDREG_Y'']"

text \<open>The value of \<open>SIG_x\<close> in the enumeration.\<close>

definition SIG :: "string \<Rightarrow> nat" where
  "SIG n = length (takeWhile (\<lambda>m. m \<noteq> n) decode_signal_names)"

abbreviation SIGS :: "string list \<Rightarrow> nat list" where
  "SIGS ns \<equiv> map SIG ns"

definition decode_signals :: "signal list" where
  "decode_signals =
     map (\<lambda>n. \<lparr>sig_index = SIG n, sig_name = ''decode.'' @ n, sig_type = [], sig_value = None, value_len = 0, read_only = False, event = False\<rparr>)
       decode_signal_names"

definition alu_funcs :: "(string \<times> string) list" where
  "alu_funcs =
     [(''NOP'', ''Z=0''),
      (''THRUX'', ''Z=X''),
      (''SPARE2'', ''previously Z=W by way of the ALU''),
      (''THRUY'', ''Z=Y''),
      (''ADD'', ''Z=X+Y''),
      (''ADDC'', ''Z=X+Y, T<-Carry''),
      (''ADDV'', ''Z=X+Y, T<-Overflow''),
      (''INCX'', ''Z=X+1''),
      (''INCX2'', ''Z=X+2''),
      (''INCX4'', ''Z=X+4''),
      (''ADDCN'', ''Z=X+CONST''),
      (''ADDR0'', ''Z=X+R0(if necessary, forwarding from WBUS)''),
      (''ADDXFC'', ''Z=(X & FC) + Y''),
      (''SWAPW'', ''Z=SWAPW(Y)''),
      (''SWAPB'', ''Z=SWAPB(Y)''),
      (''SPARE'', ''unused''),
      (''EXTUB'', ''Z=EXTUB(Y)''),
      (''EXTUW'', ''Z=EXTUW(Y)''),
      (''EXTSB'', ''Z=EXTSB(Y)''),
      (''EXTSW'', ''Z=EXTSW(Y)''),
      (''SUB'', ''Z=X-Y''),
      (''SUBC'', ''Z=X-Y, T<-Carry''),
      (''SUBV'', ''Z=X-Y, T<-Overflow''),
      (''DECX'', ''Z=X-1''),
      (''DECX2'', ''Z=X-2''),
      (''DECX4'', ''Z=X-4''),
      (''TAS'', ''Z=X | 32'' @ [CHR 0x27] @ ''h00000080''),
      (''XTRCT'', ''Z=XTRCT(X,Y)''),
      (''AND'', ''Z=X&Y''),
      (''XOR'', ''Z=X^Y''),
      (''OR'', ''Z=Z|Y''),
      (''NOT'', ''Z=~Y'')]"

definition bus_names :: "string list" where
  "bus_names = [''X Bus'', ''Y Bus'', ''Z Bus'', ''W Bus'']"

definition ma_sz_names :: "string list" where
  "ma_sz_names = [''byte'', ''word'', ''long'', ''ERROR'']"

definition const_names :: "string list" where
  "const_names = [''Z4'', ''Z42'', ''Z44'', ''Z8'', ''Z82'', ''Z84'', ''S8'', ''S82'', ''S122'']"

definition const_signals :: "string list" where
  "const_signals =
     [''EX_CONST_ZERO4'', ''EX_CONST_ZERO42'', ''EX_CONST_ZERO44'', ''EX_CONST_ZERO8'', ''EX_CONST_ZERO82'', ''EX_CONST_ZERO84'',
      ''EX_CONST_SIGN8'', ''EX_CONST_SIGN82'', ''EX_CONST_SIGN122'']"

section \<open>State\<close>

datatype decode_cb = Change_Fn

record decode_bench = "decode_cb simulator" +
  console :: string

definition table_at :: "'a list \<Rightarrow> nat \<Rightarrow> 'a option" where
  "table_at xs i = (if i < length xs then Some (xs ! i) else None)"

definition nl :: string where "nl = [CHR 0x0A]"

section \<open>What is printed\<close>

definition print_bus :: "nat \<Rightarrow> string \<Rightarrow> string option" where
  "print_bus bus val = map_option (\<lambda>n. ''  '' @ n @ '' = '' @ val @ nl) (table_at bus_names bus)"

definition print_bus_reg :: "nat \<Rightarrow> u32 \<Rightarrow> string option" where
  "print_bus_reg bus r = print_bus bus (CHR ''R'' # dec_string (unat r))"

definition print_bus_name :: "decode_bench \<Rightarrow> nat \<Rightarrow> nat \<Rightarrow> string \<Rightarrow> string option" where
  "print_bus_name s sg base_bus name = (if geti sg s \<noteq> 0 then print_bus (sg - base_bus) name else Some [])"

text \<open>The first constant signal that is set.\<close>

fun const_name :: "decode_bench \<Rightarrow> (string \<times> string) list \<Rightarrow> string" where
  "const_name s [] = ''CONST ERROR''"
| "const_name s ((sg, n) # cs) = (if geti (SIG sg) s \<noteq> 0 then n else const_name s cs)"

definition print_bus_const :: "decode_bench \<Rightarrow> nat \<Rightarrow> nat \<Rightarrow> string option" where
  "print_bus_const s sg base_bus =
     (let total = sum_list (map (\<lambda>c. geti (SIG c) s) const_signals) in
      if geti sg s \<noteq> 0 then
        print_bus (sg - base_bus) (if total = 1 then const_name s (zip const_signals const_names) else ''CONST ERROR'')
      else Some [])"

definition print_mem_issue :: "decode_bench \<Rightarrow> string option" where
  "print_mem_issue s =
     (case table_at ma_sz_names (unat (geti (SIG ''EX_MA_SZ'') s)) of None \<Rightarrow> None
      | Some sz \<Rightarrow>
          (let addr = (if geti (SIG ''EX_WRMAAD_Z'') s \<noteq> 0 then ''Z'' else if geti (SIG ''EX_WRMAAD_TEMP'') s \<noteq> 0 then ''TEMP'' else ''X'');
               data = (if geti (SIG ''EX_WRMADW_X'') s \<noteq> 0 then ''X'' else if geti (SIG ''EX_WRMADW_Y'') s \<noteq> 0 then ''Y'' else ''Z'')
           in Some ((if geti (SIG ''EX_MA_WR'') s \<noteq> 0 then ''  MEM['' @ addr @ ''] = '' @ data else ''  W = MEM['' @ addr @ '']'')
                    @ '' '' @ sz @ nl)))"

text \<open>The text for signal \<open>i\<close>: the cases of the switch in \<open>change_fn\<close>.\<close>

definition sig_text :: "decode_bench \<Rightarrow> nat \<Rightarrow> string" where
  "sig_text s i = (case sig_value (sig_at s i) of None \<Rightarrow> ''(null)'' | Some v \<Rightarrow> cstr v)"

definition change_line :: "decode_bench \<Rightarrow> nat \<Rightarrow> string option" where
  "change_line s i =
     (if i \<in> set (SIGS [''INSTR_STATE'', ''CLK'', ''SLOT'', ''EVENT_REQ'', ''EVENT_ACK'', ''EX_REGNUM_X'', ''EX_REGNUM_Y'', ''EX_REGNUM_Z'',
         ''WB_REGNUM_W'', ''EX_MA_WR'', ''EX_MA_SZ'', ''EX_WRMAAD_Z'', ''EX_WRMAAD_TEMP'', ''EX_WRMADW_X'', ''EX_WRMADW_Y'', ''INSTR_SEQ''])
      then Some []
      else if i = SIG ''IF_DR'' then
        Some (if bv_get (events s) i then ''  Instr '' @ print_instr (ucast (geti i s)) @ '' '' @ sig_text s i @ nl else [])
      else if i = SIG ''EX_ALUFUNC'' then
        (if geti i s \<noteq> 0 then
           map_option (\<lambda>f. ''  ALUFUNC = '' @ fst f @ '' '' @ snd f @ nl) (table_at alu_funcs (unat (geti i s)))
         else Some [])
      else if i \<in> set (SIGS [''EX_RDREG_X'', ''EX_RDREG_Y'', ''EX_WRREG_Z'', ''WB_WRREG_W'']) then
        (if geti i s \<noteq> 0 then print_bus_reg (i - SIG ''EX_RDREG_X'') (geti (i - SIG ''EX_RDREG_X'' + SIG ''EX_REGNUM_X'') s) else Some [])
      else if i \<in> set (SIGS [''EX_RDSR_X'', ''EX_RDSR_Y'', ''EX_WRSR_Z'', ''WB_WRSR_W'']) then print_bus_name s i (SIG ''EX_RDSR_X'') ''SR''
      else if i \<in> set (SIGS [''EX_RDGBR_X'', ''EX_RDGBR_Y'', ''EX_WRGBR_Z'', ''WB_WRGBR_W'']) then print_bus_name s i (SIG ''EX_RDGBR_X'') ''GBR''
      else if i \<in> set (SIGS [''EX_RDVBR_X'', ''EX_RDVBR_Y'', ''EX_WRVBR_Z'', ''WB_WRVBR_W'']) then print_bus_name s i (SIG ''EX_RDVBR_X'') ''VBR''
      else if i \<in> set (SIGS [''EX_RDPR_X'', ''EX_RDPR_Y'', ''EX_WRPR_Z'', ''WB_WRPR_W'']) then print_bus_name s i (SIG ''EX_RDPR_X'') ''PR''
      else if i \<in> set (SIGS [''EX_RDPC_X'', ''EX_RDPC_Y'', ''EX_WRPC_Z'', ''EX_WRPC_W'']) then print_bus_name s i (SIG ''EX_RDPC_X'') ''PC''
      else if i \<in> set (SIGS [''EX_RDCONST_X'', ''EX_RDCONST_Y'']) then print_bus_const s i (SIG ''EX_RDCONST_X'')
      else if i \<in> set (SIGS const_signals) then
        (if geti (SIG ''EX_RDCONST_X'') s = 0 \<and> geti (SIG ''EX_RDCONST_Y'') s = 0 \<and> geti i s \<noteq> 0 then
           map_option (\<lambda>n. ''  CONST = '' @ n @ nl) (table_at const_names (i - SIG ''EX_CONST_ZERO4''))
         else Some [])
      else if i = SIG ''EX_MA_ISSUE'' then (if geti i s \<noteq> 0 then print_mem_issue s else Some [])
      else Some (if geti i s \<noteq> 0 then ''  '' @ drop 7 (sig_name (sig_at s i)) @ '' = '' @ sig_text s i @ nl else []))"

fun change_lines :: "decode_bench \<Rightarrow> nat list \<Rightarrow> string option" where
  "change_lines s [] = Some []"
| "change_lines s (i # is) = (case change_line s i of None \<Rightarrow> None | Some l \<Rightarrow> map_option (append l) (change_lines s is))"

section \<open>Running the bench\<close>

definition change_fn :: "decode_bench \<Rightarrow> int \<times> decode_bench" where
  "change_fn s =
     (0,
      if bv_get (events s) (SIG ''CLK'') \<and> geti (SIG ''CLK'') s \<noteq> 0 then
        (case change_lines s [0..<length decode_signal_names] of
           None \<Rightarrow> s\<lparr>wild_write := True\<rparr>
         | Some txt \<Rightarrow> s\<lparr>console := console s @ txt\<rparr>)
      else s)"

definition decode_call :: "decode_cb \<Rightarrow> nat \<Rightarrow> decode_bench \<Rightarrow> int \<times> decode_bench" where
  "decode_call c h s = change_fn s"

definition wait_for :: "u64 \<Rightarrow> decode_bench \<Rightarrow> decode_bench option" where
  "wait_for d s = sim_wait_time decode_call d True s"

definition cycle_clock :: "decode_bench \<Rightarrow> decode_bench option" where
  "cycle_clock s = Option.bind (wait_for 5000 (seti (SIG ''CLK'') 1 s)) (\<lambda>s1. wait_for 5000 (seti (SIG ''CLK'') 0 s1))"

partial_function (option) micro_steps :: "nat \<Rightarrow> decode_bench \<Rightarrow> (nat \<times> decode_bench) option" where
  "micro_steps num_cycles s =
     Option.bind (cycle_clock (s\<lparr>console := console s @ ''Microcode step '' @ dec_string num_cycles @ nl\<rparr>)) (\<lambda>s1.
       let (d, s2) = sim_geti decode_call (SIG ''DISPATCH'') s1 in
       if d = 0 then micro_steps (num_cycles + 1) s2 else Some (num_cycles + 1, s2))"

definition hex4 :: "u16 \<Rightarrow> string" where
  "hex4 v = (let h = hex_string (unat v) in replicate (4 - length h) CHR ''0'' @ h)"

definition send_instr :: "u16 \<Rightarrow> decode_bench \<Rightarrow> (nat \<times> decode_bench) option" where
  "send_instr inst s =
     (let s1 = s\<lparr>console := console s @ ''Send instr '' @ hex4 inst @ '' '' @ print_instr inst @ '' at '' @ dec_string (unat (picos s div 1000)) @ nl\<rparr>
      in micro_steps 0 (seti (SIG ''IF_DR'') (ucast inst) (seti (SIG ''CLK'') 0 s1)))"

text \<open>The reset, from the simulator that \<open>sim_new\<close> has started; hook 1 is \<open>h1\<close>.\<close>

definition decode_reset :: "decode_bench \<Rightarrow> decode_bench option" where
  "decode_reset s =
     (let s1 = fold (\<lambda>(n, v) s. seti (SIG n) v s)
            [(''CLK'', 0), (''RST'', 1), (''SLOT'', 1), (''IF_DR'', 0), (''IF_STALL'', 0), (''MAC_BUSY'', 0), (''T_BCC'', 0),
             (''EVENT_REQ'', 7), (''EVENT_INFO'', 0), (''IBIT'', 0)] s
      in Option.bind (wait_for 20000 s1) (\<lambda>s2.
         Option.bind (wait_for 10000 (seti (SIG ''RST'') 0 s2)) (\<lambda>s3.
         map_option
           (\<lambda>s4. sim_hook_add 1 (fold (\<lambda>i. watch_signal 1 True i) [0..<length decode_signal_names]
                    (snd (sim_hook_init 1 (User_Cb Change_Fn) s4))))
           (wait_for 5000 (seti (SIG ''INSTR_SEQ'') 0 s3)))))"

text \<open>The number is cut to an \<open>int\<close>, so that a negative one passes the test.\<close>

definition decode_arg :: "string \<Rightarrow> u16 option" where
  "decode_arg a =
     (case strtol a 16 of (v, rest) \<Rightarrow>
        let instr = word_of_int v :: u32 in if rest = [] \<and> sint instr < 0x10000 then Some (ucast instr) else None)"

fun decode_args :: "string list \<Rightarrow> decode_bench \<Rightarrow> decode_bench option" where
  "decode_args [] s = Some s"
| "decode_args (a # as) s =
     (case decode_arg a of
        Some inst \<Rightarrow> Option.bind (send_instr inst s) (\<lambda>(n, s1). decode_args as s1)
      | None \<Rightarrow> decode_args as (s\<lparr>console := console s @ ''invalid '' @ a @ nl\<rparr>))"

definition decode_main :: "string list \<Rightarrow> decode_bench \<Rightarrow> decode_bench option" where
  "decode_main args s = Option.bind (decode_reset s) (decode_args args)"


section \<open>No table is left\<close>

lemma bits_value_bits:
  "bits_value v cs = Some w \<Longrightarrow> (\<And>n. bit v n \<Longrightarrow> n < k) \<Longrightarrow> bit w n \<Longrightarrow> n < k + length cs"
proof (induction cs arbitrary: v k)
  case (Cons c cs)
  have "n' < Suc k" if "bit (push_bit 1 v) n' \<or> bit (push_bit 1 v OR 1) n'" for n'
    using that Cons.prems(2) [of "n' - 1"] unfolding bit_or_iff bit_push_bit_iff bit_1_iff by (cases n') auto
  then show ?case
    using Cons.IH [of "push_bit 1 v" "Suc k"] Cons.IH [of "push_bit 1 v OR 1" "Suc k"] Cons.prems by (auto split: if_splits)
qed simp

text \<open>A signal of \<open>n\<close> bits holds a number below \<open>2 ^ n\<close>.\<close>

lemma geti_less:
  assumes "value_len (sig_at s i) \<le> n"
  shows "unat (geti i s) < 2 ^ n"
proof -
  have "bit (geti i s) k \<Longrightarrow> k < n" for k
    using assms bits_value_bits [of 0 _ _ 0 k] by (fastforce simp: geti_def geti_check_def split: option.splits if_splits)
  then have "take_bit n (geti i s) = geti i s" by (intro bit_word_eqI) (auto simp: bit_simps)
  then have "unat (geti i s) = take_bit n (unat (geti i s))" by (metis unsigned_take_bit_eq)
  then show ?thesis by (metis take_bit_nat_less_exp)
qed

lemma print_bus_defined: "bus < 4 \<Longrightarrow> \<exists>t. print_bus bus val = Some t"
  by (simp add: print_bus_def table_at_def bus_names_def)

lemma print_mem_issue_defined: "value_len (sig_at s (SIG ''EX_MA_SZ'')) \<le> 2 \<Longrightarrow> \<exists>t. print_mem_issue s = Some t"
  using geti_less [of s "SIG ''EX_MA_SZ''" 2] by (simp add: print_mem_issue_def table_at_def ma_sz_names_def Let_def)

text \<open>The signals of a bus, and the constants, follow each other in the enumeration.\<close>

lemma sig_numbers:
  "SIGS [''EX_RDREG_X'', ''EX_RDREG_Y'', ''EX_WRREG_Z'', ''WB_WRREG_W''] = map (\<lambda>k. SIG ''EX_RDREG_X'' + k) [0, 1, 2, 3]"
  "SIGS [''EX_RDSR_X'', ''EX_RDSR_Y'', ''EX_WRSR_Z'', ''WB_WRSR_W''] = map (\<lambda>k. SIG ''EX_RDSR_X'' + k) [0, 1, 2, 3]"
  "SIGS [''EX_RDGBR_X'', ''EX_RDGBR_Y'', ''EX_WRGBR_Z'', ''WB_WRGBR_W''] = map (\<lambda>k. SIG ''EX_RDGBR_X'' + k) [0, 1, 2, 3]"
  "SIGS [''EX_RDVBR_X'', ''EX_RDVBR_Y'', ''EX_WRVBR_Z'', ''WB_WRVBR_W''] = map (\<lambda>k. SIG ''EX_RDVBR_X'' + k) [0, 1, 2, 3]"
  "SIGS [''EX_RDPR_X'', ''EX_RDPR_Y'', ''EX_WRPR_Z'', ''WB_WRPR_W''] = map (\<lambda>k. SIG ''EX_RDPR_X'' + k) [0, 1, 2, 3]"
  "SIGS [''EX_RDPC_X'', ''EX_RDPC_Y'', ''EX_WRPC_Z'', ''EX_WRPC_W''] = map (\<lambda>k. SIG ''EX_RDPC_X'' + k) [0, 1, 2, 3]"
  "SIGS [''EX_RDCONST_X'', ''EX_RDCONST_Y''] = map (\<lambda>k. SIG ''EX_RDCONST_X'' + k) [0, 1]"
  "SIGS const_signals = map (\<lambda>k. SIG ''EX_CONST_ZERO4'' + k) [0, 1, 2, 3, 4, 5, 6, 7, 8]"
  by code_simp+

lemma bus_index: "i \<in> set (map (\<lambda>k. b + k) ks) \<Longrightarrow> \<forall>k\<in>set ks. k < n \<Longrightarrow> i - b < (n :: nat)"
  by auto

lemma text_defined:
  "(c \<Longrightarrow> \<exists>t. a = Some t) \<Longrightarrow> \<exists>t. b = Some t \<Longrightarrow> \<exists>t. (if c then a else b) = Some t"
  "\<exists>t. x = Some t \<Longrightarrow> \<exists>t. map_option f x = Some t" "\<exists>t. Some y = Some t"
  by simp_all

lemma change_line_defined:
  assumes "value_len (sig_at s (SIG ''EX_ALUFUNC'')) \<le> 5" "value_len (sig_at s (SIG ''EX_MA_SZ'')) \<le> 2"
  shows "\<exists>t. change_line s i = Some t"
proof -
  have b: "\<exists>t. print_bus_name s i b n = Some t" "\<exists>t. print_bus_reg (i - b) r = Some t" "\<exists>t. print_bus_const s i b = Some t"
    if "i \<in> set (map (\<lambda>k. b + k) ks)" "\<forall>k\<in>set ks. k < 4" for b ks n r
    using print_bus_defined bus_index [OF that] by (simp_all add: print_bus_name_def print_bus_reg_def print_bus_const_def Let_def)
  have alu: "\<exists>t. table_at alu_funcs (unat (geti (SIG ''EX_ALUFUNC'') s)) = Some t"
    using geti_less [OF assms(1)] by (simp add: table_at_def alu_funcs_def)
  have const: "\<exists>t. table_at const_names (i - SIG ''EX_CONST_ZERO4'') = Some t" if "i \<in> set (SIGS const_signals)"
    using bus_index [OF that [unfolded sig_numbers(8)], of 9] by (simp add: table_at_def const_names_def)
  show ?thesis
    unfolding change_line_def sig_numbers
    by (intro text_defined; (simp only: alu)?; (simp only: print_mem_issue_defined [OF assms(2)])?;
        (erule const [unfolded sig_numbers])?; (erule b; simp)?)
qed

text \<open>
  C38: The decoding bench never reads behind the end of one of its tables: as long as the function of the ALU is a
  signal of at most 5 bits and the size of a memory access one of at most 2, the text for every signal is defined,
  since the four signals of each bus, and the nine constants, follow each other in the enumeration of the signals.
\<close>

theorem change_fn_in_bounds:
  assumes "value_len (sig_at s (SIG ''EX_ALUFUNC'')) \<le> 5" "value_len (sig_at s (SIG ''EX_MA_SZ'')) \<le> 2"
  shows "wild_write (snd (change_fn s)) = wild_write s"
proof -
  have "\<exists>t. change_lines s is = Some t" for "is"
  proof (induction "is")
    case (Cons i "is")
    then show ?case using change_line_defined [OF assms, of i] by auto
  qed simp
  then obtain t where "change_lines s [0..<length decode_signal_names] = Some t" by blast
  then show ?thesis by (simp add: change_fn_def)
qed

definition decode_demo :: decode_bench where
  "decode_demo =
     \<lparr>sim_kind = SIM_TYPE_IVERILOG, signals = map (\<lambda>g. g\<lparr>sig_value := Some ''1'', value_len := 1\<rparr>) decode_signals, on_exit = SIMEXIT_EXIT,
      child_running = True, exit_status = 0, picos = 0, pico_scale = 1,
      lr = line_reader_init, rd_script = [], pty_out = [], io_error = False, any_event = True, dirty_writes = False,
      events = bv_set (snd (bv_init empty_bv 128)) 0 True,
      calling_hooks = True, hook_of = (\<lambda>_. \<lparr>hk_cb = Sig_Wait_Cb, hk_signals = empty_bv, hk_time = 0\<rparr>), hooks = [], immediate_hooks = [],
      sig_wait_occurred = False, echo_arg = 0, wild_write = False, console = []\<rparr>"

theorem change_fn_in_bounds_witness: "\<not> wild_write (snd (change_fn decode_demo))"
proof -
  have "SIG ''EX_ALUFUNC'' < 128" "SIG ''EX_MA_SZ'' < 128" by code_simp+
  moreover have "length decode_signals = 128" by (simp add: decode_signals_def decode_signal_names_def)
  ultimately have n: "SIG ''EX_ALUFUNC'' < length decode_signals" "SIG ''EX_MA_SZ'' < length decode_signals" by simp_all
  have "value_len (sig_at decode_demo i) = 1" if "i < length decode_signals" for i using that by (simp add: decode_demo_def sig_at_def)
  then have "value_len (sig_at decode_demo (SIG ''EX_ALUFUNC'')) \<le> 5" "value_len (sig_at decode_demo (SIG ''EX_MA_SZ'')) \<le> 2"
    using n by simp_all
  from change_fn_in_bounds [OF this] show ?thesis by (simp add: decode_demo_def)
qed

end
