(* ===== verification/Packet_Gen.thy ===== *)
theory Packet_Gen
  imports C_String
begin

text \<open>
  The packet generator (src/sim/sim/packet_gen.c): it prints a VHDL test bench that plays back words of a
  serial link, each with 8 bits of data, a control flag, a valid flag, a disparity and an error flag. The
  numbers \<open>rand\<close> gives are a parameter.
\<close>

section \<open>State\<close>

record packet_gen =
  pg_parity :: u32
  pg_tm :: u32
  pg_rand :: "nat \<Rightarrow> u64"
  pg_rands :: nat
  pg_out :: string

definition K_28_1 :: u64 where "K_28_1 = 0x3c"
definition K_28_5 :: u64 where "K_28_5 = 0xbc"
definition D_10_2 :: u64 where "D_10_2 = 0x4a"
definition IDLE_CNT :: int where "IDLE_CNT = 5"
definition PT_INIT :: u32 where "PT_INIT = push_bit 7 1"
definition PT_CTRL :: u32 where "PT_CTRL = push_bit 6 0"
definition PT_ISOC :: u32 where "PT_ISOC = push_bit 5 0"
definition PT_TIME_F :: u32 where "PT_TIME_F = PT_CTRL OR PT_ISOC OR 0x01"

section \<open>Words\<close>

definition flag :: "bool \<Rightarrow> char" where
  "flag b = (if b then CHR ''1'' else CHR ''0'')"

definition word_bits :: "int \<Rightarrow> u64 \<Rightarrow> string" where
  "word_bits k v = map (\<lambda>b. flag (bit v b)) (rev [0..<8]) @ [flag (k \<noteq> 0), flag (k \<ge> 0), CHR ''0'', flag (k < - 1)]"

definition dump_word :: "int \<Rightarrow> u64 \<Rightarrow> packet_gen \<Rightarrow> u32 \<times> packet_gen" where
  "dump_word k v0 s =
     (let (v, s1) = (if k < 0 then (pg_rand s (pg_rands s), s\<lparr>pg_rands := pg_rands s + 1\<rparr>) else (v0, s));
          line = ''   '' @ [CHR 0x22] @ word_bits k v @ [CHR 0x22] @ '' after '' @ print_d (pg_tm s1 * 80) @ '' ns,'' @ [CHR 0x0A];
          p = (if k \<noteq> 0 then 0 else pg_parity s1 XOR ucast v)
      in (p AND 0xff, s1\<lparr>pg_out := pg_out s1 @ line, pg_tm := pg_tm s1 + 1, pg_parity := p\<rparr>))"

definition put_word :: "int \<Rightarrow> u64 \<Rightarrow> packet_gen \<Rightarrow> packet_gen" where
  "put_word k v s = snd (dump_word k v s)"

section \<open>Packets\<close>

text \<open>The parity byte is a local variable that only the loop over the data sets; \<open>p0\<close> is what it holds before.\<close>

definition dump_packet :: "u32 \<Rightarrow> int \<Rightarrow> u32 \<Rightarrow> u32 \<Rightarrow> u8 list \<Rightarrow> packet_gen \<Rightarrow> packet_gen" where
  "dump_packet p0 typ seq off data s =
     (let s1 = put_word 0 (ucast off) (put_word 0 (ucast (drop_bit 8 off)) (put_word 0 (ucast (drop_bit 16 off))
                 (put_word 0 (ucast seq) (put_word 0 (of_int typ) (put_word 1 K_28_5 s)))));
          (p, s2) = fold (\<lambda>d (p, s). dump_word 0 (ucast d) s) data (p0, s1)
      in put_word 1 K_28_1 (put_word 0 (ucast p) s2))"

definition dump_idle :: "int \<Rightarrow> int \<Rightarrow> packet_gen \<Rightarrow> packet_gen" where
  "dump_idle cd num s = (put_word cd (if cd \<noteq> 0 then K_28_1 else D_10_2) ^^ nat num) s"

section \<open>The test bench\<close>

definition header_lines :: "string list" where
  "header_lines =
     [''library ieee;'',
      ''use ieee.std_logic_1164.all;'',
      ''use std.textio.all;'',
      [],
      ''use work.serdes_pack.all;'',
      [],
      ''entity deframe_tb is'',
      ''end deframe_tb;'',
      [],
      ''architecture tb of deframe_tb is'',
      [],
      ''   signal rom : std_logic_vector(11 downto 0);'',
      ''   signal dfi : frame_dec_i_t;'',
      ''   signal dfo : frame_dec_o_t;'',
      ''   signal tmi : timeoffset_i_t;'',
      ''   signal tmo : timeoffset_o_t;'',
      [],
      ''   signal clk : std_logic;'',
      ''   signal rst : std_logic;'',
      ''   signal g   : std_logic;'',
      ''begin'',
      [],
      ''   dfi.d.d    <= rom(11 downto 4);'',
      ''   dfi.d.k    <= rom(3);'',
      ''   dfi.d.v    <= rom(2) and g;'',
      ''   dfi.d.disp <= rom(1);'',
      ''   dfi.d.err  <= rom(0);'',
      [],
      ''   rst   <= '' @ [CHR 0x27] @ ''1'' @ [CHR 0x27] @ '', '' @ [CHR 0x27] @ ''0'' @ [CHR 0x27] @ '' after 15 ns;'',
      ''   clk <= '' @ [CHR 0x27] @ ''0'' @ [CHR 0x27] @ '' after 4 ns when clk = '' @ [CHR 0x27] @ ''1'' @ [CHR 0x27] @ '' else '' @ [CHR 0x27] @ ''1'' @ [CHR 0x27] @ '' after 4 ns;'',
      ''   g   <= '' @ [CHR 0x27] @ ''1'' @ [CHR 0x27] @ '', '' @ [CHR 0x27] @ ''0'' @ [CHR 0x27] @ '' after 8 ns when g = '' @ [CHR 0x27] @ ''1'' @ [CHR 0x27] @ '' else '' @ [CHR 0x27] @ ''1'' @ [CHR 0x27] @ '' after 72 ns;'',
      [],
      ''   df0 : frame_dec port map(rst => rst, clk => clk, a => dfi, y => dfo);'',
      [],
      ''   tmi.d   <= dfo;'',
      ''   tmi.phs <= (others => '' @ [CHR 0x27] @ ''0'' @ [CHR 0x27] @ '');'',
      [],
      ''   tm0 : timecnt port map(rst => rst, clk => clk, a => tmi, y => tmo);'',
      [],
      ''   rom <= '' @ [CHR 0x22] @ ''000000000000'' @ [CHR 0x22] @ '','']"

definition dump_header :: "packet_gen \<Rightarrow> packet_gen" where
  "dump_header s = s\<lparr>pg_out := pg_out s @ concat (map (\<lambda>l. l @ [CHR 0x0A]) header_lines)\<rparr>"

definition dump_footer :: "packet_gen \<Rightarrow> packet_gen" where
  "dump_footer s =
     s\<lparr>pg_out := pg_out s @ ''   '' @ [CHR 0x22] @ ''000000000000'' @ [CHR 0x22] @ '' after '' @ print_d (pg_tm s * 80) @ '' ns;'' @ [CHR 0x0A]
         @ ''end tb;'' @ [CHR 0x0A]\<rparr>"

definition ts0 :: "u8 list" where "ts0 = [1, 2, 3, 4, 5, 6, 7, 8, 9, 0]"
definition ts1 :: "u8 list" where "ts1 = [0, 1, 2, 3, 4, 5, 6, 7, 8, 9]"
definition ts2 :: "u8 list" where "ts2 = [9, 0, 1, 2, 3, 4, 5, 6, 7, 8]"

definition packet_gen_main :: "(nat \<Rightarrow> u64) \<Rightarrow> u32 \<Rightarrow> string" where
  "packet_gen_main rnd p0 =
     (let s = \<lparr>pg_parity = 0, pg_tm = 1, pg_rand = rnd, pg_rands = 0, pg_out = []\<rparr>;
          idle = dump_idle 1 IDLE_CNT;
          s1 = idle (dump_idle 0 IDLE_CNT (dump_idle (- 1) 10 (dump_idle (- 2) 10 (dump_header s))));
          s2 = idle (dump_packet p0 (uint (PT_TIME_F OR PT_INIT)) 5 0x111111 ts0 s1);
          s3 = idle (dump_packet p0 (uint (PT_TIME_F OR PT_INIT)) 6 0x122222 ts1 s2);
          s4 = idle (dump_packet p0 (uint (PT_TIME_F OR PT_INIT)) 7 0x133333 ts2 s3);
          s5 = idle (put_word 0 3 (put_word 1 K_28_5 (put_word 0 2 (put_word 0 5 s4))));
          s6 = idle (put_word 1 K_28_5 (put_word 1 K_28_5 s5))
      in pg_out (dump_footer s6))"

section \<open>Frames\<close>

text \<open>The text of words at consecutive times.\<close>

fun word_lines :: "u32 \<Rightarrow> (int \<times> u64) list \<Rightarrow> string" where
  "word_lines t [] = []"
| "word_lines t ((k, v) # ws) =
     ''   '' @ [CHR 0x22] @ word_bits k v @ [CHR 0x22] @ '' after '' @ print_d (t * 80) @ '' ns,'' @ [CHR 0x0A] @ word_lines (t + 1) ws"

definition xor_all :: "u64 list \<Rightarrow> u32" where
  "xor_all vs = fold (\<lambda>v p. p XOR ucast v) vs 0"

definition frame_data :: "int \<Rightarrow> u32 \<Rightarrow> u32 \<Rightarrow> u8 list \<Rightarrow> u64 list" where
  "frame_data typ seq off data =
     [of_int typ, ucast seq, ucast (drop_bit 16 off), ucast (drop_bit 8 off), ucast off] @ map ucast data"

lemma word_lines_append: "word_lines t (ws @ vs) = word_lines t ws @ word_lines (t + of_nat (length ws)) vs"
  by (induction t ws rule: word_lines.induct) (simp_all add: algebra_simps)

text \<open>A run of words without random ones.\<close>

definition put_words :: "(int \<times> u64) list \<Rightarrow> packet_gen \<Rightarrow> packet_gen" where
  "put_words ws s = fold (\<lambda>(k, v). put_word k v) ws s"

lemma put_words_out:
  "list_all (\<lambda>(k, v). 0 \<le> k) ws \<Longrightarrow>
   pg_out (put_words ws s) = pg_out s @ word_lines (pg_tm s) ws \<and> pg_tm (put_words ws s) = pg_tm s + of_nat (length ws)"
proof (induction ws arbitrary: s)
  case (Cons w ws)
  obtain k v where w: "w = (k, v)" by fastforce
  let ?s = "put_word k v s"
  have s: "pg_out ?s = pg_out s @ word_lines (pg_tm s) [(k, v)]" "pg_tm ?s = pg_tm s + 1"
    using Cons.prems by (simp_all add: w put_word_def dump_word_def Let_def)
  have "put_words (w # ws) s = put_words ws ?s" by (simp add: put_words_def w)
  then show ?case using Cons.IH [of ?s] Cons.prems s by (simp add: w algebra_simps)
qed (simp add: put_words_def)

lemma put_words_parity:
  "pg_parity (put_words (map (Pair 0) vs) s) = fold (\<lambda>v p. p XOR ucast v) vs (pg_parity s)"
  by (induction vs arbitrary: s) (simp_all add: put_words_def put_word_def dump_word_def Let_def)

lemma data_words:
  "data \<noteq> [] \<Longrightarrow> fold (\<lambda>d (p, s). dump_word 0 (ucast d) s) data (p0, s) =
     (pg_parity (put_words (map (\<lambda>d. (0, ucast d)) data) s) AND 0xff, put_words (map (\<lambda>d. (0, ucast d)) data) s)"
proof (induction data rule: rev_nonempty_induct)
  case (single d)
  then show ?case by (simp add: put_words_def put_word_def dump_word_def Let_def)
next
  case (snoc d data)
  then show ?case by (simp add: put_words_def put_word_def dump_word_def Let_def split: prod.split)
qed

text \<open>
  C39: A packet with data is a frame: the start word, the type, the sequence number and the three bytes of the
  offset, the data, one parity byte and the end word, at consecutive times. The parity byte is the exclusive or
  of all bytes before it, so that those of the frame together give 0.
\<close>

theorem packet_is_framed:
  assumes "data \<noteq> []"
  shows "\<exists>p. pg_out (dump_packet p0 typ seq off data s) =
      pg_out s @ word_lines (pg_tm s) ([(1, K_28_5)] @ map (Pair 0) (frame_data typ seq off data @ [p]) @ [(1, K_28_1)]) \<and>
    xor_all (frame_data typ seq off data @ [p]) AND 0xff = 0 \<and> p < 0x100"
proof -
  let ?vs = "frame_data typ seq off data"
  define t where "t = put_words ((1, K_28_5) # map (Pair 0) ?vs) s"
  define p where "p = (ucast (pg_parity t AND 0xff) :: u64)"
  have m: "map (\<lambda>d. (0 :: int, ucast d :: u64)) data = map (Pair 0) (map ucast data)" by simp
  have pk: "dump_packet p0 typ seq off data s = put_words [(0, p), (1, K_28_1)] t"
    using data_words [OF assms] by (simp add: dump_packet_def t_def p_def put_words_def frame_data_def Let_def comp_def)
  have "dump_packet p0 typ seq off data s = put_words ([(1, K_28_5)] @ map (Pair 0) (?vs @ [p]) @ [(1, K_28_1)]) s"
    unfolding pk t_def by (simp add: put_words_def)
  then have out: "pg_out (dump_packet p0 typ seq off data s) =
      pg_out s @ word_lines (pg_tm s) ([(1, K_28_5)] @ map (Pair 0) (?vs @ [p]) @ [(1, K_28_1)])"
    using put_words_out [of "[(1, K_28_5)] @ map (Pair 0) (?vs @ [p]) @ [(1, K_28_1)]" s] by (simp add: list_all_iff)
  have "pg_parity t = xor_all ?vs"
    using put_words_parity [of ?vs "put_word 1 K_28_5 s"]
    by (simp add: t_def xor_all_def put_words_def put_word_def dump_word_def Let_def)
  moreover have uu: "ucast (ucast x :: u64) = (x :: u32)" for x by (rule bit_word_eqI) (simp add: bit_simps)
  ultimately have "xor_all (?vs @ [p]) = pg_parity t XOR (pg_parity t AND 0xff)" by (simp add: xor_all_def p_def uu)
  then have "xor_all (?vs @ [p]) AND 0xff = 0" by (auto intro!: bit_eqI simp: bit_simps)
  moreover have "pg_parity t AND 0xff \<le> 0xff" by (rule word_and_le1)
  then have "unat (pg_parity t AND 0xff) \<le> 0xff" by (simp add: word_le_nat_alt)
  then have "p < 0x100" unfolding p_def word_less_nat_alt by (simp add: unsigned_ucast_eq take_bit_nat_eq_self)
  ultimately show ?thesis using out by blast
qed

theorem packet_is_framed_witness:
  "\<exists>p. pg_out (dump_packet 0 0x81 5 0x111111 ts0 \<lparr>pg_parity = 0, pg_tm = 1, pg_rand = (\<lambda>_. 0), pg_rands = 0, pg_out = []\<rparr>) =
     word_lines 1 ([(1, K_28_5)] @ map (Pair 0) (frame_data 0x81 5 0x111111 ts0 @ [p]) @ [(1, K_28_1)])"
  using packet_is_framed [of ts0 0 "0x81" 5 "0x111111" "\<lparr>pg_parity = 0, pg_tm = 1, pg_rand = (\<lambda>_. 0), pg_rands = 0, pg_out = []\<rparr>"]
  by (auto simp: ts0_def)

end
