(* ===== verification/Vpi_Bridge.thy ===== *)
theory Vpi_Bridge
  imports Sim_Cmd Delays
begin

text \<open>
  The bridge between a bench and Icarus Verilog (src/sim/sim/vpibridge.c): a module inside the Verilog
  simulator reads the commands of simulator.c from standard input and answers on standard output. The
  simulator is reached through the Verilog Procedural Interface, which is not part of the repository: its
  functions are the fields of \<open>vpi\<close>, over a state \<open>'w\<close> of the simulator. Standard input is the text still to be
  read; diagnostics on standard error are left out; allocation succeeds.
\<close>

section \<open>The procedural interface\<close>

text \<open>The formats of a value that the code tells apart: the string formats in their order, and all others.\<close>

datatype val_format = vpiBinStrVal | vpiOctStrVal | vpiDecStrVal | vpiHexStrVal | vpiOtherVal

record vpi_signal =
  vs_name :: string
  vs_hnd :: nat

text \<open>A callback with what the code puts into \<open>t_cb_data\<close>: its reason and routine, and a time or a signal.\<close>

datatype cb_data = Start_Cb | Wait_Cb u32 u32 | Echo_Cb u32 u32 | Value_Cb vpi_signal

text \<open>What a value change reports: the signal it was registered with, the time (high, low) and the value.\<close>

record change =
  ch_signal :: vpi_signal
  ch_time :: "u32 \<times> u32"
  ch_format :: val_format
  ch_value :: string

text \<open>
  A handle of 0 is \<open>NULL\<close>. \<open>vpi_put_value\<close> also gives the value changes it reports before it returns;
  \<open>vpi_get_value\<close> is asked for a binary string and gives the format of its answer.
\<close>

record 'w vpi =
  vpi_get_time :: "'w \<Rightarrow> u32 \<times> u32"
  vpi_handle_by_name :: "string \<Rightarrow> 'w \<Rightarrow> nat"
  vpi_get_value :: "nat \<Rightarrow> 'w \<Rightarrow> val_format \<times> string"
  vpi_put_value :: "nat \<Rightarrow> string \<Rightarrow> 'w \<Rightarrow> change list \<times> 'w"
  vpi_register_cb :: "cb_data \<Rightarrow> 'w \<Rightarrow> nat \<times> 'w"
  vpi_remove_cb :: "nat \<Rightarrow> 'w \<Rightarrow> 'w"
  vpi_free_object :: "nat \<Rightarrow> 'w \<Rightarrow> 'w"
  vpi_sim_control :: "'w \<Rightarrow> 'w"

section \<open>The bridge\<close>

text \<open>The statics of the module. The hash table of signals is the list of its entries.\<close>

record 'w bridge =
  vsignals :: "vpi_signal list"
  dirty :: bool
  echo_pending :: bool
  echo_reply :: u32
  active_wait :: nat
  read_cmds_on_val_change :: bool
  is_waiting :: bool
  cmd_in :: string
  msg_out :: string
  world :: 'w

definition time2num :: "u32 \<times> u32 \<Rightarrow> u64" where
  "time2num t = (push_bit 32 (ucast (fst t)) OR ucast (snd t))"

definition get_sim_time :: "'w vpi \<Rightarrow> 'w bridge \<Rightarrow> u64" where
  "get_sim_time v s = time2num (vpi_get_time v (world s))"

text \<open>
  Everything the bridge prints goes to one stream: \<open>read_signal\<close> uses \<open>printf\<close> and the others \<open>vpi_printf\<close>, and the simulator's
  \<open>vpi_printf\<close> is taken to write to the standard output in the order of the calls too.
\<close>

definition vpi_printf :: "string \<Rightarrow> 'w bridge \<Rightarrow> 'w bridge" where
  "vpi_printf txt s = s\<lparr>msg_out := msg_out s @ txt @ [CHR 0x0A]\<rparr>"

definition vpi_print_time :: "'w vpi \<Rightarrow> 'w bridge \<Rightarrow> 'w bridge" where
  "vpi_print_time v s = vpi_printf (''t '' @ dec_string (unat (get_sim_time v s))) s"

definition check_wait :: "'w vpi \<Rightarrow> 'w bridge \<Rightarrow> 'w bridge" where
  "check_wait v s = (if is_waiting s then (vpi_print_time v s)\<lparr>is_waiting := False\<rparr> else s)"

definition wait_sim_time :: "'w vpi \<Rightarrow> u64 \<Rightarrow> 'w bridge \<Rightarrow> 'w bridge" where
  "wait_sim_time v delta s =
     (let t = delta + get_sim_time v s;
          (hnd, w) = vpi_register_cb v (Wait_Cb (ucast (drop_bit 32 t)) (ucast t)) (world s)
      in s\<lparr>active_wait := hnd, world := w\<rparr>)"

definition schedule_echo :: "'w vpi \<Rightarrow> u32 \<Rightarrow> 'w bridge \<Rightarrow> 'w bridge" where
  "schedule_echo v a s =
     (if echo_pending s then s
      else let (high, low) = vpi_get_time v (world s);
               (hnd, w) = vpi_register_cb v (Echo_Cb high low) (world s)
           in s\<lparr>echo_pending := True, dirty := False, world := vpi_free_object v hnd w\<rparr>)
     \<lparr>echo_reply := a\<rparr>"

text \<open>\<open>split_line\<close> is the routine of the same name in delays.c; \<open>None\<close> is its result of \<open>-1\<close>.\<close>

definition split_parts :: "string \<Rightarrow> string list option" where
  "split_parts line = split_line 0 line"

text \<open>
  The report of a value change. It goes on with \<open>read_cmds\<close>, here an argument, unless it comes from a
  \<open>vpi_put_value\<close> of the bridge itself.
\<close>

definition val_change_cb :: "('w bridge \<Rightarrow> 'w bridge) \<Rightarrow> change \<Rightarrow> 'w bridge \<Rightarrow> 'w bridge" where
  "val_change_cb reads c s =
     (let s1 = s\<lparr>is_waiting := False\<rparr>;
          s2 = (if ch_format c = vpiBinStrVal
                then vpi_printf (''v '' @ vs_name (ch_signal c) @ '' '' @ dec_string (unat (time2num (ch_time c))) @ '' ps '' @ ch_value c) s1
                else s1);
          s3 = s2\<lparr>dirty := True\<rparr>
      in if read_cmds_on_val_change s3 then reads s3 else s3)"

definition get_signal :: "'w vpi \<Rightarrow> string \<Rightarrow> 'w bridge \<Rightarrow> vpi_signal option \<times> 'w bridge" where
  "get_signal v name s =
     (case find (\<lambda>x. vs_name x = name) (vsignals s) of
        Some x \<Rightarrow> (Some x, s)
      | None \<Rightarrow>
          let hnd = vpi_handle_by_name v name (world s) in
          if hnd = 0 then (None, s)
          else let x = \<lparr>vs_name = name, vs_hnd = hnd\<rparr>;
                   (cb, w) = vpi_register_cb v (Value_Cb x) (world s)
               in (Some x, s\<lparr>vsignals := vsignals s @ [x], world := vpi_free_object v cb w\<rparr>))"

definition read_signal :: "'w vpi \<Rightarrow> string \<Rightarrow> 'w bridge \<Rightarrow> 'w bridge" where
  "read_signal v name s =
     (case get_signal v name s of
        (None, s1) \<Rightarrow> s1
      | (Some x, s1) \<Rightarrow>
          let (fmt, val) = vpi_get_value v (vs_hnd x) (world s1) in
          if fmt = vpiOtherVal then s1 else vpi_printf (''r '' @ name @ '' '' @ val) s1)"

text \<open>While the value is put, \<open>read_cmds_on_val_change\<close> is off and the reports do not read commands.\<close>

definition write_signal :: "'w vpi \<Rightarrow> string \<Rightarrow> string \<Rightarrow> 'w bridge \<Rightarrow> 'w bridge" where
  "write_signal v name val s =
     (case get_signal v name s of
        (None, s1) \<Rightarrow> s1
      | (Some x, s1) \<Rightarrow>
          let (cs, w) = vpi_put_value v (vs_hnd x) val (world s1);
              s2 = fold (val_change_cb (\<lambda>t. t)) cs (s1\<lparr>read_cmds_on_val_change := False, world := w\<rparr>)
          in s2\<lparr>read_cmds_on_val_change := True\<rparr>)"

text \<open>One line of commands; \<open>True\<close>: \<open>read_cmds\<close> returns.\<close>

definition do_echo :: "'w vpi \<Rightarrow> string list \<Rightarrow> 'w bridge \<Rightarrow> bool \<times> 'w bridge" where
  "do_echo v parts s =
     (if length parts = 2 then
        (let (n, rest) = strtoull (parts ! 1) 10 in
         if rest \<noteq> [] then (False, s) else (True, schedule_echo v (ucast n) s))
      else (False, s))"

definition do_wait :: "'w vpi \<Rightarrow> string list \<Rightarrow> 'w bridge \<Rightarrow> bool \<times> 'w bridge" where
  "do_wait v parts s =
     (if length parts = 1 then (True, s\<lparr>is_waiting := True\<rparr>)
      else if length parts = 2 then
        (let (t, rest) = strtoull (parts ! 1) 10 in
         if rest \<noteq> [] then (False, s) else (True, (wait_sim_time v t s)\<lparr>is_waiting := True\<rparr>))
      else (False, s))"

definition do_cmd :: "'w vpi \<Rightarrow> string \<Rightarrow> 'w bridge \<Rightarrow> bool \<times> 'w bridge" where
  "do_cmd v line s =
     (case split_parts (cstr line) of
        None \<Rightarrow> (False, s)
      | Some parts \<Rightarrow>
          if parts = [] then (False, s)
          else if parts ! 0 = ''.'' then do_echo v parts s
          else if parts ! 0 = ''t'' then (False, vpi_print_time v s)
          else if parts ! 0 = ''r'' then (False, if length parts = 2 then read_signal v (parts ! 1) s else s)
          else if parts ! 0 = ''w'' then (False, if length parts = 3 then write_signal v (parts ! 1) (parts ! 2) s else s)
          else if parts ! 0 = ''wait'' then do_wait v parts s
          else (False, s))"

lemma vpi_printf_frame [simp]:
  "cmd_in (vpi_printf txt s) = cmd_in s" "vsignals (vpi_printf txt s) = vsignals s" "world (vpi_printf txt s) = world s"
  "active_wait (vpi_printf txt s) = active_wait s" "echo_pending (vpi_printf txt s) = echo_pending s"
  "read_cmds_on_val_change (vpi_printf txt s) = read_cmds_on_val_change s" "dirty (vpi_printf txt s) = dirty s"
  "echo_reply (vpi_printf txt s) = echo_reply s" "is_waiting (vpi_printf txt s) = is_waiting s"
  "msg_out (vpi_printf txt s) = msg_out s @ txt @ [CHR 0x0A]"
  by (simp_all add: vpi_printf_def)

lemma vpi_print_time_frame [simp]: "cmd_in (vpi_print_time v s) = cmd_in s"
  by (simp add: vpi_print_time_def)

lemma schedule_echo_input [simp]: "cmd_in (schedule_echo v a s) = cmd_in s"
  by (simp add: schedule_echo_def Let_def split: prod.splits)

lemma wait_sim_time_input [simp]: "cmd_in (wait_sim_time v d s) = cmd_in s"
  by (simp add: wait_sim_time_def Let_def split: prod.splits)

lemma get_signal_input [simp]: "cmd_in (snd (get_signal v n s)) = cmd_in s"
  by (simp add: get_signal_def Let_def split: option.splits prod.splits)

lemma read_signal_input [simp]: "cmd_in (read_signal v n s) = cmd_in s"
  using get_signal_input [of v n s]
  by (auto simp: read_signal_def Let_def simp del: get_signal_input split: option.splits prod.splits)

lemma own_changes_input [simp]: "cmd_in (fold (val_change_cb (\<lambda>t. t)) cs s) = cmd_in s"
  by (induction cs arbitrary: s) (simp_all add: val_change_cb_def Let_def)

lemma write_signal_input [simp]: "cmd_in (write_signal v n x s) = cmd_in s"
  using get_signal_input [of v n s]
  by (auto simp: write_signal_def Let_def simp del: get_signal_input split: option.splits prod.splits)

lemma do_cmd_input [simp]: "cmd_in (snd (do_cmd v l s)) = cmd_in s"
  by (simp add: do_cmd_def do_echo_def do_wait_def split: option.splits prod.splits)

function cmd_loop :: "'w vpi \<Rightarrow> 'w bridge \<Rightarrow> 'w bridge" where
  "cmd_loop v s =
     (case fgets 1024 (cmd_in s) of
        None \<Rightarrow> s\<lparr>world := vpi_sim_control v (world s)\<rparr>
      | Some lr \<Rightarrow>
          if fst (do_cmd v (fst lr) (s\<lparr>cmd_in := snd lr\<rparr>)) then snd (do_cmd v (fst lr) (s\<lparr>cmd_in := snd lr\<rparr>))
          else cmd_loop v (snd (do_cmd v (fst lr) (s\<lparr>cmd_in := snd lr\<rparr>))))"
  by auto
termination
  by (relation "measure (length \<circ> cmd_in \<circ> snd)") (auto intro: fgets_shorter)

declare cmd_loop.simps [simp del]

definition drop_wait :: "'w vpi \<Rightarrow> 'w bridge \<Rightarrow> 'w bridge" where
  "drop_wait v s =
     (if active_wait s \<noteq> 0 then s\<lparr>world := vpi_remove_cb v (active_wait s) (world s), active_wait := 0\<rparr> else s)"

definition read_cmds :: "'w vpi \<Rightarrow> 'w bridge \<Rightarrow> 'w bridge" where
  "read_cmds v s = cmd_loop v (drop_wait v s)"

definition wait_cb :: "'w vpi \<Rightarrow> 'w bridge \<Rightarrow> 'w bridge" where
  "wait_cb v s =
     (let s1 = check_wait v s;
          s2 = (if active_wait s1 \<noteq> 0 then s1\<lparr>world := vpi_free_object v (active_wait s1) (world s1), active_wait := 0\<rparr> else s1)
      in read_cmds v s2)"

definition echo_cb :: "'w vpi \<Rightarrow> 'w bridge \<Rightarrow> 'w bridge" where
  "echo_cb v s =
     (let s1 = (check_wait v s)\<lparr>echo_pending := False\<rparr> in
      if dirty s1 then schedule_echo v (echo_reply s1) s1
      else read_cmds v (vpi_printf (''. '' @ print_d (echo_reply s1)) s1))"

definition startup :: "'w vpi \<Rightarrow> 'w bridge \<Rightarrow> 'w bridge" where
  "startup v s = read_cmds v s"

definition startup_fn :: "'w vpi \<Rightarrow> 'w bridge \<Rightarrow> 'w bridge" where
  "startup_fn v s = (let (hnd, w) = vpi_register_cb v Start_Cb (world s) in s\<lparr>world := vpi_free_object v hnd w\<rparr>)"

definition bridge_init :: "string \<Rightarrow> 'w \<Rightarrow> 'w bridge" where
  "bridge_init inp w =
     \<lparr>vsignals = [], dirty = False, echo_pending = False, echo_reply = 0, active_wait = 0,
      read_cmds_on_val_change = True, is_waiting = False, cmd_in = inp, msg_out = [], world = w\<rparr>"

end
