(* ===== verification/Vpi_Runs.thy ===== *)
theory Vpi_Runs
  imports Vpi_Bridge
begin

text \<open>
  Runs of the bridge to Icarus Verilog. What is assumed of the procedural interface is \<open>vpi_laws\<close>: a map of
  the outstanding callbacks and the values of the objects, and how the calls change them. Shown: the bridge
  always has exactly the callbacks outstanding that its statics say, and a bench that writes and reads signals
  through it sees them as variables.
\<close>

section \<open>The Verilog simulator\<close>

definition verilog_bits :: "string \<Rightarrow> bool" where
  "verilog_bits x \<longleftrightarrow> x \<noteq> [] \<and> set x \<subseteq> set ''01xz''"

text \<open>
  \<open>cbs w\<close> are the outstanding callbacks by handle, \<open>val w h\<close> is the value of an object as a binary string and
  \<open>wd h\<close> its width, \<open>obj n\<close> the object of a name, 0 if there is none. A callback is registered under a handle that no outstanding
  callback has; freeing a handle keeps its callback; a value of the object's width that is put is its value at
  once, and only registered changes are reported.
\<close>

definition vpi_laws ::
  "'w vpi \<Rightarrow> ('w \<Rightarrow> nat \<Rightarrow> cb_data option) \<Rightarrow> ('w \<Rightarrow> nat \<Rightarrow> string) \<Rightarrow> (nat \<Rightarrow> nat) \<Rightarrow> (string \<Rightarrow> nat) \<Rightarrow> bool" where
  "vpi_laws v cbs val wd obj \<longleftrightarrow>
     (\<forall>w cb h w'. vpi_register_cb v cb w = (h, w') \<longrightarrow>
        h \<noteq> 0 \<and> cbs w h = None \<and> cbs w' = (cbs w)(h \<mapsto> cb) \<and> val w' = val w) \<and>
     (\<forall>h w. cbs (vpi_remove_cb v h w) = (cbs w)(h := None) \<and> val (vpi_remove_cb v h w) = val w) \<and>
     (\<forall>h w. cbs (vpi_free_object v h w) = cbs w \<and> val (vpi_free_object v h w) = val w) \<and>
     (\<forall>w. cbs (vpi_sim_control v w) = cbs w) \<and>
     (\<forall>n w. vpi_handle_by_name v n w = obj n) \<and>
     (\<forall>h w. vpi_get_value v h w = (vpiBinStrVal, val w h) \<and> verilog_bits (val w h)) \<and>
     (\<forall>h x w cs w'. vpi_put_value v h x w = (cs, w') \<longrightarrow>
        cbs w' = cbs w \<and> (verilog_bits x \<and> length x = wd h \<longrightarrow> val w' = (val w)(h := x)) \<and>
        (\<forall>c\<in>set cs. (\<exists>k. cbs w k = Some (Value_Cb (ch_signal c))) \<and> verilog_bits (ch_value c)))"

lemma laws_register:
  "vpi_laws v cbs val wd obj \<Longrightarrow> vpi_register_cb v cb w = (h, w') \<Longrightarrow>
   h \<noteq> 0 \<and> cbs w h = None \<and> cbs w' = (cbs w)(h \<mapsto> cb) \<and> val w' = val w"
  unfolding vpi_laws_def by blast

lemma laws_calls:
  assumes "vpi_laws v cbs val wd obj"
  shows "cbs (vpi_remove_cb v h w) = (cbs w)(h := None)" "val (vpi_remove_cb v h w) = val w"
    "cbs (vpi_free_object v h w) = cbs w" "val (vpi_free_object v h w) = val w"
    "cbs (vpi_sim_control v w) = cbs w" "vpi_handle_by_name v n w = obj n"
    "vpi_get_value v h w = (vpiBinStrVal, val w h)" "verilog_bits (val w h)"
  using assms unfolding vpi_laws_def by simp_all

lemma laws_put:
  assumes "vpi_laws v cbs val wd obj" "vpi_put_value v h x w = (cs, w')"
  shows "cbs w' = cbs w" "verilog_bits x \<Longrightarrow> length x = wd h \<Longrightarrow> val w' = (val w)(h := x)"
    "c \<in> set cs \<Longrightarrow> (\<exists>k. cbs w k = Some (Value_Cb (ch_signal c))) \<and> verilog_bits (ch_value c)"
  using assms unfolding vpi_laws_def by blast+

section \<open>The callbacks of the bridge\<close>

type_synonym callbacks = "nat \<Rightarrow> cb_data option"

definition echo_cbs :: "callbacks \<Rightarrow> nat set" where
  "echo_cbs m = {h. \<exists>a b. m h = Some (Echo_Cb a b)}"

definition wait_cbs :: "callbacks \<Rightarrow> nat set" where
  "wait_cbs m = {h. \<exists>a b. m h = Some (Wait_Cb a b)}"

definition value_cbs :: "callbacks \<Rightarrow> vpi_signal \<Rightarrow> nat set" where
  "value_cbs m x = {h. m h = Some (Value_Cb x)}"

text \<open>One callback for every signal in use, one for an echo that waits, and the one of \<open>active_wait\<close>.\<close>

definition bridge_ok :: "('w \<Rightarrow> callbacks) \<Rightarrow> 'w bridge \<Rightarrow> bool" where
  "bridge_ok cbs s \<longleftrightarrow>
     distinct (map vs_name (vsignals s)) \<and>
     (\<forall>x. if x \<in> set (vsignals s) then is_singleton (value_cbs (cbs (world s)) x) else value_cbs (cbs (world s)) x = {}) \<and>
     (if echo_pending s then is_singleton (echo_cbs (cbs (world s))) else echo_cbs (cbs (world s)) = {}) \<and>
     wait_cbs (cbs (world s)) = (if active_wait s = 0 then {} else {active_wait s}) \<and>
     read_cmds_on_val_change s"

lemma cbs_register:
  assumes "m h = None"
  shows "echo_cbs (m(h \<mapsto> Echo_Cb a b)) = insert h (echo_cbs m)" "echo_cbs (m(h \<mapsto> Wait_Cb a b)) = echo_cbs m"
    "echo_cbs (m(h \<mapsto> Value_Cb x)) = echo_cbs m" "echo_cbs (m(h \<mapsto> Start_Cb)) = echo_cbs m"
    "wait_cbs (m(h \<mapsto> Echo_Cb a b)) = wait_cbs m" "wait_cbs (m(h \<mapsto> Wait_Cb a b)) = insert h (wait_cbs m)"
    "wait_cbs (m(h \<mapsto> Value_Cb x)) = wait_cbs m" "wait_cbs (m(h \<mapsto> Start_Cb)) = wait_cbs m"
    "value_cbs (m(h \<mapsto> Echo_Cb a b)) y = value_cbs m y" "value_cbs (m(h \<mapsto> Wait_Cb a b)) y = value_cbs m y"
    "value_cbs (m(h \<mapsto> Start_Cb)) y = value_cbs m y"
    "value_cbs (m(h \<mapsto> Value_Cb x)) y = (if x = y then insert h (value_cbs m y) else value_cbs m y)"
  using assms by (auto simp: echo_cbs_def wait_cbs_def value_cbs_def)

lemma cbs_remove:
  "echo_cbs (m(h := None)) = echo_cbs m - {h}" "wait_cbs (m(h := None)) = wait_cbs m - {h}"
  "value_cbs (m(h := None)) x = value_cbs m x - {h}"
  by (auto simp: echo_cbs_def wait_cbs_def value_cbs_def)

lemma cbs_disjoint:
  "h \<in> wait_cbs m \<Longrightarrow> h \<notin> echo_cbs m" "h \<in> wait_cbs m \<Longrightarrow> h \<notin> value_cbs m x" "h \<in> echo_cbs m \<Longrightarrow> h \<notin> value_cbs m x"
  by (auto simp: echo_cbs_def wait_cbs_def value_cbs_def)

lemma bridge_ok_frame:
  "vsignals t = vsignals s \<Longrightarrow> echo_pending t = echo_pending s \<Longrightarrow> active_wait t = active_wait s \<Longrightarrow>
   read_cmds_on_val_change t = read_cmds_on_val_change s \<Longrightarrow> cbs (world t) = cbs (world s) \<Longrightarrow> bridge_ok cbs t = bridge_ok cbs s"
  by (simp add: bridge_ok_def)

lemma bridge_ok_simps [simp]:
  "bridge_ok cbs (vpi_printf txt s) = bridge_ok cbs s" "bridge_ok cbs (vpi_print_time v s) = bridge_ok cbs s"
  "bridge_ok cbs (s\<lparr>is_waiting := b\<rparr>) = bridge_ok cbs s" "bridge_ok cbs (s\<lparr>dirty := b\<rparr>) = bridge_ok cbs s"
  "bridge_ok cbs (s\<lparr>cmd_in := i\<rparr>) = bridge_ok cbs s" "bridge_ok cbs (s\<lparr>echo_reply := a\<rparr>) = bridge_ok cbs s"
  "bridge_ok cbs (check_wait v s) = bridge_ok cbs s"
  by (rule bridge_ok_frame; simp add: vpi_print_time_def check_wait_def)+

lemma get_signal_ok:
  assumes l: "vpi_laws v cbs val wd obj" and s: "bridge_ok cbs s"
  shows "bridge_ok cbs (snd (get_signal v n s))"
proof (cases "find (\<lambda>x. vs_name x = n) (vsignals s)")
  case None
  then have new: "n \<notin> vs_name ` set (vsignals s)" by (auto simp: find_None_iff)
  let ?x = "\<lparr>vs_name = n, vs_hnd = obj n\<rparr>"
  have x: "?x \<notin> set (vsignals s)" using new by force
  obtain h w where r: "vpi_register_cb v (Value_Cb ?x) (world s) = (h, w)" by fastforce
  note reg = laws_register [OF l r]
  have "is_singleton (insert h (value_cbs (cbs (world s)) ?x))"
    using s x by (auto simp: bridge_ok_def is_singleton_def)
  then show ?thesis
    using s new x r reg None by (auto simp: get_signal_def Let_def laws_calls [OF l] bridge_ok_def cbs_register)
qed (simp add: get_signal_def s)

lemma get_signal_frame [simp]:
  "active_wait (snd (get_signal v n s)) = active_wait s" "is_waiting (snd (get_signal v n s)) = is_waiting s"
  "msg_out (snd (get_signal v n s)) = msg_out s" "echo_pending (snd (get_signal v n s)) = echo_pending s"
  by (simp_all add: get_signal_def Let_def split: option.splits prod.splits)

lemma own_changes [simp]:
  "vsignals (fold (val_change_cb (\<lambda>t. t)) cs s) = vsignals s" "echo_pending (fold (val_change_cb (\<lambda>t. t)) cs s) = echo_pending s"
  "active_wait (fold (val_change_cb (\<lambda>t. t)) cs s) = active_wait s" "world (fold (val_change_cb (\<lambda>t. t)) cs s) = world s"
  by (induction cs arbitrary: s) (simp_all add: val_change_cb_def Let_def)

lemma read_signal_ok:
  assumes "vpi_laws v cbs val wd obj" "bridge_ok cbs s"
  shows "bridge_ok cbs (read_signal v n s) \<and> active_wait (read_signal v n s) = active_wait s"
  using get_signal_ok [OF assms, of n] get_signal_frame(1) [of v n s]
  by (auto simp: read_signal_def Let_def simp del: get_signal_frame split: prod.splits option.splits)

lemma write_signal_ok:
  assumes l: "vpi_laws v cbs val wd obj" and s: "bridge_ok cbs s"
  shows "bridge_ok cbs (write_signal v n x s) \<and> active_wait (write_signal v n x s) = active_wait s"
proof -
  obtain r s1 where g: "get_signal v n s = (r, s1)" by fastforce
  then have s1: "bridge_ok cbs s1" "active_wait s1 = active_wait s"
    using get_signal_ok [OF l s, of n] get_signal_frame(1) [of v n s] by auto
  show ?thesis
  proof (cases r)
    case (Some y)
    obtain cs w where p: "vpi_put_value v (vs_hnd y) x (world s1) = (cs, w)" by fastforce
    let ?t = "(fold (val_change_cb (\<lambda>t. t)) cs (s1\<lparr>read_cmds_on_val_change := False, world := w\<rparr>))\<lparr>read_cmds_on_val_change := True\<rparr>"
    have "bridge_ok cbs ?t = bridge_ok cbs s1"
      using s1(1) laws_put(1) [OF l p] by (intro bridge_ok_frame) (simp_all add: bridge_ok_def)
    then show ?thesis using s1 by (simp add: write_signal_def g Some p)
  qed (use g s1 in \<open>simp add: write_signal_def\<close>)
qed

lemma schedule_echo_ok:
  assumes l: "vpi_laws v cbs val wd obj" and s: "bridge_ok cbs s"
  shows "bridge_ok cbs (schedule_echo v a s)"
proof (cases "echo_pending s")
  case False
  obtain h w where r: "vpi_register_cb v (Echo_Cb (fst (vpi_get_time v (world s))) (snd (vpi_get_time v (world s)))) (world s) = (h, w)"
    by fastforce
  show ?thesis
    using s False r laws_register [OF l r]
    by (auto simp: schedule_echo_def Let_def split_beta laws_calls [OF l] bridge_ok_def cbs_register is_singletonI)
qed (simp add: schedule_echo_def s)

lemma wait_sim_time_ok:
  assumes l: "vpi_laws v cbs val wd obj" and s: "bridge_ok cbs s" "active_wait s = 0"
  shows "bridge_ok cbs (wait_sim_time v d s)"
proof -
  let ?t = "d + get_sim_time v s"
  obtain h w where r: "vpi_register_cb v (Wait_Cb (ucast (drop_bit 32 ?t)) (ucast ?t)) (world s) = (h, w)"
    by fastforce
  show ?thesis
    using s r laws_register [OF l r] by (auto simp: wait_sim_time_def Let_def bridge_ok_def cbs_register)
qed

lemma do_echo_ok:
  assumes "vpi_laws v cbs val wd obj" "bridge_ok cbs s" "active_wait s = 0"
  shows "bridge_ok cbs (snd (do_echo v parts s)) \<and> (\<not> fst (do_echo v parts s) \<longrightarrow> active_wait (snd (do_echo v parts s)) = 0)"
  using assms schedule_echo_ok [OF assms(1,2)] by (simp add: do_echo_def split_beta)

lemma do_wait_ok:
  assumes "vpi_laws v cbs val wd obj" "bridge_ok cbs s" "active_wait s = 0"
  shows "bridge_ok cbs (snd (do_wait v parts s)) \<and> (\<not> fst (do_wait v parts s) \<longrightarrow> active_wait (snd (do_wait v parts s)) = 0)"
  using assms wait_sim_time_ok [OF assms] by (simp add: do_wait_def split_beta)

lemma do_cmd_cases:
  assumes "P (False, s)" "\<And>parts. P (do_echo v parts s)" "P (False, vpi_print_time v s)" "\<And>n. P (False, read_signal v n s)"
    "\<And>n x. P (False, write_signal v n x s)" "\<And>parts. P (do_wait v parts s)"
  shows "P (do_cmd v line s)"
proof (cases "split_parts (cstr line)")
  case (Some parts)
  then show ?thesis
    by (simp add: do_cmd_def assms)
qed (simp add: do_cmd_def assms)

lemma do_cmd_ok:
  assumes l: "vpi_laws v cbs val wd obj" and s: "bridge_ok cbs s" "active_wait s = 0"
  shows "bridge_ok cbs (snd (do_cmd v line s)) \<and> (\<not> fst (do_cmd v line s) \<longrightarrow> active_wait (snd (do_cmd v line s)) = 0)"
  using read_signal_ok [OF l s(1)] write_signal_ok [OF l s(1)] do_echo_ok [OF assms] do_wait_ok [OF assms] s
  by (intro do_cmd_cases [where P = "\<lambda>r. bridge_ok cbs (snd r) \<and> (\<not> fst r \<longrightarrow> active_wait (snd r) = 0)"])
     (simp_all add: vpi_print_time_def)

lemma cmd_loop_ok:
  assumes l: "vpi_laws v cbs val wd obj"
  shows "bridge_ok cbs s \<Longrightarrow> active_wait s = 0 \<Longrightarrow> bridge_ok cbs (cmd_loop v s)"
proof (induction "length (cmd_in s)" arbitrary: s rule: less_induct)
  case less
  show ?case
  proof (cases "fgets 1024 (cmd_in s)")
    case None
    have "bridge_ok cbs (s\<lparr>world := vpi_sim_control v (world s)\<rparr>) = bridge_ok cbs s"
      by (rule bridge_ok_frame) (simp_all add: laws_calls(5) [OF l])
    then show ?thesis using None less.prems by (simp add: cmd_loop.simps [of v s])
  next
    case (Some lr)
    let ?r = "do_cmd v (fst lr) (s\<lparr>cmd_in := snd lr\<rparr>)"
    have "length (snd lr) < length (cmd_in s)" using Some by (cases lr) (auto dest: fgets_shorter)
    then have shorter: "length (cmd_in (snd ?r)) < length (cmd_in s)" by simp
    have ok: "bridge_ok cbs (snd ?r) \<and> (\<not> fst ?r \<longrightarrow> active_wait (snd ?r) = 0)"
      using less.prems by (intro do_cmd_ok [OF l]) simp_all
    have eq: "cmd_loop v s = (if fst ?r then snd ?r else cmd_loop v (snd ?r))"
      by (subst cmd_loop.simps) (simp only: Some option.case)
    show ?thesis
    proof (cases "fst ?r")
      case True
      then show ?thesis unfolding eq using ok by (simp only: if_True)
    next
      case False
      then show ?thesis unfolding eq using less.hyps [OF shorter] ok by (simp only: if_False not_False_eq_True simp_thms)
    qed
  qed
qed

lemma drop_wait_ok:
  assumes "vpi_laws v cbs val wd obj" "bridge_ok cbs s"
  shows "bridge_ok cbs (drop_wait v s) \<and> active_wait (drop_wait v s) = 0"
proof (cases "active_wait s = 0")
  case False
  let ?m = "cbs (world s)"
  have "wait_cbs ?m = {active_wait s}" using assms(2) False by (simp add: bridge_ok_def)
  then have "active_wait s \<notin> echo_cbs ?m" "active_wait s \<notin> value_cbs ?m x" for x
    using cbs_disjoint [of "active_wait s" ?m] by auto
  then show ?thesis
    using assms False by (simp add: drop_wait_def laws_calls [OF assms(1)] bridge_ok_def cbs_remove)
qed (use assms in \<open>simp add: drop_wait_def\<close>)

lemma read_cmds_ok:
  assumes "vpi_laws v cbs val wd obj" "bridge_ok cbs s"
  shows "bridge_ok cbs (read_cmds v s)"
  using cmd_loop_ok [OF assms(1)] drop_wait_ok [OF assms] by (simp add: read_cmds_def)

section \<open>Runs\<close>

text \<open>
  What calls the bridge: one of its outstanding callbacks. The simulator changes its state before; a callback
  other than a value change is then no longer outstanding.
\<close>

datatype vpi_event = Started | Waited | Echoed | Changed change

fun fires :: "vpi_event \<Rightarrow> callbacks \<Rightarrow> callbacks \<Rightarrow> bool" where
  "fires Started m m' \<longleftrightarrow> (\<exists>h. m h = Some Start_Cb \<and> m' = m(h := None))"
| "fires Waited m m' \<longleftrightarrow> (\<exists>h\<in>wait_cbs m. m' = m(h := None))"
| "fires Echoed m m' \<longleftrightarrow> (\<exists>h\<in>echo_cbs m. m' = m(h := None))"
| "fires (Changed c) m m' \<longleftrightarrow> value_cbs m (ch_signal c) \<noteq> {} \<and> m' = m"

fun bridge_event :: "'w vpi \<Rightarrow> vpi_event \<Rightarrow> 'w bridge \<Rightarrow> 'w bridge" where
  "bridge_event v Started s = startup v s"
| "bridge_event v Waited s = wait_cb v s"
| "bridge_event v Echoed s = echo_cb v s"
| "bridge_event v (Changed c) s = val_change_cb (read_cmds v) c s"

inductive bridge_run :: "'w vpi \<Rightarrow> ('w \<Rightarrow> callbacks) \<Rightarrow> 'w bridge \<Rightarrow> bool" for v cbs where
  load: "cbs w = Map.empty \<Longrightarrow> bridge_run v cbs (startup_fn v (bridge_init inp w))"
| call: "bridge_run v cbs s \<Longrightarrow> fires ev (cbs (world s)) (cbs w) \<Longrightarrow> bridge_run v cbs (bridge_event v ev (s\<lparr>world := w\<rparr>))"

lemma singleton_minus: "is_singleton A \<Longrightarrow> h \<in> A \<Longrightarrow> A - {h} = {}"
  by (auto simp: is_singleton_def)

lemma startup_fn_ok:
  assumes "vpi_laws v cbs val wd obj" "cbs w = Map.empty"
  shows "bridge_ok cbs (startup_fn v (bridge_init inp w))"
proof -
  obtain h w' where r: "vpi_register_cb v Start_Cb w = (h, w')" by fastforce
  have "echo_cbs Map.empty = {}" "wait_cbs Map.empty = {}" "value_cbs Map.empty x = {}" for x
    by (simp_all add: echo_cbs_def wait_cbs_def value_cbs_def)
  then show ?thesis
    using laws_register [OF assms(1) r] assms(2) cbs_register [of Map.empty h]
    by (simp add: startup_fn_def bridge_init_def r bridge_ok_def laws_calls [OF assms(1)])
qed

lemma waited_ok:
  assumes l: "vpi_laws v cbs val wd obj" and s: "bridge_ok cbs s" and f: "fires Waited (cbs (world s)) (cbs w)"
  shows "bridge_ok cbs (wait_cb v (s\<lparr>world := w\<rparr>))"
proof -
  obtain h where h: "h \<in> wait_cbs (cbs (world s))" "cbs w = (cbs (world s))(h := None)" using f by auto
  then have a: "active_wait s = h" "h \<noteq> 0" using s by (auto simp: bridge_ok_def split: if_splits)
  let ?t = "check_wait v (s\<lparr>world := w\<rparr>)"
  have t: "active_wait ?t = h" "vsignals ?t = vsignals s" "echo_pending ?t = echo_pending s" "world ?t = w"
    "read_cmds_on_val_change ?t = read_cmds_on_val_change s"
    using a by (simp_all add: check_wait_def vpi_print_time_def)
  have "bridge_ok cbs (?t\<lparr>world := vpi_free_object v h w, active_wait := 0\<rparr>)"
    using s h a cbs_disjoint(1,2) [OF h(1)] by (simp add: t bridge_ok_def laws_calls [OF l] cbs_remove)
  then show ?thesis using a(2) read_cmds_ok [OF l] by (simp add: wait_cb_def t)
qed

lemma echoed_ok:
  assumes l: "vpi_laws v cbs val wd obj" and s: "bridge_ok cbs s" and f: "fires Echoed (cbs (world s)) (cbs w)"
  shows "bridge_ok cbs (echo_cb v (s\<lparr>world := w\<rparr>))"
proof -
  obtain h where h: "h \<in> echo_cbs (cbs (world s))" "cbs w = (cbs (world s))(h := None)" using f by auto
  then have p: "is_singleton (echo_cbs (cbs (world s)))" using s by (auto simp: bridge_ok_def split: if_splits)
  have nw: "h \<notin> wait_cbs (cbs (world s))" "h \<notin> value_cbs (cbs (world s)) x" for x using cbs_disjoint h(1) by blast+
  let ?t = "(check_wait v (s\<lparr>world := w\<rparr>))\<lparr>echo_pending := False\<rparr>"
  have t: "active_wait ?t = active_wait s" "vsignals ?t = vsignals s" "\<not> echo_pending ?t" "world ?t = w"
    "read_cmds_on_val_change ?t = read_cmds_on_val_change s"
    by (simp_all add: check_wait_def vpi_print_time_def)
  have "bridge_ok cbs ?t"
    using s h(2) nw singleton_minus [OF p h(1)] unfolding bridge_ok_def t by (simp add: cbs_remove)
  then show ?thesis
    using schedule_echo_ok [OF l] read_cmds_ok [OF l] unfolding echo_cb_def Let_def by simp
qed

lemma bridge_event_ok:
  assumes l: "vpi_laws v cbs val wd obj" and s: "bridge_ok cbs s" and f: "fires ev (cbs (world s)) (cbs w)"
  shows "bridge_ok cbs (bridge_event v ev (s\<lparr>world := w\<rparr>))"
proof (cases ev)
  case Started
  then obtain h where "cbs (world s) h = Some Start_Cb" "cbs w = (cbs (world s))(h := None)" using f by auto
  then have "echo_cbs (cbs w) = echo_cbs (cbs (world s))" "wait_cbs (cbs w) = wait_cbs (cbs (world s))"
    "value_cbs (cbs w) x = value_cbs (cbs (world s)) x" for x
    by (auto simp: echo_cbs_def wait_cbs_def value_cbs_def)
  then have "bridge_ok cbs (s\<lparr>world := w\<rparr>)" using s by (simp add: bridge_ok_def)
  then show ?thesis using read_cmds_ok [OF l] by (simp add: Started startup_def)
next
  case (Changed c)
  then have "bridge_ok cbs (s\<lparr>world := w\<rparr>)" using s f by (simp add: bridge_ok_def)
  then show ?thesis using read_cmds_ok [OF l] by (simp add: Changed val_change_cb_def Let_def)
qed (use waited_ok [OF l s] echoed_ok [OF l s] f in simp_all)

lemma bridge_run_ok:
  assumes "vpi_laws v cbs val wd obj" "bridge_run v cbs s"
  shows "bridge_ok cbs s"
  using assms(2)
proof induction
  case (load w inp)
  then show ?case by (rule startup_fn_ok [OF assms(1)])
next
  case (call s ev w)
  then show ?case by (intro bridge_event_ok [OF assms(1)])
qed

text \<open>
  C13: The statics of the bridge always agree with the simulator. Whatever commands come and whichever callbacks
  the simulator calls, every signal in use has exactly one value-change callback and no other signal has one, an echo
  callback is outstanding exactly while an echo waits for its answer, and then only one, and the only outstanding
  timed wait is the one of \<open>active_wait\<close>.
\<close>

theorem bridge_callbacks:
  assumes "vpi_laws v cbs val wd obj" "bridge_run v cbs s"
  shows "distinct (map vs_name (vsignals s)) \<and>
    (\<forall>x. if x \<in> set (vsignals s) then is_singleton (value_cbs (cbs (world s)) x) else value_cbs (cbs (world s)) x = {}) \<and>
    (if echo_pending s then is_singleton (echo_cbs (cbs (world s))) else echo_cbs (cbs (world s)) = {}) \<and>
    wait_cbs (cbs (world s)) = (if active_wait s = 0 then {} else {active_wait s}) \<and> read_cmds_on_val_change s"
  using bridge_run_ok [OF assms] unfolding bridge_ok_def .

text \<open>A simulator of one-bit objects: the outstanding callbacks with their handles, and the values.\<close>

type_synonym demo_world = "(nat \<times> cb_data) list \<times> (nat \<Rightarrow> string)"

definition demo_fresh :: "demo_world \<Rightarrow> nat" where
  "demo_fresh w = Suc (sum_list (map fst (fst w)))"

definition demo_value :: "demo_world \<Rightarrow> nat \<Rightarrow> string" where
  "demo_value w h = (if verilog_bits (snd w h) then snd w h else ''x'')"

definition demo_object :: "string \<Rightarrow> nat" where
  "demo_object n = (if n = ''clk'' then 1 else if n = ''db.ack'' then 2 else 0)"

definition demo_vpi :: "demo_world vpi" where
  "demo_vpi =
     \<lparr>vpi_get_time = \<lambda>w. (0, 0), vpi_handle_by_name = \<lambda>n w. demo_object n,
      vpi_get_value = \<lambda>h w. (vpiBinStrVal, demo_value w h),
      vpi_put_value = \<lambda>h x w. ([], (fst w, (snd w)(h := x))),
      vpi_register_cb = \<lambda>cb w. (demo_fresh w, ((demo_fresh w, cb) # fst w, snd w)),
      vpi_remove_cb = \<lambda>h w. (filter (\<lambda>c. fst c \<noteq> h) (fst w), snd w), vpi_free_object = \<lambda>h w. w,
      vpi_sim_control = \<lambda>w. w\<rparr>"

definition demo_cbs :: "demo_world \<Rightarrow> callbacks" where
  "demo_cbs w = map_of (fst w)"

lemma demo_fresh_new: "demo_cbs w (demo_fresh w) = None"
proof -
  have "k \<le> sum_list (map fst (fst w))" if "k \<in> fst ` set (fst w)" for k
    using that by (intro member_le_sum_list) auto
  then show ?thesis unfolding demo_cbs_def map_of_eq_None_iff demo_fresh_def by fastforce
qed

lemma demo_removed: "map_of (filter (\<lambda>c. fst c \<noteq> h) cs) = (map_of cs)(h := None)"
  by (induction cs) auto

lemma demo_laws: "vpi_laws demo_vpi demo_cbs demo_value (\<lambda>_. 1) demo_object"
  unfolding vpi_laws_def demo_vpi_def
  using demo_fresh_new by (auto simp: demo_cbs_def demo_value_def demo_removed demo_fresh_def verilog_bits_def fun_eq_iff)

theorem bridge_callbacks_witness:
  "\<exists>s. bridge_run demo_vpi demo_cbs s \<and> wait_cbs (demo_cbs (world s)) = (if active_wait s = 0 then {} else {active_wait s})"
proof -
  have "bridge_run demo_vpi demo_cbs (startup_fn demo_vpi (bridge_init ''wait 7'' ([], \<lambda>_. ''0'')))"
    by (rule bridge_run.load) (simp add: demo_cbs_def)
  then have "bridge_run demo_vpi demo_cbs (bridge_event demo_vpi Started
      ((startup_fn demo_vpi (bridge_init ''wait 7'' ([], \<lambda>_. ''0'')))\<lparr>world := ([], \<lambda>_. ''0'')\<rparr>))"
    by (rule bridge_run.call) (simp add: startup_fn_def demo_vpi_def bridge_init_def demo_cbs_def demo_fresh_def)
  then show ?thesis using bridge_callbacks [OF demo_laws] by blast
qed

end
