(* ===== verification/Vpi_Bench.thy ===== *)
theory Vpi_Bench
  imports Vpi_Runs
begin

text \<open>
  A bench talking through the bridge: the lines that sim_set, sim_seti, sim_force_read and send_echo of
  simulator.c write, served by \<open>read_cmds\<close>, and the answers parsed by \<open>parse_command\<close> of simulator.c.
  The abstract specification is a table of variables.
\<close>

section \<open>The specification\<close>

datatype request = Read_Rq nat | Write_Rq nat string

fun replies :: "(nat \<Rightarrow> string) \<Rightarrow> request list \<Rightarrow> cmd list" where
  "replies m [] = []"
| "replies m (Read_Rq i # rs) = CMD_READ i (m i) # replies m rs"
| "replies m (Write_Rq i x # rs) = replies (m(i := x)) rs"

fun finally_holds :: "(nat \<Rightarrow> string) \<Rightarrow> request list \<Rightarrow> nat \<Rightarrow> string" where
  "finally_holds m [] = m"
| "finally_holds m (Read_Rq i # rs) = finally_holds m rs"
| "finally_holds m (Write_Rq i x # rs) = finally_holds (m(i := x)) rs"

fun print_request :: "signal list \<Rightarrow> request \<Rightarrow> string" where
  "print_request ss (Read_Rq i) = ''r '' @ sig_name (ss ! i) @ [CHR 0x0A]"
| "print_request ss (Write_Rq i x) = ''w '' @ sig_name (ss ! i) @ '' '' @ x @ [CHR 0x0A]"

fun is_read_reply :: "cmd \<Rightarrow> bool" where
  "is_read_reply (CMD_READ i x) = True"
| "is_read_reply c = False"

section \<open>Words of a line\<close>

definition token :: "string \<Rightarrow> bool" where
  "token w \<longleftrightarrow> w \<noteq> [] \<and> (\<forall>c\<in>set w. \<not> c_isspace c \<and> c \<noteq> CHR 0x00)"

lemma token_word: "token w \<Longrightarrow> word_ok w"
  by (auto simp: token_def word_ok_def list_all_iff c_isspace_def c_isblank_def)

lemma token_bits: "verilog_bits x \<Longrightarrow> token x"
  by (auto simp: verilog_bits_def token_def c_isspace_def)

lemma token_digits: "token (dec_string n)"
  using dec_string_digits [of n] by (auto simp: token_def dec_string_ne c_isdigit_def c_isspace_def)

lemma token_simps: "token ''r''" "token ''w''" "token ''.''"
  by (simp_all add: token_def c_isspace_def)

lemma words_no_nul: "(\<And>w. w \<in> set ws \<Longrightarrow> token w) \<Longrightarrow> cstr (print_words ws) = print_words ws"
  by (intro cstr_plain, induction ws) (auto simp: list_all_iff token_def)

lemma split_parts_words:
  assumes "\<And>w. w \<in> set ws \<Longrightarrow> token w" "length ws \<le> 6"
  shows "split_parts (cstr (print_words ws)) = Some ws"
proof -
  have "cstr (print_words ws) = print_words ws" using assms(1) by (rule words_no_nul)
  moreover have "split_line 0 (print_words ws) = Some ws"
    using assms by (intro split_line_print) (auto simp: token_def)
  ultimately show ?thesis by (simp add: split_parts_def)
qed

lemma print_words_line: "ws \<noteq> [] \<Longrightarrow> (\<And>w. w \<in> set ws \<Longrightarrow> token w) \<Longrightarrow>
  \<exists>l. print_words ws = l @ [CHR 0x0A] \<and> (\<forall>c\<in>set l. c \<noteq> CHR 0x0A)"
proof (induction ws)
  case (Cons w ws)
  have w: "\<forall>c\<in>set w. c \<noteq> CHR 0x0A" using Cons.prems(2) by (auto simp: token_def c_isspace_def)
  show ?case
  proof (cases "ws = []")
    case False
    then obtain l where "print_words ws = l @ [CHR 0x0A] \<and> (\<forall>c\<in>set l. c \<noteq> CHR 0x0A)" using Cons by auto
    then show ?thesis using False w by (intro exI [of _ "w @ CHR '' '' # l"]) auto
  qed (use w in auto)
qed simp

lemma fgets_words:
  assumes "ws \<noteq> []" "\<And>w. w \<in> set ws \<Longrightarrow> token w" "length (print_words ws) < 1024"
  shows "fgets 1024 (print_words ws @ rest) = Some (print_words ws, rest)"
proof -
  obtain l where l: "print_words ws = l @ [CHR 0x0A]" "\<forall>c\<in>set l. c \<noteq> CHR 0x0A"
    using print_words_line [OF assms(1,2)] by blast
  then have "takeWhile (\<lambda>c. c \<noteq> CHR 0x0A) (print_words ws @ rest) = l" by (simp add: takeWhile_append2)
  then show ?thesis using assms(3) by (simp add: fgets_def l(1))
qed

lemma request_words:
  "print_request ss (Read_Rq i) = print_words [''r'', sig_name (ss ! i)]"
  "print_request ss (Write_Rq i x) = print_words [''w'', sig_name (ss ! i), x]"
  by simp_all

section \<open>What the bench hears\<close>

text \<open>The bridge prints its messages in the format that \<open>parse_command\<close> reads.\<close>

lemma bridge_messages:
  "vpi_print_time v s = vpi_printf (print_cmd_vpi ss (CMD_TIME (get_sim_time v s))) s"
  "vpi_printf (''v '' @ sig_name (ss ! i) @ '' '' @ dec_string (unat t) @ '' ps '' @ x) s = vpi_printf (print_cmd_vpi ss (CMD_VALUE i t x)) s"
  "vpi_printf (''r '' @ sig_name (ss ! i) @ '' '' @ x) s = vpi_printf (print_cmd_vpi ss (CMD_READ i x)) s"
  "vpi_printf (''. '' @ a) s = vpi_printf (print_cmd_vpi ss (CMD_ECHO a)) s"
  by (simp_all add: vpi_print_time_def)

lemma parse_answer:
  assumes "table_ok ss" "i < length ss" "verilog_bits x"
  shows "parse_command ss k (''r '' @ sig_name (ss ! i) @ '' '' @ x) = Parsed (CMD_READ i x)"
    and "parse_command ss k (''v '' @ sig_name (ss ! i) @ '' '' @ dec_string (unat t) @ '' ps '' @ x) = Parsed (CMD_VALUE i (t * k) x)"
  using parse_print_vpi [OF assms(1), of "CMD_READ i x" k] parse_print_vpi [OF assms(1), of "CMD_VALUE i t x" k]
    assms(2) token_word [OF token_bits [OF assms(3)]] by simp_all

lemma parse_echo_answer: "parse_command ss k (''. '' @ dec_string n) = Parsed (CMD_ECHO (dec_string n))"
proof -
  have w: "word_ok (dec_string n)" by (rule token_word [OF token_digits])
  then have "cstr (''. '' @ dec_string n) = ''. '' @ dec_string n"
    by (intro cstr_plain) (auto simp: word_ok_def list_all_iff)
  then show ?thesis
    using w by (simp add: parse_command_def split_string_last split_string_char word_ok_simps MAX_PARTS_def parse_parts_def)
qed

definition says :: "signal list \<Rightarrow> u64 \<Rightarrow> 'w bridge \<Rightarrow> cmd list \<Rightarrow> 'w bridge \<Rightarrow> bool" where
  "says ss k s cs t \<longleftrightarrow>
     (\<exists>ls. msg_out t = msg_out s @ concat (map (\<lambda>l. l @ [CHR 0x0A]) ls) \<and> map (parse_command ss k) ls = map Parsed cs)"

lemma says_same: "msg_out t = msg_out s \<Longrightarrow> says ss k s [] t"
  by (simp add: says_def)

lemma says_line: "msg_out t = msg_out s @ l @ [CHR 0x0A] \<Longrightarrow> parse_command ss k l = Parsed c \<Longrightarrow> says ss k s [c] t"
  by (auto simp: says_def intro!: exI [of _ "[l]"])

lemma says_trans: "says ss k s cs t \<Longrightarrow> says ss k t ds u \<Longrightarrow> says ss k s (cs @ ds) u"
  unfolding says_def by (metis append_assoc concat_append map_append)

section \<open>Serving requests\<close>

text \<open>The names in the bench's table are one word each and name different objects of the design.\<close>

definition bench_table :: "signal list \<Rightarrow> (string \<Rightarrow> nat) \<Rightarrow> bool" where
  "bench_table ss obj \<longleftrightarrow>
     table_ok ss \<and> (\<forall>n\<in>sig_name ` set ss. token n \<and> obj n \<noteq> 0) \<and> inj_on obj (sig_name ` set ss)"

fun request_ok :: "signal list \<Rightarrow> (string \<Rightarrow> nat) \<Rightarrow> (nat \<Rightarrow> nat) \<Rightarrow> request \<Rightarrow> bool" where
  "request_ok ss obj wd (Read_Rq i) \<longleftrightarrow> i < length ss \<and> length (sig_name (ss ! i)) < 1000"
| "request_ok ss obj wd (Write_Rq i x) \<longleftrightarrow>
     i < length ss \<and> verilog_bits x \<and> length x = wd (obj (sig_name (ss ! i))) \<and> length (sig_name (ss ! i)) + length x < 1000"

text \<open>Between two commands: the callbacks agree with the statics, and the signals of the table have the values \<open>m\<close>.\<close>

definition in_table ::
  "signal list \<Rightarrow> ('w \<Rightarrow> callbacks) \<Rightarrow> ('w \<Rightarrow> nat \<Rightarrow> string) \<Rightarrow> (string \<Rightarrow> nat) \<Rightarrow> (nat \<Rightarrow> string) \<Rightarrow> 'w bridge \<Rightarrow> bool" where
  "in_table ss cbs val obj m s \<longleftrightarrow>
     bridge_ok cbs s \<and> active_wait s = 0 \<and> \<not> is_waiting s \<and>
     (\<forall>x\<in>set (vsignals s). vs_name x \<in> sig_name ` set ss \<and> vs_hnd x = obj (vs_name x)) \<and>
     (\<forall>i<length ss. val (world s) (obj (sig_name (ss ! i))) = m i)"

lemma in_table_frame:
  "in_table ss cbs val obj m (vpi_printf txt s) = in_table ss cbs val obj m s"
  "in_table ss cbs val obj m (s\<lparr>cmd_in := inp\<rparr>) = in_table ss cbs val obj m s"
  by (simp_all add: in_table_def)

lemma get_signal_serves:
  assumes l: "vpi_laws v cbs val wd obj" and t: "bench_table ss obj" and s: "in_table ss cbs val obj m s" and n: "n \<in> sig_name ` set ss"
  shows "\<exists>s1. get_signal v n s = (Some \<lparr>vs_name = n, vs_hnd = obj n\<rparr>, s1) \<and> in_table ss cbs val obj m s1 \<and>
    msg_out s1 = msg_out s \<and> echo_pending s1 = echo_pending s"
proof -
  have ok: "bridge_ok cbs (snd (get_signal v n s))" using s get_signal_ok [OF l] by (simp add: in_table_def)
  have o: "obj n \<noteq> 0" using t n by (auto simp: bench_table_def)
  show ?thesis
  proof (cases "find (\<lambda>x. vs_name x = n) (vsignals s)")
    case None
    obtain h w where r: "vpi_register_cb v (Value_Cb \<lparr>vs_name = n, vs_hnd = obj n\<rparr>) (world s) = (h, w)" by fastforce
    have g: "get_signal v n s = (Some \<lparr>vs_name = n, vs_hnd = obj n\<rparr>,
        s\<lparr>vsignals := vsignals s @ [\<lparr>vs_name = n, vs_hnd = obj n\<rparr>], world := vpi_free_object v h w\<rparr>)"
      using r o None by (simp add: get_signal_def Let_def laws_calls(6) [OF l])
    then show ?thesis
      using s ok n laws_register [OF l r] by (simp add: in_table_def laws_calls(4) [OF l])
  next
    case (Some x)
    then have "x \<in> set (vsignals s)" "vs_name x = n" by (auto simp: find_Some_iff)
    then have "x = \<lparr>vs_name = n, vs_hnd = obj n\<rparr>" using s by (cases x) (auto simp: in_table_def)
    then show ?thesis using s Some by (simp add: get_signal_def)
  qed
qed

lemma read_serves:
  assumes l: "vpi_laws v cbs val wd obj" and t: "bench_table ss obj" and s: "in_table ss cbs val obj m s" and i: "i < length ss"
  shows "in_table ss cbs val obj m (read_signal v (sig_name (ss ! i)) s) \<and>
    says ss k s [CMD_READ i (m i)] (read_signal v (sig_name (ss ! i)) s) \<and>
    echo_pending (read_signal v (sig_name (ss ! i)) s) = echo_pending s"
proof -
  let ?n = "sig_name (ss ! i)"
  have "?n \<in> sig_name ` set ss" using i by simp
  from get_signal_serves [OF l t s this] obtain s1 where g: "get_signal v ?n s = (Some \<lparr>vs_name = ?n, vs_hnd = obj ?n\<rparr>, s1)"
    "in_table ss cbs val obj m s1" "msg_out s1 = msg_out s" "echo_pending s1 = echo_pending s" by blast
  have m: "val (world s1) (obj ?n) = m i" using g(2) i by (simp add: in_table_def)
  then have b: "verilog_bits (m i)" using laws_calls(8) [OF l] by metis
  have r: "read_signal v ?n s = vpi_printf (''r '' @ ?n @ '' '' @ m i) s1"
    by (simp add: read_signal_def g(1) laws_calls(7) [OF l] m)
  have "table_ok ss" using t by (simp add: bench_table_def)
  from parse_answer(1) [OF this i b] show ?thesis
    unfolding r using g by (intro conjI says_line) (simp_all add: in_table_frame)
qed

lemma changes_heard:
  assumes "table_ok ss" "\<And>c. c \<in> set cs \<Longrightarrow> vs_name (ch_signal c) \<in> sig_name ` set ss \<and> verilog_bits (ch_value c)"
    "\<not> read_cmds_on_val_change s"
  shows "\<exists>ds. says ss k s ds (fold (val_change_cb (\<lambda>t. t)) cs s) \<and> filter is_read_reply ds = []"
  using assms(2,3)
proof (induction cs arbitrary: s)
  case Nil
  then show ?case by (intro exI [of _ "[]"]) (simp add: says_same)
next
  case (Cons c cs)
  let ?t = "val_change_cb (\<lambda>t. t) c s"
  obtain j where j: "j < length ss" "vs_name (ch_signal c) = sig_name (ss ! j)" using Cons.prems(1) [of c] by (auto simp: in_set_conv_nth)
  have "\<exists>ds. says ss k s ds ?t \<and> filter is_read_reply ds = []"
  proof (cases "ch_format c = vpiBinStrVal")
    case True
    have "verilog_bits (ch_value c)" using Cons.prems(1) by simp
    from parse_answer(2) [OF assms(1) j(1) this] True j show ?thesis
      by (intro exI [of _ "[CMD_VALUE j (time2num (ch_time c) * k) (ch_value c)]"] conjI says_line)
        (simp_all add: val_change_cb_def Let_def)
  next
    case False
    then show ?thesis by (intro exI [of _ "[]"]) (simp add: says_same val_change_cb_def)
  qed
  then obtain ds where ds: "says ss k s ds ?t" "filter is_read_reply ds = []" by blast
  have "\<not> read_cmds_on_val_change ?t" using Cons.prems(2) by (simp add: val_change_cb_def Let_def)
  then obtain es where es: "says ss k ?t es (fold (val_change_cb (\<lambda>t. t)) cs ?t)" "filter is_read_reply es = []"
    using Cons.IH Cons.prems(1) by fastforce
  show ?case using says_trans [OF ds(1) es(1)] ds(2) es(2) by (intro exI [of _ "ds @ es"]) simp
qed

lemma own_changes_waiting:
  "\<not> is_waiting s \<Longrightarrow> \<not> is_waiting (fold (val_change_cb (\<lambda>t. t)) cs s)"
  by (induction cs arbitrary: s) (simp_all add: val_change_cb_def Let_def)

lemma write_serves:
  assumes l: "vpi_laws v cbs val wd obj" and t: "bench_table ss obj" and s: "in_table ss cbs val obj m s"
    and r: "request_ok ss obj wd (Write_Rq i x)"
  defines "s' \<equiv> write_signal v (sig_name (ss ! i)) x s"
  shows "in_table ss cbs val obj (m(i := x)) s' \<and> echo_pending s' = echo_pending s \<and>
    (\<exists>ds. says ss k s ds s' \<and> filter is_read_reply ds = [])"
proof -
  let ?n = "sig_name (ss ! i)"
  have i: "i < length ss" "verilog_bits x" "length x = wd (obj ?n)" using r by auto
  then have "?n \<in> sig_name ` set ss" by simp
  from get_signal_serves [OF l t s this] obtain s1 where g: "get_signal v ?n s = (Some \<lparr>vs_name = ?n, vs_hnd = obj ?n\<rparr>, s1)"
    "in_table ss cbs val obj m s1" "msg_out s1 = msg_out s" "echo_pending s1 = echo_pending s" by blast
  obtain cs w where p: "vpi_put_value v (obj ?n) x (world s1) = (cs, w)" by fastforce
  let ?u = "s1\<lparr>read_cmds_on_val_change := False, world := w\<rparr>"
  let ?f = "fold (val_change_cb (\<lambda>t. t)) cs ?u"
  have s': "s' = ?f\<lparr>read_cmds_on_val_change := True\<rparr>" by (simp add: s'_def write_signal_def g(1) p)
  have known: "vs_name (ch_signal c) \<in> sig_name ` set ss \<and> verilog_bits (ch_value c)" if c: "c \<in> set cs" for c
  proof -
    obtain q where "cbs (world s1) q = Some (Value_Cb (ch_signal c))" and b: "verilog_bits (ch_value c)"
      using laws_put(3) [OF l p c] by blast
    then have "value_cbs (cbs (world s1)) (ch_signal c) \<noteq> {}" by (auto simp: value_cbs_def)
    then have "ch_signal c \<in> set (vsignals s1)" using g(2) by (auto simp: in_table_def bridge_ok_def split: if_splits)
    then show ?thesis using g(2) b by (simp add: in_table_def)
  qed
  have tab: "table_ok ss" using t by (simp add: bench_table_def)
  have "\<not> read_cmds_on_val_change ?u" by simp
  from changes_heard [OF tab known this] obtain ds where ds: "says ss k ?u ds ?f" "filter is_read_reply ds = []" by blast
  have "bridge_ok cbs s'"
    using write_signal_ok [OF l] s by (simp add: s'_def in_table_def)
  moreover have "val w (obj (sig_name (ss ! j))) = (m(i := x)) j" if "j < length ss" for j
  proof (cases "j = i")
    case False
    then have "sig_name (ss ! j) \<noteq> ?n" using tab that i(1) by (simp add: table_ok_def distinct_conv_nth)
    then have "obj (sig_name (ss ! j)) \<noteq> obj ?n" using t that i(1) by (auto simp: bench_table_def inj_on_def)
    then show ?thesis using False g(2) that laws_put(2) [OF l p i(2,3)] by (simp add: in_table_def)
  qed (simp add: laws_put(2) [OF l p i(2,3)])
  ultimately have "in_table ss cbs val obj (m(i := x)) s'"
    using g(2) own_changes_waiting [of ?u cs] by (auto simp: in_table_def s')
  moreover have "says ss k s ds s'" using ds(1) g(3) by (simp add: says_def s')
  ultimately show ?thesis using ds(2) g(4) s' by auto
qed

lemma cmd_loop_goes_on:
  assumes "fgets 1024 (cmd_in s) = Some (l, rest)" "do_cmd v l (s\<lparr>cmd_in := rest\<rparr>) = (False, t)"
  shows "cmd_loop v s = cmd_loop v t"
  by (subst cmd_loop.simps) (simp add: assms)

lemma request_serves:
  assumes l: "vpi_laws v cbs val wd obj" and t: "bench_table ss obj" and s: "in_table ss cbs val obj m s"
    and r: "request_ok ss obj wd rq" and inp: "cmd_in s = print_request ss rq @ rest"
  shows "\<exists>s' ds. cmd_loop v s = cmd_loop v s' \<and> cmd_in s' = rest \<and> in_table ss cbs val obj (finally_holds m [rq]) s' \<and>
    echo_pending s' = echo_pending s \<and> says ss k s ds s' \<and> filter is_read_reply ds = replies m [rq]"
proof -
  have tok: "token (sig_name (ss ! i))" if "i < length ss" for i using t that by (auto simp: bench_table_def)
  have says: "says ss k (s\<lparr>cmd_in := rest\<rparr>) ds u = says ss k s ds u" for ds u by (simp add: says_def)
  have s1: "in_table ss cbs val obj m (s\<lparr>cmd_in := rest\<rparr>)" using s by (simp add: in_table_frame)
  show ?thesis
  proof (cases rq)
    case (Read_Rq i)
    let ?ws = "[''r'', sig_name (ss ! i)]"
    have i: "i < length ss" using r Read_Rq by simp
    have ws: "\<And>w. w \<in> set ?ws \<Longrightarrow> token w" using tok [OF i] by (auto simp: token_simps)
    have f: "fgets 1024 (cmd_in s) = Some (print_words ?ws, rest)"
      using r unfolding inp Read_Rq request_words by (intro fgets_words ws) simp_all
    let ?t = "read_signal v (sig_name (ss ! i)) (s\<lparr>cmd_in := rest\<rparr>)"
    have "do_cmd v (print_words ?ws) (s\<lparr>cmd_in := rest\<rparr>) = (False, ?t)"
      using split_parts_words [of ?ws, OF ws] by (simp add: do_cmd_def del: print_words.simps)
    from cmd_loop_goes_on [OF f this] read_serves [OF l t s1 i, of k] show ?thesis
      unfolding says by (intro exI [of _ ?t] exI [of _ "[CMD_READ i (m i)]"]) (simp add: Read_Rq)
  next
    case (Write_Rq i x)
    let ?ws = "[''w'', sig_name (ss ! i), x]"
    have i: "i < length ss" "verilog_bits x" using r Write_Rq by simp_all
    have ws: "\<And>w. w \<in> set ?ws \<Longrightarrow> token w" using tok [OF i(1)] token_bits [OF i(2)] by (auto simp: token_simps)
    have f: "fgets 1024 (cmd_in s) = Some (print_words ?ws, rest)"
      using r unfolding inp Write_Rq request_words by (intro fgets_words ws) simp_all
    let ?t = "write_signal v (sig_name (ss ! i)) x (s\<lparr>cmd_in := rest\<rparr>)"
    have d: "do_cmd v (print_words ?ws) (s\<lparr>cmd_in := rest\<rparr>) = (False, ?t)"
      using split_parts_words [of ?ws, OF ws] by (simp add: do_cmd_def del: print_words.simps)
    obtain ds where "in_table ss cbs val obj (m(i := x)) ?t" "echo_pending ?t = echo_pending s" "says ss k s ds ?t"
      "filter is_read_reply ds = []"
      using write_serves [OF l t s1 r [unfolded Write_Rq], of k] unfolding says by auto
    with cmd_loop_goes_on [OF f d] show ?thesis
      by (intro exI [of _ ?t] exI [of _ ds]) (simp add: Write_Rq)
  qed
qed

lemma finally_holds_Cons: "finally_holds m (rq # rs) = finally_holds (finally_holds m [rq]) rs"
  and replies_Cons: "replies m (rq # rs) = replies m [rq] @ replies (finally_holds m [rq]) rs"
  by (cases rq; simp)+

lemma requests_serve:
  assumes l: "vpi_laws v cbs val wd obj" and t: "bench_table ss obj"
  shows "in_table ss cbs val obj m s \<Longrightarrow> list_all (request_ok ss obj wd) rs \<Longrightarrow>
    cmd_in s = concat (map (print_request ss) rs) @ rest \<Longrightarrow>
    \<exists>s' ds. cmd_loop v s = cmd_loop v s' \<and> cmd_in s' = rest \<and> in_table ss cbs val obj (finally_holds m rs) s' \<and>
      echo_pending s' = echo_pending s \<and> says ss k s ds s' \<and> filter is_read_reply ds = replies m rs"
proof (induction rs arbitrary: m s)
  case Nil
  then show ?case by (intro exI [of _ s] exI [of _ "[]"]) (simp add: says_same)
next
  case (Cons rq rs)
  have r: "request_ok ss obj wd rq" and rs: "list_all (request_ok ss obj wd) rs" using Cons.prems(2) by simp_all
  have "cmd_in s = print_request ss rq @ (concat (map (print_request ss) rs) @ rest)" using Cons.prems(3) by simp
  from request_serves [OF l t Cons.prems(1) r this, of k] obtain u cs where u: "cmd_loop v s = cmd_loop v u"
    "cmd_in u = concat (map (print_request ss) rs) @ rest" "in_table ss cbs val obj (finally_holds m [rq]) u"
    "echo_pending u = echo_pending s" "says ss k s cs u" "filter is_read_reply cs = replies m [rq]" by blast
  from Cons.IH [OF u(3) rs u(2)] obtain s' ds where d: "cmd_loop v u = cmd_loop v s'" "cmd_in s' = rest"
    "in_table ss cbs val obj (finally_holds (finally_holds m [rq]) rs) s'" "echo_pending s' = echo_pending u"
    "says ss k u ds s'" "filter is_read_reply ds = replies (finally_holds m [rq]) rs" by blast
  show ?case
  proof (intro exI conjI)
    show "says ss k s (cs @ ds) s'" by (rule says_trans [OF u(5) d(5)])
    show "filter is_read_reply (cs @ ds) = replies m (rq # rs)"
      by (simp only: filter_append u(6) d(6) replies_Cons [of m rq rs])
    show "in_table ss cbs val obj (finally_holds m (rq # rs)) s'" using d(3) by (simp only: finally_holds_Cons [of m rq rs])
    show "cmd_loop v s = cmd_loop v s'" by (simp only: u(1) d(1))
    show "cmd_in s' = rest" by (rule d(2))
    show "echo_pending s' = echo_pending s" by (simp only: u(4) d(4))
  qed
qed

section \<open>Properties\<close>

lemma echo_serves:
  assumes "n < 65536" "cmd_in s = ''. '' @ dec_string n @ [CHR 0x0A] @ rest"
  shows "cmd_loop v s = schedule_echo v (of_nat n) (s\<lparr>cmd_in := rest\<rparr>)"
proof -
  let ?ws = "[''.'', dec_string n]"
  have ws: "\<And>w. w \<in> set ?ws \<Longrightarrow> token w" by (auto simp: token_simps token_digits)
  have "length (dec_string n) \<le> 5" using dec_string_length [of n 4] assms(1) by simp
  then have f: "fgets 1024 (print_words ?ws @ rest) = Some (print_words ?ws, rest)" by (intro fgets_words ws) simp_all
  have "strtoull (dec_string n) 10 = (of_nat n, [])" using strtoull_dec [of "[]" n] assms(1) by simp
  moreover have "take_bit 64 n = n" using assms(1) by (intro take_bit_nat_eq_self) simp
  then have "ucast (of_nat n :: u64) = (of_nat n :: u32)" by (simp add: unsigned_of_nat)
  ultimately have "do_cmd v (print_words ?ws) (s\<lparr>cmd_in := rest\<rparr>) = (True, schedule_echo v (of_nat n) (s\<lparr>cmd_in := rest\<rparr>))"
    using split_parts_words [of ?ws, OF ws] by (simp add: do_cmd_def do_echo_def del: print_words.simps)
  moreover have "cmd_in s = print_words ?ws @ rest" using assms(2) by simp
  ultimately show ?thesis by (subst cmd_loop.simps) (simp add: f del: print_words.simps)
qed

lemma schedule_echo_frame:
  "\<not> echo_pending s \<Longrightarrow> msg_out (schedule_echo v a s) = msg_out s \<and> cmd_in (schedule_echo v a s) = cmd_in s \<and>
   echo_pending (schedule_echo v a s) \<and> \<not> dirty (schedule_echo v a s) \<and> echo_reply (schedule_echo v a s) = a \<and>
   is_waiting (schedule_echo v a s) = is_waiting s"
  by (simp add: schedule_echo_def Let_def split_beta)

lemma schedule_echo_values:
  assumes l: "vpi_laws v cbs val wd obj"
  shows "val (world (schedule_echo v a s)) = val (world s)"
proof -
  obtain h w where r: "vpi_register_cb v (Echo_Cb (fst (vpi_get_time v (world s))) (snd (vpi_get_time v (world s)))) (world s) = (h, w)"
    by fastforce
  show ?thesis using laws_register [OF l r] by (simp add: schedule_echo_def Let_def split_beta r laws_calls(4) [OF l])
qed

lemma print_d_dec: "n < 65536 \<Longrightarrow> print_d (of_nat n) = dec_string n"
proof -
  assume n: "n < 65536"
  then have "unat (of_nat n :: u32) = n" by (simp add: unat_of_nat take_bit_nat_eq_self)
  moreover have "signed_take_bit 31 (int n) = int n" using n by (intro signed_take_bit_int_eq_self) simp_all
  then have "sint (of_nat n :: u32) \<ge> 0" by (simp add: signed_of_nat)
  ultimately show ?thesis by (simp add: print_d_def)
qed

text \<open>
  C12: A bench that talks to Icarus Verilog through the bridge sees the signals as variables. It writes any commands
  that set and read signals of its table, and an echo behind them: the bridge takes in exactly these commands, the
  objects have the values written last, everything it answers is understood by the bench, and the answers to
  reads are the values at that point, in order. When the simulator then calls the echo, the bench hears its number.
\<close>

theorem bridge_serves_bench:
  assumes "vpi_laws v cbs val wd obj" "bench_table ss obj" "in_table ss cbs val obj m s" "list_all (request_ok ss obj wd) rs"
    and "n < 65536" "cmd_in s = concat (map (print_request ss) rs) @ ''. '' @ dec_string n @ [CHR 0x0A] @ rest" "\<not> echo_pending s"
  shows "\<exists>s1 ds. read_cmds v s = s1 \<and> cmd_in s1 = rest \<and> echo_pending s1 \<and>
    (\<forall>i<length ss. val (world s1) (obj (sig_name (ss ! i))) = finally_holds m rs i) \<and>
    says ss k s ds s1 \<and> filter is_read_reply ds = replies m rs \<and>
    (\<forall>w. \<exists>t. echo_cb v (s1\<lparr>world := w\<rparr>) = read_cmds v t \<and> cmd_in t = rest \<and> says ss k s1 [CMD_ECHO (dec_string n)] t)"
proof -
  from requests_serve [OF assms(1-4,6), of k] obtain u ds where u: "cmd_loop v s = cmd_loop v u"
    "cmd_in u = ''. '' @ dec_string n @ [CHR 0x0A] @ rest" "in_table ss cbs val obj (finally_holds m rs) u"
    "echo_pending u = echo_pending s" "says ss k s ds u" "filter is_read_reply ds = replies m rs" by blast
  let ?s1 = "schedule_echo v (of_nat n) (u\<lparr>cmd_in := rest\<rparr>)"
  have "active_wait s = 0" using assms(3) by (simp add: in_table_def)
  then have r: "read_cmds v s = ?s1" by (simp add: read_cmds_def drop_wait_def u(1) echo_serves [OF assms(5) u(2)])
  note f = schedule_echo_frame [of "u\<lparr>cmd_in := rest\<rparr>" v "of_nat n"]
  have p: "\<not> echo_pending (u\<lparr>cmd_in := rest\<rparr>)" using u(4) assms(7) by simp
  have w: "\<not> is_waiting u" using u(3) by (simp add: in_table_def)
  show ?thesis
  proof (intro exI conjI allI impI)
    show "read_cmds v s = ?s1" "cmd_in ?s1 = rest" "echo_pending ?s1" using r f p by simp_all
    show "val (world ?s1) (obj (sig_name (ss ! i))) = finally_holds m rs i" if "i < length ss" for i
      using u(3) that by (simp add: schedule_echo_values [OF assms(1)] in_table_def)
    show "says ss k s ds ?s1" using u(5) f p by (simp add: says_def)
    show "filter is_read_reply ds = replies m rs" by (rule u(6))
  next
    fix q
    let ?t = "vpi_printf (''. '' @ dec_string n) (?s1\<lparr>world := q, echo_pending := False\<rparr>)"
    show "echo_cb v (?s1\<lparr>world := q\<rparr>) = read_cmds v ?t"
      using f p w by (simp add: echo_cb_def Let_def check_wait_def print_d_dec [OF assms(5)])
    show "cmd_in ?t = rest" using f p by simp
    show "says ss k ?s1 [CMD_ECHO (dec_string n)] ?t"
      by (rule says_line [OF _ parse_echo_answer]) simp
  qed
qed

theorem bridge_serves_bench_witness:
  "\<exists>s1 ds. read_cmds demo_vpi (bridge_init (''w db.ack 1'' @ [CHR 0x0A] @ ''r db.ack'' @ [CHR 0x0A] @ ''. 7'' @ [CHR 0x0A]) ([], \<lambda>_. ''0'')) = s1 \<and>
     filter is_read_reply ds = [CMD_READ 1 ''1''] \<and>
     says sample_table 1 (bridge_init (''w db.ack 1'' @ [CHR 0x0A] @ ''r db.ack'' @ [CHR 0x0A] @ ''. 7'' @ [CHR 0x0A]) ([], \<lambda>_. ''0'')) ds s1"
proof -
  let ?rs = "[Write_Rq 1 ''1'', Read_Rq 1]"
  let ?s = "bridge_init (concat (map (print_request sample_table) ?rs) @ ''. '' @ dec_string 7 @ [CHR 0x0A] @ []) ([], \<lambda>_. ''0'')"
  have 1: "bench_table sample_table demo_object"
    by (auto simp: bench_table_def sample_table_def table_ok_def word_ok_def c_isblank_def token_def c_isspace_def demo_object_def)
  have 2: "in_table sample_table demo_cbs demo_value demo_object (\<lambda>_. ''0'') ?s"
    by (simp add: in_table_def bridge_ok_def bridge_init_def demo_cbs_def demo_value_def verilog_bits_def
        echo_cbs_def wait_cbs_def value_cbs_def)
  have 3: "list_all (request_ok sample_table demo_object (\<lambda>_. 1)) ?rs"
    by (simp add: sample_table_def verilog_bits_def)
  have 4: "(7 :: nat) < 65536" "cmd_in ?s = concat (map (print_request sample_table) ?rs) @ ''. '' @ dec_string 7 @ [CHR 0x0A] @ []" "\<not> echo_pending ?s"
    by (simp_all add: bridge_init_def)
  have d: "dec_string 7 = ''7''" by (simp add: dec_string.simps digit_char_def char_of_def bit_0)
  have i: "concat (map (print_request sample_table) ?rs) @ ''. '' @ dec_string 7 @ [CHR 0x0A] @ [] =
    ''w db.ack 1'' @ [CHR 0x0A] @ ''r db.ack'' @ [CHR 0x0A] @ ''. 7'' @ [CHR 0x0A]"
    by (simp add: sample_table_def d)
  show ?thesis
    using bridge_serves_bench [OF demo_laws 1 2 3 4, of 1] unfolding i by fastforce
qed

end
