(* ===== verification/Hook_Links.thy ===== *)
theory Hook_Links
  imports Simulator
begin

text \<open>
  The linked lists under the sequences of the other theories: the macros of src/sim/sim/utlist.h that the
  sources use, and the lists of hooks of src/sim/sim/simulator.c, on memory. An address is a number, 0 is \<open>NULL\<close>, and
  the members \<open>next\<close> and \<open>prev\<close> of all elements are two functions. The last element of a doubly linked list has
  no \<open>next\<close>, and the \<open>prev\<close> of the first is the last. Shown: every operation on memory does what its
  counterpart does on sequences, and leaves other lists alone.
\<close>

section \<open>Lists in memory\<close>

record links =
  l_next :: "nat \<Rightarrow> nat"
  l_prev :: "nat \<Rightarrow> nat"

definition set_next :: "nat \<Rightarrow> nat \<Rightarrow> links \<Rightarrow> links" where
  "set_next p v l = l\<lparr>l_next := (l_next l)(p := v)\<rparr>"

definition set_prev :: "nat \<Rightarrow> nat \<Rightarrow> links \<Rightarrow> links" where
  "set_prev p v l = l\<lparr>l_prev := (l_prev l)(p := v)\<rparr>"

text \<open>Along \<open>f\<close> the addresses \<open>xs\<close> follow each other, and \<open>e\<close> follows the last.\<close>

fun chain :: "(nat \<Rightarrow> nat) \<Rightarrow> nat list \<Rightarrow> nat \<Rightarrow> bool" where
  "chain f [] e = True"
| "chain f (x # xs) e = (f x = hd (xs @ [e]) \<and> chain f xs e)"

definition sll :: "links \<Rightarrow> nat list \<Rightarrow> bool" where
  "sll l xs \<longleftrightarrow> distinct xs \<and> 0 \<notin> set xs \<and> chain (l_next l) xs 0"

definition dll :: "links \<Rightarrow> nat list \<Rightarrow> bool" where
  "dll l xs \<longleftrightarrow> sll l xs \<and> chain (l_prev l) (rev xs) (last xs)"

definition list_head :: "nat list \<Rightarrow> nat" where
  "list_head xs = (case xs of [] \<Rightarrow> 0 | x # _ \<Rightarrow> x)"

section \<open>The macros\<close>

definition dl_prepend_at :: "nat \<Rightarrow> nat \<Rightarrow> links \<Rightarrow> nat \<times> links" where
  "dl_prepend_at head add l =
     (let l1 = set_next add head l;
          l2 = (if head \<noteq> 0 then set_prev head add (set_prev add (l_prev l1 head) l1) else set_prev add add l1)
      in (add, l2))"

definition dl_append_at :: "nat \<Rightarrow> nat \<Rightarrow> links \<Rightarrow> nat \<times> links" where
  "dl_append_at head add l =
     (if head \<noteq> 0 then
        (let l1 = set_prev add (l_prev l head) l;
             l2 = set_next (l_prev l1 head) add l1;
             l3 = set_prev head add l2
         in (head, set_next add 0 l3))
      else (add, set_next add 0 (set_prev add add l)))"

text \<open>\<open>None\<close>: the assertion fails.\<close>

definition dl_delete_at :: "nat \<Rightarrow> nat \<Rightarrow> links \<Rightarrow> (nat \<times> links) option" where
  "dl_delete_at head del l =
     (if l_prev l del = 0 then None
      else if l_prev l del = del then Some (0, l)
      else if del = head then Some (l_next l del, set_prev (l_next l del) (l_prev l del) l)
      else let l1 = set_next (l_prev l del) (l_next l del) l in
        Some (head,
          if l_next l1 del \<noteq> 0 then set_prev (l_next l1 del) (l_prev l1 del) l1 else set_prev head (l_prev l1 del) l1))"

text \<open>\<open>for (el = head; el; el = el->next) if (p (el)) break;\<close>\<close>

partial_function (option) dl_search :: "(nat \<Rightarrow> bool) \<Rightarrow> links \<Rightarrow> nat \<Rightarrow> nat option" where
  "dl_search p l el = (if el = 0 then Some 0 else if p el then Some el else dl_search p l (l_next l el))"

text \<open>The last element of a singly linked list.\<close>

partial_function (option) ll_last :: "links \<Rightarrow> nat \<Rightarrow> nat option" where
  "ll_last l tmp = (if l_next l tmp = 0 then Some tmp else ll_last l (l_next l tmp))"

definition ll_append_at :: "nat \<Rightarrow> nat \<Rightarrow> links \<Rightarrow> (nat \<times> links) option" where
  "ll_append_at head add l =
     (let l1 = set_next add 0 l in
      if head \<noteq> 0 then map_option (\<lambda>t. (head, set_next t add l1)) (ll_last l1 head)
      else Some (add, l1))"

section \<open>Hooks\<close>

definition insert_before :: "nat \<Rightarrow> nat \<Rightarrow> links \<Rightarrow> links" where
  "insert_before h i l =
     (let l1 = set_next h i l;
          l2 = set_prev h (l_prev l1 i) l1;
          l3 = set_next (l_prev l2 i) h l2
      in set_prev i h l3)"

definition sim_hook_add_at :: "bool \<Rightarrow> (nat \<Rightarrow> u64) \<Rightarrow> nat \<Rightarrow> nat \<Rightarrow> links \<Rightarrow> (nat \<times> links) option" where
  "sim_hook_add_at calling tm head h l =
     (if \<not> calling \<and> tm h \<noteq> 0 \<and> head \<noteq> 0 then
        (if tm head = 0 \<or> tm head > tm h then Some (dl_prepend_at head h l)
         else map_option (\<lambda>i. if i \<noteq> 0 then (head, insert_before h i l) else dl_append_at head h l)
                (dl_search (\<lambda>i. tm i = 0 \<or> tm i > tm h) l head))
      else Some (dl_append_at head h l))"

text \<open>
  The traversal of the detached list in \<open>sim_fire_events\<close>. What becomes of a hook after its callback is \<open>act\<close>; the
  next hook is fetched before it. The result is the detached list, the list of the simulator and the memory. The
  callbacks themselves are not part of it: a hook that a callback adds is appended to the list of the simulator, which
  is \<open>dl_append_at\<close> on the other list and is not shown between the steps.
\<close>

datatype hook_action = Keep | Remove | Reschedule

partial_function (option) fire_traversal ::
  "(nat \<Rightarrow> hook_action) \<Rightarrow> nat \<Rightarrow> nat \<Rightarrow> nat \<Rightarrow> links \<Rightarrow> (nat \<times> nat \<times> links) option" where
  "fire_traversal act h det new l =
     (if h = 0 then Some (det, new, l)
      else let t = l_next l h in
        case act h of
          Keep \<Rightarrow> fire_traversal act t det new l
        | Remove \<Rightarrow> Option.bind (dl_delete_at det h l) (\<lambda>(det1, l1). fire_traversal act t det1 new l1)
        | Reschedule \<Rightarrow>
            Option.bind (dl_delete_at det h l)
              (\<lambda>(det1, l1). case dl_append_at new h l1 of (new1, l2) \<Rightarrow> fire_traversal act t det1 new1 l2))"

section \<open>Chains\<close>

lemma links_simps [simp]:
  "l_next (set_next p v l) = (l_next l)(p := v)" "l_prev (set_next p v l) = l_prev l"
  "l_prev (set_prev p v l) = (l_prev l)(p := v)" "l_next (set_prev p v l) = l_next l"
  by (simp_all add: set_next_def set_prev_def)

lemma list_head_simps [simp]: "list_head [] = 0" "list_head (x # xs) = x" "list_head (xs @ ys) = (if xs = [] then list_head ys else list_head xs)"
  by (simp_all add: list_head_def split: list.split)

lemma hd_end [simp]: "hd (xs @ [0]) = list_head xs"
  by (cases xs) simp_all

lemma chain_append: "chain f (xs @ ys) e \<longleftrightarrow> chain f xs (hd (ys @ [e])) \<and> chain f ys e"
  by (induction xs) (auto simp: hd_append)

lemma chain_other [simp]: "x \<notin> set xs \<Longrightarrow> chain (f(x := v)) xs e = chain f xs e"
  by (induction xs) auto

lemma chain_end: "distinct (xs @ [x]) \<Longrightarrow> chain (f(x := v)) (xs @ [x]) e' \<longleftrightarrow> chain f xs x \<and> v = e'"
  by (simp add: chain_append)

lemma dll_frame:
  assumes "dll l xs" "\<And>x. x \<in> set xs \<Longrightarrow> l_next l' x = l_next l x \<and> l_prev l' x = l_prev l x"
  shows "dll l' xs"
proof -
  have "chain f xs e = chain g xs e" if "\<And>x. x \<in> set xs \<Longrightarrow> f x = g x" for f g e and xs :: "nat list"
    using that by (induction xs) auto
  then show ?thesis using assms by (metis dll_def set_rev sll_def)
qed

lemma dll_Nil [simp]: "dll l []"
  by (simp add: dll_def sll_def)

lemma dll_prev_head: "dll l (x # xs) \<Longrightarrow> l_prev l x = last (x # xs)"
  by (auto simp: dll_def chain_append)

lemma dll_elem:
  assumes "dll l (ys @ x # zs)"
  shows "x \<noteq> 0" "x \<notin> set ys" "x \<notin> set zs" "set ys \<inter> set zs = {}" "distinct ys" "distinct zs" "0 \<notin> set ys" "0 \<notin> set zs"
    "l_next l x = list_head zs" "l_prev l x = (if ys = [] then last (x # zs) else last ys)"
    "chain (l_next l) ys x" "chain (l_next l) zs 0" "chain (l_prev l) (rev zs) x" "chain (l_prev l) (rev ys) (last (x # zs))"
proof -
  have sl: "sll l (ys @ x # zs)" and pr: "chain (l_prev l) (rev zs @ x # rev ys) (last (x # zs))"
    using assms by (simp_all add: dll_def)
  show "x \<noteq> 0" "x \<notin> set ys" "x \<notin> set zs" "set ys \<inter> set zs = {}" "distinct ys" "distinct zs" "0 \<notin> set ys" "0 \<notin> set zs"
    using sl by (auto simp: sll_def)
  show "chain (l_next l) ys x" "chain (l_next l) zs 0" using sl by (simp_all add: sll_def chain_append)
  show "l_next l x = list_head zs" using sl by (cases zs) (simp_all add: sll_def chain_append)
  show "chain (l_prev l) (rev zs) x" "chain (l_prev l) (rev ys) (last (x # zs))" using pr by (simp_all add: chain_append)
  show "l_prev l x = (if ys = [] then last (x # zs) else last ys)"
    using pr by (cases ys rule: rev_cases) (simp_all add: chain_append)
qed

lemma dll_first:
  assumes "dll l (x # zs)"
  shows "x \<noteq> 0" "x \<notin> set zs" "distinct zs" "0 \<notin> set zs" "l_next l x = list_head zs"
    "chain (l_next l) zs 0" "chain (l_prev l) (rev zs) x"
  using dll_elem [of l "[]" x zs] assms by simp_all

lemma dll_append:
  assumes "dll l xs" "h \<noteq> 0" "h \<notin> set xs"
  shows "\<exists>l'. dl_append_at (list_head xs) h l = (list_head (xs @ [h]), l') \<and> dll l' (xs @ [h]) \<and>
    (\<forall>y. y \<notin> insert h (set xs) \<longrightarrow> l_next l' y = l_next l y \<and> l_prev l' y = l_prev l y)"
proof (cases xs)
  case Nil
  then show ?thesis using assms by (auto simp: dl_append_at_def dll_def sll_def)
next
  case (Cons x rest)
  obtain ys z where e: "xs = ys @ [z]" using Cons by (metis append_butlast_last_id list.discI)
  note z = dll_elem [OF assms(1) [unfolded e]]
  note x = dll_first [OF assms(1) [unfolded Cons]]
  have zx: "z = last (x # rest)" using e Cons by (metis last_snoc)
  have lp: "l_prev l x = z" using dll_prev_head [OF assms(1) [unfolded Cons]] zx by simp
  let ?l = "set_next h 0 (set_prev x h (set_next z h (set_prev h z l)))"
  have hz: "h \<noteq> z" "h \<notin> set ys" using assms(3) unfolding e by auto
  have hx: "h \<noteq> x" "h \<notin> set rest" using assms(3) unfolding Cons by auto
  have a: "dl_append_at (list_head xs) h l = (list_head (xs @ [h]), ?l)"
    using hx x(1) by (simp add: Cons dl_append_at_def Let_def lp)
  have "chain (l_next ?l) (ys @ [z, h]) 0" using z hz by (simp add: chain_append)
  then have "chain (l_next ?l) (xs @ [h]) 0" by (simp only: e append_assoc append.simps)
  moreover have "z = hd (rev rest @ [x])" using zx hd_rev [of "x # rest"] by simp
  then have "chain (l_prev ?l) (h # rev rest @ [x]) h" using x hx hz by (simp add: chain_append hd_append)
  then have "chain (l_prev ?l) (rev (xs @ [h])) (last (xs @ [h]))" by (simp add: Cons del: links_simps)
  moreover have "distinct (xs @ [h])" "0 \<notin> set (xs @ [h])" using assms by (auto simp: dll_def sll_def)
  ultimately have "dll ?l (xs @ [h])" by (simp only: dll_def sll_def simp_thms)
  moreover have "z \<in> set xs" using e by simp
  moreover have "x \<in> set xs" using Cons by simp
  ultimately show ?thesis using a by (intro exI [of _ ?l]) auto
qed

lemma dll_prepend:
  assumes "dll l xs" "h \<noteq> 0" "h \<notin> set xs"
  shows "\<exists>l'. dl_prepend_at (list_head xs) h l = (h, l') \<and> dll l' (h # xs) \<and>
    (\<forall>y. y \<notin> insert h (set xs) \<longrightarrow> l_next l' y = l_next l y \<and> l_prev l' y = l_prev l y)"
proof (cases xs)
  case Nil
  then show ?thesis using assms by (auto simp: dl_prepend_at_def dll_def sll_def)
next
  case (Cons x rest)
  note x = dll_first [OF assms(1) [unfolded Cons]]
  have hx: "h \<noteq> x" "h \<notin> set rest" using assms(3) Cons by auto
  let ?l = "set_prev x h (set_prev h (last (x # rest)) (set_next h x l))"
  have "dl_prepend_at (list_head xs) h l = (h, ?l)"
    using x(1) dll_prev_head [OF assms(1) [unfolded Cons]] by (simp add: Cons dl_prepend_at_def)
  moreover have "dll ?l (h # xs)"
    using assms x hx by (simp add: Cons dll_def sll_def chain_append)
  ultimately show ?thesis using Cons by (intro exI [of _ ?l]) simp
qed

lemma dll_delete:
  assumes "dll l (ys @ x # zs)"
  shows "\<exists>l'. dl_delete_at (list_head (ys @ x # zs)) x l = Some (list_head (ys @ zs), l') \<and> dll l' (ys @ zs) \<and>
    (\<forall>y. y \<notin> set (ys @ x # zs) \<longrightarrow> l_next l' y = l_next l y \<and> l_prev l' y = l_prev l y)"
proof (cases ys)
  case Nil
  note x = dll_first [OF assms [unfolded Nil append_Nil]]
  have p: "l_prev l x = last (x # zs)" using dll_prev_head assms Nil by simp
  show ?thesis
  proof (cases zs)
    case (Cons z rest)
    note z = x [unfolded Cons]
    let ?l = "set_prev z (last (x # zs)) l"
    have "last (x # zs) \<noteq> x" "last (x # zs) \<noteq> 0"
      using z last_in_set [of "z # rest"] unfolding Cons by (metis last_ConsR list.discI)+
    then have "dl_delete_at (list_head (ys @ x # zs)) x l = Some (list_head (ys @ zs), ?l)"
      using p z by (simp add: Nil Cons dl_delete_at_def)
    moreover have "dll ?l (ys @ zs)" using z by (simp add: Nil Cons dll_def sll_def chain_append)
    ultimately show ?thesis using Cons by (intro exI [of _ ?l]) simp
  qed (use p x(1) Nil in \<open>simp add: dl_delete_at_def\<close>)
next
  case (Cons y rest)
  note x = dll_elem [OF assms]
  obtain us u where u: "ys = us @ [u]" using Cons by (metis append_butlast_last_id list.discI)
  have p: "l_prev l x = u" "u \<noteq> x" "u \<noteq> 0" "u \<notin> set zs" "u \<notin> set us" using x u by auto
  have y: "y \<noteq> x" "y \<noteq> 0" "y \<notin> set zs" "y \<notin> set rest" using x Cons by auto
  show ?thesis
  proof (cases zs)
    case Nil
    let ?l = "set_prev y u (set_next u 0 l)"
    have "dl_delete_at (list_head (ys @ x # zs)) x l = Some (list_head (ys @ zs), ?l)"
      using p x(9) y by (simp add: Cons Nil dl_delete_at_def Let_def)
    moreover have "chain (l_next ?l) ys 0" using x(11) x(5) u by (simp add: chain_append)
    moreover have "chain (l_prev ?l) (rev rest @ [y]) u" using x(14) x(5) Cons by (simp add: chain_append)
    then have "chain (l_prev ?l) (rev ys) (last ys)" using u Cons by (metis last_snoc rev.simps(2))
    ultimately have "dll ?l ys" using x(5,7) by (simp only: dll_def sll_def simp_thms)
    moreover have "u \<in> set ys" using u by simp
    moreover have "y \<in> set ys" using Cons by simp
    ultimately show ?thesis
      using \<open>dl_delete_at _ x l = _\<close> by (intro exI [of _ ?l]) (auto simp: Nil)
  next
    case (Cons z more)
    note z = x [unfolded Cons]
    let ?l = "set_prev z u (set_next u z l)"
    have hd: "list_head (ys @ x # zs) = y" "list_head (ys @ zs) = y" using \<open>ys = y # rest\<close> by simp_all
    have "dl_delete_at (list_head (ys @ x # zs)) x l = Some (list_head (ys @ zs), ?l)"
      using p x(9) y z(8) unfolding hd by (simp add: Cons dl_delete_at_def Let_def)
    moreover have "chain (l_next ?l) (ys @ zs) 0" using z p u by (simp add: Cons chain_append)
    moreover have "chain (l_prev ?l) (rev (ys @ zs)) (last (ys @ zs))"
      using z p u by (simp add: Cons chain_append)
    moreover have "distinct (ys @ zs)" "0 \<notin> set (ys @ zs)" using x by auto
    ultimately show ?thesis
      using u Cons by (intro exI [of _ ?l]) (auto simp: dll_def sll_def)
  qed
qed

lemma dll_insert_before:
  assumes "dll l (ys @ i # zs)" "ys \<noteq> []" "h \<noteq> 0" "h \<notin> set (ys @ i # zs)"
  shows "dll (insert_before h i l) (ys @ h # i # zs) \<and>
    (\<forall>y. y \<notin> insert h (set (ys @ i # zs)) \<longrightarrow>
       l_next (insert_before h i l) y = l_next l y \<and> l_prev (insert_before h i l) y = l_prev l y)"
proof -
  note x = dll_elem [OF assms(1)]
  obtain us u where u: "ys = us @ [u]" using assms(2) by (metis append_butlast_last_id)
  have p: "l_prev l i = u" "u \<noteq> i" "u \<noteq> h" "i \<noteq> h" "u \<notin> set zs" "u \<notin> set us" "h \<notin> set us" "h \<notin> set zs" "i \<notin> set us"
    using x u assms(4) by auto
  have l: "insert_before h i l = set_prev i h (set_next u h (set_prev h u (set_next h i l)))"
    using p by (simp add: insert_before_def Let_def)
  have "chain (l_next (insert_before h i l)) (ys @ h # i # zs) 0"
    using x p u by (simp add: l chain_append)
  moreover have "chain (l_prev (insert_before h i l)) (rev (ys @ h # i # zs)) (last (ys @ h # i # zs))"
    using x p u by (simp add: l chain_append)
  ultimately show ?thesis using x assms(3,4) u by (auto simp: dll_def sll_def l)
qed

section \<open>Searching and inserting\<close>

lemma search_finds:
  assumes "0 \<notin> set xs" "chain (l_next l) xs 0"
  shows "dl_search p l (list_head xs) = Some (list_head (dropWhile (\<lambda>x. \<not> p x) xs))"
  using assms
proof (induction xs)
  case Nil
  then show ?case by (subst dl_search.simps) simp
next
  case (Cons x xs)
  then show ?case by (subst dl_search.simps) simp
qed

lemma hook_insert_split:
  "hook_insert tm h xs = takeWhile (\<lambda>i. \<not> (tm i = 0 \<or> tm i > tm h)) xs @ h # dropWhile (\<lambda>i. \<not> (tm i = 0 \<or> tm i > tm h)) xs"
  by (induction xs) auto

lemma hook_insert_in_memory:
  assumes "dll l xs" "xs \<noteq> []" "h \<noteq> 0" "h \<notin> set xs" "\<not> calling" "tm h \<noteq> 0"
  shows "\<exists>l'. sim_hook_add_at calling tm (list_head xs) h l = Some (list_head (hook_insert tm h xs), l') \<and> dll l' (hook_insert tm h xs) \<and>
    (\<forall>y. y \<notin> insert h (set xs) \<longrightarrow> l_next l' y = l_next l y \<and> l_prev l' y = l_prev l y)"
proof -
  obtain x rest where x: "xs = x # rest" using assms(2) by (cases xs) auto
  have nz: "x \<noteq> 0" and sl: "0 \<notin> set xs" "chain (l_next l) xs 0" using assms(1) x by (auto simp: dll_def sll_def)
  show ?thesis
  proof (cases "tm x = 0 \<or> tm x > tm h")
    case True
    then have "hook_insert tm h xs = h # xs" by (simp add: x)
    moreover have "sim_hook_add_at calling tm (list_head xs) h l = Some (dl_prepend_at (list_head xs) h l)"
      using True assms(5,6) nz by (simp add: sim_hook_add_at_def x)
    ultimately show ?thesis using dll_prepend [OF assms(1,3,4)] by auto
  next
    case False
    let ?p = "\<lambda>i. tm i = 0 \<or> tm i > tm h"
    let ?ys = "takeWhile (\<lambda>i. \<not> ?p i) xs" and ?zs = "dropWhile (\<lambda>i. \<not> ?p i) xs"
    have ys: "?ys \<noteq> []" "list_head (?ys @ zs) = x" for zs using False by (simp_all add: x)
    have add: "sim_hook_add_at calling tm (list_head xs) h l =
        Some (if list_head ?zs \<noteq> 0 then (x, insert_before h (list_head ?zs) l) else dl_append_at x h l)"
      using False assms(5,6) nz search_finds [OF sl, of ?p] by (simp add: sim_hook_add_at_def x)
    show ?thesis
    proof (cases ?zs)
      case Nil
      then have "?ys = xs" by (metis append_Nil2 takeWhile_dropWhile_id)
      then have i: "hook_insert tm h xs = xs @ [h]" unfolding hook_insert_split Nil by simp
      have "list_head ?zs = 0" by (simp only: Nil list_head_simps)
      then have "sim_hook_add_at calling tm (list_head xs) h l = Some (dl_append_at (list_head xs) h l)"
        unfolding add by (simp add: x)
      then show ?thesis using dll_append [OF assms(1,3,4)] unfolding i by auto
    next
      case (Cons i zs)
      have split: "xs = ?ys @ i # zs" using takeWhile_dropWhile_id [of "\<lambda>i. \<not> ?p i" xs] unfolding Cons by simp
      then have "i \<noteq> 0" using sl(1) by (metis in_set_conv_decomp)
      moreover have "list_head ?zs = i" unfolding Cons by simp
      ultimately have a: "sim_hook_add_at calling tm (list_head xs) h l = Some (x, insert_before h i l)" unfolding add by simp
      have i: "hook_insert tm h xs = ?ys @ h # i # zs" unfolding hook_insert_split Cons ..
      note ins = dll_insert_before [of l ?ys i zs h, folded split, OF assms(1) ys(1) assms(3,4)]
      show ?thesis
        unfolding a i ys by (rule exI [of _ "insert_before h i l"]) (use ins in blast)
    qed
  qed
qed

text \<open>
  C14: The list of hooks in memory is the sequence of the model. Adding a hook that is in no list, by the macros of
  utlist.h and the pointer assignments of sim_hook_add, gives a well-formed list of exactly the hooks that the
  sequence has then, in the same order, and every other list in memory stays as it is.
\<close>

theorem hook_add_in_memory:
  assumes "dll l (hooks s)" "h \<noteq> 0" "h \<notin> set (hooks s)"
  shows "\<exists>l'. sim_hook_add_at (calling_hooks s) (hook_time s) (list_head (hooks s)) h l =
      Some (list_head (hooks (sim_hook_add h s)), l') \<and> dll l' (hooks (sim_hook_add h s)) \<and>
    (\<forall>zs. dll l zs \<and> set zs \<inter> insert h (set (hooks s)) = {} \<longrightarrow> dll l' zs)"
proof -
  have "\<exists>l'. sim_hook_add_at (calling_hooks s) (hook_time s) (list_head (hooks s)) h l =
      Some (list_head (hooks (sim_hook_add h s)), l') \<and> dll l' (hooks (sim_hook_add h s)) \<and>
    (\<forall>y. y \<notin> insert h (set (hooks s)) \<longrightarrow> l_next l' y = l_next l y \<and> l_prev l' y = l_prev l y)"
  proof (cases "\<not> calling_hooks s \<and> hook_time s h \<noteq> 0 \<and> hooks s \<noteq> []")
    case True
    then have "hooks (sim_hook_add h s) = hook_insert (hook_time s) h (hooks s)" by (simp add: sim_hook_add_def)
    then show ?thesis using hook_insert_in_memory [of l "hooks s" h "calling_hooks s" "hook_time s"] True assms by simp
  next
    case False
    have "list_head (hooks s) \<noteq> 0" if "hooks s \<noteq> []" using assms(1) that by (cases "hooks s") (auto simp: dll_def sll_def)
    then have "sim_hook_add_at (calling_hooks s) (hook_time s) (list_head (hooks s)) h l = Some (dl_append_at (list_head (hooks s)) h l)"
      using False by (cases "hooks s") (auto simp: sim_hook_add_at_def)
    moreover have "hooks (sim_hook_add h s) = hooks s @ [h]" using False by (auto simp: sim_hook_add_def dl_append_def)
    ultimately show ?thesis using dll_append [OF assms] by auto
  qed
  then obtain l' where l': "sim_hook_add_at (calling_hooks s) (hook_time s) (list_head (hooks s)) h l =
      Some (list_head (hooks (sim_hook_add h s)), l')" "dll l' (hooks (sim_hook_add h s))"
    "\<forall>y. y \<notin> insert h (set (hooks s)) \<longrightarrow> l_next l' y = l_next l y \<and> l_prev l' y = l_prev l y" by blast
  have "dll l' zs" if "dll l zs" "set zs \<inter> insert h (set (hooks s)) = {}" for zs
    using that l'(3) by (intro dll_frame [OF that(1)]) blast
  then show ?thesis using l'(1,2) by blast
qed

text \<open>Three hooks in memory, two with a time.\<close>

definition demo_links :: links where
  "demo_links = \<lparr>l_next = (\<lambda>_. 0)(5 := 7, 7 := 6), l_prev = (\<lambda>_. 0)(5 := 6, 7 := 5, 6 := 7)\<rparr>"

lemma demo_dll: "dll demo_links [5, 7, 6]"
  by (simp add: dll_def sll_def demo_links_def)

definition demo_hooks :: "(unit, unit) sim \<Rightarrow> (unit, unit) sim" where
  "demo_hooks s =
     s\<lparr>hooks := [5, 7, 6], calling_hooks := False, hook_of := (\<lambda>h. (hook_of s h)\<lparr>hk_time := (if h = 6 then 0 else of_nat h * 10)\<rparr>)\<rparr>"

theorem hook_add_in_memory_witness:
  "\<forall>s. \<exists>l'. sim_hook_add_at False (hook_time (demo_hooks s)) 5 8 demo_links = Some (5, l') \<and> dll l' [5, 7, 8, 6]"
proof
  fix s
  let ?t = "demo_hooks s"
  have t: "hooks ?t = [5, 7, 6]" "\<not> calling_hooks ?t" "hook_time ?t h = (if h = 6 then 0 else of_nat h * 10)" for h
    by (simp_all add: demo_hooks_def hook_time_def)
  have "hooks (sim_hook_add 8 ?t) = [5, 7, 8, 6]" using t by (simp add: sim_hook_add_def)
  then show "\<exists>l'. sim_hook_add_at False (hook_time ?t) 5 8 demo_links = Some (5, l') \<and> dll l' [5, 7, 8, 6]"
    using hook_add_in_memory [of demo_links ?t 8] demo_dll t by auto
qed

section \<open>Deleting while traversing\<close>

lemma dll_delete_frame:
  assumes "dll l (ys @ x # zs)" "dll l ns" "set ns \<inter> set (ys @ x # zs) = {}"
  shows "\<exists>l'. dl_delete_at (list_head (ys @ x # zs)) x l = Some (list_head (ys @ zs), l') \<and> dll l' (ys @ zs) \<and> dll l' ns"
proof -
  from dll_delete [OF assms(1)] obtain l' where l': "dl_delete_at (list_head (ys @ x # zs)) x l = Some (list_head (ys @ zs), l')"
    "dll l' (ys @ zs)" "\<forall>y. y \<notin> set (ys @ x # zs) \<longrightarrow> l_next l' y = l_next l y \<and> l_prev l' y = l_prev l y" by blast
  then have "dll l' ns" using assms(3) by (intro dll_frame [OF assms(2)]) blast
  then show ?thesis using l' by blast
qed

lemma dll_append_frame:
  assumes "dll l ns" "dll l xs" "h \<noteq> 0" "h \<notin> set ns" "set xs \<inter> insert h (set ns) = {}"
  shows "\<exists>l'. dl_append_at (list_head ns) h l = (list_head (ns @ [h]), l') \<and> dll l' (ns @ [h]) \<and> dll l' xs"
proof -
  from dll_append [OF assms(1,3,4)] obtain l' where l': "dl_append_at (list_head ns) h l = (list_head (ns @ [h]), l')"
    "dll l' (ns @ [h])" "\<forall>y. y \<notin> insert h (set ns) \<longrightarrow> l_next l' y = l_next l y \<and> l_prev l' y = l_prev l y" by blast
  then have "dll l' xs" using assms(5) by (intro dll_frame [OF assms(2)]) blast
  then show ?thesis using l' by blast
qed

text \<open>
  C15: \<open>sim_fire_events\<close> deletes hooks from the list that it traverses. In memory this is safe: every hook of
  the detached list is visited once and in order, hooks that are removed or rescheduled leave it, the others
  stay in order, and the rescheduled ones are appended to the list of the simulator, both lists well-formed at the end.
\<close>

theorem fire_traversal_in_memory:
  assumes "dll l (kept @ hs)" "dll l ns" "set ns \<inter> set (kept @ hs) = {}"
  shows "\<exists>l'. fire_traversal act (list_head hs) (list_head (kept @ hs)) (list_head ns) l =
      Some (list_head (kept @ filter (\<lambda>h. act h = Keep) hs), list_head (ns @ filter (\<lambda>h. act h = Reschedule) hs), l') \<and>
    dll l' (kept @ filter (\<lambda>h. act h = Keep) hs) \<and> dll l' (ns @ filter (\<lambda>h. act h = Reschedule) hs)"
  using assms
proof (induction hs arbitrary: kept ns l)
  case Nil
  then show ?case by (subst fire_traversal.simps) auto
next
  case (Cons h hs)
  note h = dll_elem [OF Cons.prems(1)]
  let ?r = "fire_traversal act (list_head (h # hs)) (list_head (kept @ h # hs)) (list_head ns) l"
  show ?case
  proof (cases "act h")
    case Keep
    have "?r = fire_traversal act (list_head hs) (list_head ((kept @ [h]) @ hs)) (list_head ns) l"
      using h(1,9) by (subst fire_traversal.simps) (simp add: Keep)
    moreover have "dll l ((kept @ [h]) @ hs)" "set ns \<inter> set ((kept @ [h]) @ hs) = {}" using Cons.prems(1,3) by auto
    ultimately show ?thesis using Cons.IH [of l "kept @ [h]" ns] Cons.prems(2) Keep by simp
  next
    case Remove
    obtain l1 where l1: "dl_delete_at (list_head (kept @ h # hs)) h l = Some (list_head (kept @ hs), l1)" "dll l1 (kept @ hs)" "dll l1 ns"
      using dll_delete_frame [OF Cons.prems] by blast
    have "?r = fire_traversal act (list_head hs) (list_head (kept @ hs)) (list_head ns) l1"
      using h(1,9) l1(1) by (subst fire_traversal.simps) (simp add: Remove del: list_head_simps(3))
    moreover have "set ns \<inter> set (kept @ hs) = {}" using Cons.prems(3) by auto
    ultimately show ?thesis using Cons.IH [OF l1(2,3)] Remove by simp
  next
    case Reschedule
    obtain l1 where l1: "dl_delete_at (list_head (kept @ h # hs)) h l = Some (list_head (kept @ hs), l1)" "dll l1 (kept @ hs)" "dll l1 ns"
      using dll_delete_frame [OF Cons.prems] by blast
    have d: "h \<notin> set ns" "set (kept @ hs) \<inter> insert h (set ns) = {}" "set (ns @ [h]) \<inter> set (kept @ hs) = {}"
      using h Cons.prems(3) by auto
    obtain l2 where l2: "dl_append_at (list_head ns) h l1 = (list_head (ns @ [h]), l2)" "dll l2 (ns @ [h])" "dll l2 (kept @ hs)"
      using dll_append_frame [OF l1(3,2) h(1) d(1,2)] by blast
    have "?r = fire_traversal act (list_head hs) (list_head (kept @ hs)) (list_head (ns @ [h])) l2"
      using h(1,9) l1(1) l2(1) by (subst fire_traversal.simps) (simp add: Reschedule del: list_head_simps(3))
    then show ?thesis using Cons.IH [OF l2(3,2) d(3)] Reschedule by simp
  qed
qed

theorem fire_traversal_in_memory_witness:
  "\<exists>l'. fire_traversal (\<lambda>h. if h = 7 then Reschedule else if h = 5 then Remove else Keep) 5 5 0 demo_links = Some (6, 7, l') \<and>
     dll l' [6] \<and> dll l' [7]"
  using fire_traversal_in_memory [of demo_links "[]" "[5, 7, 6]" "[]" "\<lambda>h. if h = 7 then Reschedule else if h = 5 then Remove else Keep"]
  by (simp add: demo_dll)

section \<open>Singly linked lists\<close>

lemma ll_last_finds: "xs \<noteq> [] \<Longrightarrow> 0 \<notin> set xs \<Longrightarrow> chain (l_next l) xs 0 \<Longrightarrow> ll_last l (hd xs) = Some (last xs)"
proof (induction xs)
  case (Cons x xs)
  show ?case
  proof (cases xs)
    case Nil
    then show ?thesis using Cons.prems by (subst ll_last.simps) simp
  next
    case (Cons y ys)
    then show ?thesis using Cons.IH Cons.prems by (subst ll_last.simps) simp
  qed
qed simp

text \<open>The list of delay rules.\<close>

lemma sll_append:
  assumes "sll l xs" "h \<noteq> 0" "h \<notin> set xs"
  shows "\<exists>l'. ll_append_at (list_head xs) h l = Some (list_head (ll_append xs h), l') \<and> sll l' (ll_append xs h)"
proof (cases xs)
  case Nil
  then show ?thesis using assms by (simp add: ll_append_at_def ll_append_def sll_def)
next
  case (Cons x rest)
  obtain ys z where z: "xs = ys @ [z]" using Cons by (metis append_butlast_last_id list.discI)
  let ?l = "set_next h 0 l"
  have s: "0 \<notin> set xs" "chain (l_next ?l) xs 0" using assms by (auto simp: sll_def)
  have "ll_last ?l (hd xs) = Some (last xs)" using s Cons by (intro ll_last_finds) simp_all
  moreover have h: "list_head xs = hd xs" "list_head (xs @ [h]) = hd xs" using Cons by simp_all
  moreover have "hd xs \<noteq> 0" using s(1) Cons by auto
  moreover have "last xs = z" unfolding z by simp
  ultimately have "ll_append_at (list_head xs) h l = Some (list_head (xs @ [h]), set_next z h ?l)"
    unfolding h by (simp add: ll_append_at_def)
  moreover have "sll (set_next z h ?l) (xs @ [h])" using assms z by (simp add: sll_def chain_append)
  ultimately show ?thesis by (simp add: ll_append_def)
qed

end
