(* ===== verification/Child_Exit.thy ===== *)
theory Child_Exit
  imports Simulator
begin

text \<open>
  How a bench notices that its simulator process has ended (src/sim/sim/simulator.c): every write to the process
  counts, and each twelfth asks for the process's state before it writes; a write that fails asks as well. The other theories let the
  process live; here its state and the result of \<open>write\<close> are arguments.
\<close>

text \<open>The static counter of \<open>sim_write_pty\<close> and the simulator.\<close>

record ('cb, 'm) polled =
  num_calls :: nat
  psim :: "('cb, 'm) sim"

text \<open>
  \<open>wr\<close> and \<open>wr'\<close> are what \<open>waitpid\<close> answers before and after the write, \<open>ok\<close> whether the write works.
  \<open>Inl\<close>: the bench has ended with this status.
\<close>

definition polled_write ::
  "wait_result \<Rightarrow> bool \<Rightarrow> wait_result \<Rightarrow> string \<Rightarrow> ('cb, 'm) polled \<Rightarrow> int + ('cb, 'm) polled" where
  "polled_write wr ok wr' txt p =
     (case (if num_calls p > 10 then map_sum id (\<lambda>r. (0, snd r)) (check_child_running wr (psim p)) else Inr (num_calls p + 1, psim p)) of
        Inl st \<Rightarrow> Inl st
      | Inr (n, s) \<Rightarrow>
          if ok then Inr \<lparr>num_calls = n, psim = sim_write_pty txt s\<rparr>
          else (case check_child_running wr' s of Inl st \<Rightarrow> Inl st | Inr (_, s1) \<Rightarrow> Inr \<lparr>num_calls = n, psim = s1\<rparr>))"

text \<open>A sequence of writes, to a process that has ended with \<open>wr\<close>.\<close>

fun polled_writes :: "wait_result \<Rightarrow> (string \<times> bool) list \<Rightarrow> ('cb, 'm) polled \<Rightarrow> int + ('cb, 'm) polled" where
  "polled_writes wr [] p = Inr p"
| "polled_writes wr ((txt, ok) # ws) p = (case polled_write wr ok wr txt p of Inl st \<Rightarrow> Inl st | Inr p1 \<Rightarrow> polled_writes wr ws p1)"

text \<open>The status a bench ends with for a process that has ended, if it ends.\<close>

fun bench_status :: "sim_on_exit \<Rightarrow> wait_result \<Rightarrow> int option" where
  "bench_status e (Exited st) = (if e = SIMEXIT_EXIT \<or> st \<noteq> 0 \<and> e = SIMEXIT_ERROR then Some st else None)"
| "bench_status e Signalled = (if e = SIMEXIT_EXIT \<or> e = SIMEXIT_ERROR then Some 1 else None)"
| "bench_status e wr = None"

lemma check_ends: "child_running s \<Longrightarrow> bench_status (on_exit s) wr = Some st \<Longrightarrow> check_child_running wr s = Inl st"
  by (cases wr) (auto simp: check_child_running_def split: if_splits)

lemma write_frame [simp]: "child_running (sim_write_pty txt s) = child_running s" "on_exit (sim_write_pty txt s) = on_exit s"
  by (simp_all add: sim_write_pty_def)

lemma polled_write_cases:
  assumes "child_running (psim p)" "bench_status (on_exit (psim p)) wr = Some st"
  shows "polled_write wr ok wr txt p =
    (if num_calls p > 10 \<or> \<not> ok then Inl st else Inr \<lparr>num_calls = num_calls p + 1, psim = sim_write_pty txt (psim p)\<rparr>)"
  using check_ends [OF assms] by (simp add: polled_write_def)

text \<open>
  C24: A bench whose process has ended, and that is to end with it, ends at the latest with the twelfth command that it
  sends, with the status of the process, or 1 if it was killed: it does not wait for ever for an answer that never comes.
\<close>

theorem dead_child_noticed:
  assumes "child_running (psim p)" "bench_status (on_exit (psim p)) wr = Some st" "length ws + num_calls p \<ge> 12"
    and "ws \<noteq> []"
  shows "polled_writes wr ws p = Inl st"
  using assms
proof (induction ws arbitrary: p)
  case (Cons w ws)
  obtain x ok where w: "w = (x, ok)" by fastforce
  show ?case
  proof (cases "num_calls p > 10 \<or> \<not> ok")
    case True
    then show ?thesis using polled_write_cases [OF Cons.prems(1,2)] by (simp add: w)
  next
    case False
    then have "ws \<noteq> []" "length ws + (num_calls p + 1) \<ge> 12" using Cons.prems(3) by auto
    then show ?thesis
      using False polled_write_cases [OF Cons.prems(1,2)] Cons.IH [of "\<lparr>num_calls = num_calls p + 1, psim = sim_write_pty x (psim p)\<rparr>"]
        Cons.prems(1,2) by (simp add: w)
  qed
qed simp

theorem dead_child_noticed_witness:
  "\<forall>s :: (unit, unit) sim. polled_writes (Exited 3) (replicate 12 (''wait'', True))
     \<lparr>num_calls = 0, psim = s\<lparr>child_running := True, on_exit := SIMEXIT_ERROR\<rparr>\<rparr> = Inl 3"
proof
  fix s :: "(unit, unit) sim"
  show "polled_writes (Exited 3) (replicate 12 (''wait'', True))
     \<lparr>num_calls = 0, psim = s\<lparr>child_running := True, on_exit := SIMEXIT_ERROR\<rparr>\<rparr> = Inl 3"
    by (rule dead_child_noticed) simp_all
qed

end
