(* ===== verification/Spec2Isabelle.thy ===== *)
theory Spec2Isabelle
  imports Bitvec Recv_Buf Debug_Plan Sh2_Instr Gdb_Monitor Sh2_Context Delays Rom_Serial Sim_Signals Bus_Memory Cpu_Main Decode_Op Packet_Gen Vpi_Bench Hook_Links Child_Exit
begin

text \<open>
  A verification development for the C programs of the J-core CPU repository.

  \<^bold>\<open>The programs.\<close> The repository describes an SH-2 compatible processor in VHDL. The C code around it
  has two parts. The boot ROM (src/testrom) starts the processor and contains a monitor that talks the
  gdb remote protocol over a serial port. The simulation tools (src/sim) run the processor inside a GHDL
  or Icarus Verilog process: \<open>simulator.c\<close> exchanges lines of text with that process and calls hooks on
  signal events and at target times; \<open>mem_bus.c\<close> turns the signals of a bus into reads and writes of
  devices; \<open>cpu_ctb.c\<close> is the test bench with memory, serial ports, a debug port and a debug socket;
  \<open>decodeop.c\<close> is a bench for the instruction decoder; \<open>sh2instr.c\<close> names instructions; \<open>packet_gen.c\<close>
  prints a VHDL test bench.

  \<^bold>\<open>Shared theories.\<close>
  \<^item> \<open>Prelude\<close>: integer types at their width, big-endian bytes, list operations of utlist.h on lists,
    named collections of defining equations.
  \<^item> \<open>C_String\<close>: what the sources use of the C string library.

  \<^bold>\<open>The ROM.\<close>
  \<^item> \<open>Rom_World\<close>: the serial line, the memory and the statics that the monitor sees; gdb_putc, gdb_getc
    and the vector table of entry.c.
  \<^item> \<open>Gdb_Codec\<close>, \<open>Gdb_Packets\<close>, \<open>Gdb_Monitor\<close>: src/testrom/gdb.c. Conversions, packet transport, every
    command and the monitor loop. Shown: packets with a wrong checksum are rejected and the next correct
    one is delivered; replies repeat until acknowledged; memory and registers written by the host are
    what it reads back; exceptions are reported and continued; system calls return the value of the
    host. Three defects are proved as theorems (a repeated memory dump, qOffsets, the packet buffer).
  \<^item> \<open>Sh2_Stub\<close>, \<open>Sh2_Context\<close>: src/testrom/sh2.c. The register file, single stepping, and the exception
    assembly as a list of instructions. Shown: the predicted next address is the control transfer of
    the SH-2 for every opcode; a step is undone on re-entry; the context of the interrupted program
    survives an exception.
  \<^item> \<open>Rom_Serial\<close>: uartlite.c, uart16550.c and main.c; both drivers, on the simulated ports of
    \<open>Uart_Dev\<close>, implement the serial line that the monitor relies on.

  \<^bold>\<open>The simulator core.\<close>
  \<^item> \<open>Bitvec\<close>: bitvec.c, abstracted to finite sets.
  \<^item> \<open>Sim_Lines\<close>, \<open>Sim_Cmd\<close>: reading lines from the process and parsing its messages. Shown: every line is
    delivered once and in order however the reads cut the stream; what the process prints is parsed to
    what it meant.
  \<^item> \<open>Simulator\<close>: state, hooks, waiting, reading and writing signals. \<open>Sim_Hooks\<close> and \<open>Sim_Times\<close> show that
    the list of hooks stays distinct and sorted and that no target time is passed, for any bench that
    keeps the contracts \<open>hook_client\<close> and \<open>timed_client\<close>. \<open>Sim_Signals\<close> shows that the signal table stays
    typed, that the exchange of echoes takes in every message and that a forced wait returns.
  \<^item> \<open>Vpi_Bridge\<close>: vpibridge.c, the other end of the lines when Icarus Verilog runs the processor. \<open>Vpi_Runs\<close> shows
    that its statics agree with the callbacks it has registered, \<open>Vpi_Bench\<close> that a bench behind it sees the signals
    as variables. The functions of vpi_user.h are parameters; \<open>vpi_laws\<close> states what is assumed of them.
  \<^item> \<open>Hook_Links\<close>: the lists of utlist.h on memory, with \<open>next\<close> and \<open>prev\<close> pointers, and the list of hooks on
    them. Adding, removing and traversing on memory refine the same operations on sequences, which the other
    theories use.
  \<^item> \<open>Sim_Launch\<close>: options, the command line of the child process and the start of a simulator.

  \<^bold>\<open>The test bench.\<close>
  \<^item> \<open>Mem_Bus\<close>, \<open>Bus_Hooks\<close>, \<open>Bus_Init\<close>: mem_bus.c. A bus with devices as parameters (locale \<open>bus_devices\<close>)
    is a client of the simulator (\<open>sublocale\<close> to \<open>hook_client\<close> and \<open>timed_client\<close>).
  \<^item> \<open>Uart_Dev\<close>: uart.c and uartlite.c. \<open>Delays\<close>: delays.c, the rule files of access delays.
  \<^item> \<open>Debug_Plan\<close>: debug_plan.c; running a plan on the processor transfers registers or memory and
    restores R0. \<open>Debug_Hw\<close>: debug.c, the queue of debug commands. \<open>Recv_Buf\<close>, \<open>Debug_Skt\<close>: recv_buf.c and
    debug_skt.c; requests are answered in order however the stream is cut.
  \<^item> \<open>Cpu_Devs\<close>, \<open>Cpu_Debug\<close>, \<open>Cpu_Bench\<close>: cpu_ctb.c. \<open>Cpu_Run\<close> interprets the contracts on the devices of
    the bench, and \<open>Bench_Runs\<close> concludes for all runs, from the start: hooks in order, times never
    passed. \<open>Cpu_Main\<close> is main with its signal table and all its failures, and shows that what it hands to its
    loop is such a start. \<open>Bus_Memory\<close> shows that the memories behave as memory.
  \<^item> \<open>Sh2_Instr\<close>: sh2instr.c and pinst.c. \<open>Decode_Op\<close>: decodeop.c. \<open>Packet_Gen\<close>: packet_gen.c.

  \<^bold>\<open>Interfaces.\<close> Each locale is a contract between two components and is interpreted on the model of the
  provider: \<open>event_set\<close> (bit vectors), \<open>byte_queue\<close> (receive buffer), \<open>line_source\<close> (line reader),
  \<open>unit_writer\<close> (the two memory writers of gdb.c), \<open>acked_sender\<close> (three senders of packets),
  \<open>register_store\<close> (register file), \<open>serial_driver\<close> (both drivers), \<open>hook_client\<close>, \<open>timed_client\<close>,
  \<open>bus_devices\<close>, \<open>timed_devices\<close> and \<open>debug_client\<close> (the test bench).

  \<^bold>\<open>How the state corresponds.\<close>
  \<^item> Integers are words of the width the C types have; \<open>long\<close> has 64 bits, \<open>char\<close> 8. Loops are recursive
    functions with a termination proof; loops that may wait for ever are \<open>partial_function (option)\<close>, and
    that they return is stated where it is claimed. No fuel is used.
  \<^item> The automatic variables of the monitor are values of the model and not part of its memory. The
    address of \<open>register_file\<close> and the bits of SR that the hardware defines are parameters.
  \<^item> The simulator process is the sequence of results that reading from it gives, and the text written
    to it. It stays alive, so the polls for a dead child change nothing, except in \<open>Child_Exit\<close>, where they
    are shown to end a bench whose process has ended. Times stay below 2^63 ps.
  \<^item> Hooks are numbers: 0 is \<open>sig_wait\<close>, 1 to 15 belong to the buses, 16 to the event trigger, 17 and 18
    to the debug port. Callbacks and function pointers are values with an interpreting function that is
    a parameter of the layers below the bench.
  \<^item> The rules of a delay file are below 0x400000 ns in the theorems on runs of the bench.
  \<^item> Keys, the socket and pseudo terminals are inputs of each turn of the loop. What getopt answers is a
    list. Text on the console is left out, except in \<open>Decode_Op\<close>, \<open>Sh2_Instr\<close> and \<open>Packet_Gen\<close>, where it is
    the result.

  \<^bold>\<open>Not modelled.\<close> The VHDL of the processor, its decoder and cache and the Clojure generator of the
  decoder are not C. The assembly self tests exercise the hardware. The VHDL side of the line protocol
  (the processes that sim_macros.h generates) is only represented by the format of its messages.
  Hash tables (uthash.h) are third-party code and appear only as the map they implement. Forking,
  killing and waiting for processes and setting up terminals act only on the operating system.
\<close>

end
